(* ===== verification/Prelude.thy ===== *)
theory Prelude
  imports Main "HOL-Library.Word"
begin

text \<open>
  Shared vocabulary of the development: the machine integers of the Rust sources, byte
  strings, a small effect type for the asynchronous code, and generic lemmas.

  An \<open>async fn\<close> of the sources that returns \<open>Result<T, E>\<close> is a value of type
  \<open>('w, 'e, 'a) io\<close>: a function of the state \<open>'w\<close> of everything outside the crate (the
  transport, the channels, the timers) that gives a result and the state left behind.
  An error is \<open>Inl\<close>, a value is \<open>Inr\<close>; the \<open>?\<close> operator of Rust is \<open>io_bind\<close>, and
  \<open>map_err\<close> and the implicit \<open>From\<close> conversions of \<open>?\<close> are \<open>io_map_err\<close>.
\<close>

section \<open>Machine integers and bytes\<close>

type_synonym u8 = "8 word"
type_synonym u16 = "16 word"
type_synonym u32 = "32 word"
type_synonym u64 = "64 word"
type_synonym i32 = "32 word"
type_synonym bytes = "u8 list"

named_theorems io_simps \<open>evaluation rules of the effect type\<close>

section \<open>Effects\<close>

type_synonym ('w, 'e, 'a) io = "'w \<Rightarrow> ('e + 'a) \<times> 'w"

definition io_ret :: "'a \<Rightarrow> ('w, 'e, 'a) io" where
  "io_ret x w = (Inr x, w)"

definition io_fail :: "'e \<Rightarrow> ('w, 'e, 'a) io" where
  "io_fail e w = (Inl e, w)"

definition io_of :: "('e + 'a) \<Rightarrow> ('w, 'e, 'a) io" where
  "io_of r w = (r, w)"

definition io_bind :: "('w, 'e, 'a) io \<Rightarrow> ('a \<Rightarrow> ('w, 'e, 'b) io) \<Rightarrow> ('w, 'e, 'b) io" where
  "io_bind m f w = (case m w of (Inl e, w') \<Rightarrow> (Inl e, w') | (Inr x, w') \<Rightarrow> f x w')"

definition io_map_err :: "('e \<Rightarrow> 'f) \<Rightarrow> ('w, 'e, 'a) io \<Rightarrow> ('w, 'f, 'a) io" where
  "io_map_err g m w = (case m w of (Inl e, w') \<Rightarrow> (Inl (g e), w') | (Inr x, w') \<Rightarrow> (Inr x, w'))"

text \<open>\<open>match fut.await \<open>{\<close> ... \<open>}\<close>\<close>: the result itself, error or value, goes on to the next step.\<close>

definition io_match :: "('w, 'e, 'a) io \<Rightarrow> ('e + 'a \<Rightarrow> ('w, 'f, 'b) io) \<Rightarrow> ('w, 'f, 'b) io" where
  "io_match m f w = (case m w of (r, w') \<Rightarrow> f r w')"

text \<open>An operation with an effect and no result that can fail.\<close>

definition io_do :: "('w \<Rightarrow> 'w) \<Rightarrow> ('w, 'e, unit) io" where
  "io_do f w = (Inr (), f w)"

text \<open>An operation that always gives a result.\<close>

definition io_lift :: "('w \<Rightarrow> 'a \<times> 'w) \<Rightarrow> ('w, 'e, 'a) io" where
  "io_lift m w = (case m w of (x, w') \<Rightarrow> (Inr x, w'))"

lemma io_ret_apply [simp, io_simps]: "io_ret x w = (Inr x, w)"
  by (simp add: io_ret_def)

lemma io_fail_apply [simp, io_simps]: "io_fail e w = (Inl e, w)"
  by (simp add: io_fail_def)

lemma io_of_apply [simp, io_simps]: "io_of r w = (r, w)"
  by (simp add: io_of_def)

lemma io_do_apply [simp, io_simps]: "io_do f w = (Inr (), f w)"
  by (simp add: io_do_def)

lemma io_lift_apply [simp, io_simps]: "m w = (x, w') \<Longrightarrow> io_lift m w = (Inr x, w')"
  by (simp add: io_lift_def)

lemma io_lift_eq: "io_lift m w = (res, w') \<longleftrightarrow> (\<exists>x. m w = (x, w') \<and> res = Inr x)"
  by (auto simp: io_lift_def split: prod.splits)

lemma io_bind_Inl [simp, io_simps]: "m w = (Inl e, w') \<Longrightarrow> io_bind m f w = (Inl e, w')"
  by (simp add: io_bind_def)

lemma io_bind_Inr [simp, io_simps]: "m w = (Inr x, w') \<Longrightarrow> io_bind m f w = f x w'"
  by (simp add: io_bind_def)

lemma io_map_err_Inl [simp, io_simps]: "m w = (Inl e, w') \<Longrightarrow> io_map_err g m w = (Inl (g e), w')"
  by (simp add: io_map_err_def)

lemma io_map_err_Inr [simp, io_simps]: "m w = (Inr x, w') \<Longrightarrow> io_map_err g m w = (Inr x, w')"
  by (simp add: io_map_err_def)

lemma io_match_apply [simp, io_simps]: "m w = (r, w') \<Longrightarrow> io_match m f w = f r w'"
  by (simp add: io_match_def)

text \<open>Inversion: how a composed operation can have returned.\<close>

lemma io_bind_eq_Inr:
  "io_bind m f w = (Inr y, w') \<longleftrightarrow> (\<exists>x w1. m w = (Inr x, w1) \<and> f x w1 = (Inr y, w'))"
  by (auto simp: io_bind_def split: prod.splits sum.splits)

lemma io_bind_eq_Inl:
  "io_bind m f w = (Inl e, w') \<longleftrightarrow>
     m w = (Inl e, w') \<or> (\<exists>x w1. m w = (Inr x, w1) \<and> f x w1 = (Inl e, w'))"
  by (auto simp: io_bind_def split: prod.splits sum.splits)

lemma io_map_err_eq_Inr: "io_map_err g m w = (Inr x, w') \<longleftrightarrow> m w = (Inr x, w')"
  by (auto simp: io_map_err_def split: prod.splits sum.splits)

lemma io_map_err_eq_Inl:
  "io_map_err g m w = (Inl e, w') \<longleftrightarrow> (\<exists>e0. m w = (Inl e0, w') \<and> e = g e0)"
  by (auto simp: io_map_err_def split: prod.splits sum.splits)

lemma io_map_err_comp: "io_map_err f (io_map_err g m) = io_map_err (\<lambda>e. f (g e)) m"
  by (rule ext) (auto simp: io_map_err_def split: prod.splits sum.splits)

lemmas io_inv = io_bind_eq_Inr io_bind_eq_Inl io_map_err_eq_Inr io_map_err_eq_Inl io_lift_eq

section \<open>Results in a list\<close>

fun rights :: "('a + 'b) list \<Rightarrow> 'b list" where
  "rights [] = []"
| "rights (Inl x # xs) = rights xs"
| "rights (Inr y # xs) = y # rights xs"

section \<open>Fixed-size buffers\<close>

text \<open>
  Writing \<open>data\<close> into a buffer from an offset on: what a transport read into \<open>&mut buf[off..]\<close>
  leaves in the buffer.
\<close>

definition fill :: "bytes \<Rightarrow> nat \<Rightarrow> bytes \<Rightarrow> bytes" where
  "fill buf off data = take off buf @ data @ drop (off + length data) buf"

lemma length_fill: "off + length data \<le> length buf \<Longrightarrow> length (fill buf off data) = length buf"
  by (simp add: fill_def)

lemma fill_prefix: "fill buf 0 data = data @ drop (length data) buf"
  by (simp add: fill_def)

lemma fill_complete:
  assumes "length a + length b = length buf"
  shows "fill (fill buf 0 a) (length a) b = a @ b"
  using assms by (simp add: fill_def)

section \<open>Fixed-width byte codecs\<close>

text \<open>
  The interface of a big-endian integer conversion and of a message header: an encoder of
  fixed width with a decoder that inverts it, on the byte strings of that width.
\<close>

locale fixed_codec =
  fixes enc :: "'a \<Rightarrow> bytes" and dec :: "bytes \<Rightarrow> 'a" and width :: nat
    and ok :: "'a \<Rightarrow> bool"
  assumes enc_width: "length (enc x) = width"
    and dec_enc: "ok x \<Longrightarrow> dec (enc x) = x"
    and dec_ok: "length bs = width \<Longrightarrow> ok (dec bs)"
begin

lemma enc_inj: "ok x \<Longrightarrow> ok y \<Longrightarrow> enc x = enc y \<Longrightarrow> x = y"
  using dec_enc by metis

lemma dec_prefix: "ok x \<Longrightarrow> dec (take width (enc x @ rest)) = x"
  by (simp add: enc_width dec_enc)

lemma drop_prefix: "drop width (enc x @ rest) = rest"
  by (simp add: enc_width)

lemma enc_append_inj:
  "ok x \<Longrightarrow> ok y \<Longrightarrow> enc x @ r = enc y @ s \<Longrightarrow> x = y \<and> r = s"
  by (metis append_eq_append_conv enc_inj enc_width)

end

end
