(* ===== verification/Sock_Addr.thy ===== *)
theory Sock_Addr
  imports Prelude
begin

text \<open>
  The address types of \<open>std::net\<close> the sources use (\<open>IpAddr\<close>, \<open>SocketAddr\<close>), with the
  methods called on them (\<open>ip\<close>, \<open>port\<close>, \<open>set_ip\<close>, \<open>set_port\<close>, \<open>SocketAddr::new\<close>) and
  their \<open>Display\<close> text, together with the decimal and hexadecimal printing that the
  formatting macros of the crate need. Strings are byte strings in UTF-8, as in Rust.
\<close>

section \<open>Printing numbers\<close>

definition dec_digit :: "nat \<Rightarrow> char" where
  "dec_digit d = char_of (48 + d)"

definition hex_digit :: "nat \<Rightarrow> char" where
  "hex_digit d = char_of (if d < 10 then 48 + d else 87 + d)"

fun show_nat :: "nat \<Rightarrow> string" where
  "show_nat n = (if n < 10 then [dec_digit n] else show_nat (n div 10) @ [dec_digit (n mod 10)])"

fun show_hex :: "nat \<Rightarrow> string" where
  "show_hex n = (if n < 16 then [hex_digit n] else show_hex (n div 16) @ [hex_digit (n mod 16)])"

declare show_nat.simps [simp del] show_hex.simps [simp del]

text \<open>The format \<open>:02x\<close> of a byte: two hexadecimal digits.\<close>

definition show_hex02 :: "u8 \<Rightarrow> string" where
  "show_hex02 b = [hex_digit (unat b div 16), hex_digit (unat b mod 16)]"

fun join :: "string \<Rightarrow> string list \<Rightarrow> string" where
  "join sep [] = []"
| "join sep [s] = s"
| "join sep (s # t # ss) = s @ sep @ join sep (t # ss)"

section \<open>Addresses\<close>

datatype Ipv4Addr = Ipv4 u8 u8 u8 u8

text \<open>The eight 16-bit segments of an IPv6 address.\<close>

datatype Ipv6Addr = Ipv6 u16 u16 u16 u16 u16 u16 u16 u16

datatype IpAddr = IpV4 Ipv4Addr | IpV6 Ipv6Addr

text \<open>\<open>SocketAddrV6\<close> carries a flow label and a scope id beside the address and the port.\<close>

datatype SocketAddr =
    V4 Ipv4Addr u16
  | V6 Ipv6Addr u16 u32 u32

fun sa_ip :: "SocketAddr \<Rightarrow> IpAddr" where
  "sa_ip (V4 ip port) = IpV4 ip"
| "sa_ip (V6 ip port flow scope) = IpV6 ip"

fun sa_port :: "SocketAddr \<Rightarrow> u16" where
  "sa_port (V4 ip port) = port"
| "sa_port (V6 ip port flow scope) = port"

fun sa_new :: "IpAddr \<Rightarrow> u16 \<Rightarrow> SocketAddr" where
  "sa_new (IpV4 ip) port = V4 ip port"
| "sa_new (IpV6 ip) port = V6 ip port 0 0"

text \<open>
  \<open>set_ip\<close> keeps the flow label and the scope id where both addresses are IPv6, and makes
  a new address with the old port where the family changes.
\<close>

fun set_ip :: "IpAddr \<Rightarrow> SocketAddr \<Rightarrow> SocketAddr" where
  "set_ip (IpV4 new) (V4 ip port) = V4 new port"
| "set_ip (IpV6 new) (V6 ip port flow scope) = V6 new port flow scope"
| "set_ip new sa = sa_new new (sa_port sa)"

fun set_port :: "u16 \<Rightarrow> SocketAddr \<Rightarrow> SocketAddr" where
  "set_port new (V4 ip port) = V4 ip new"
| "set_port new (V6 ip port flow scope) = V6 ip new flow scope"

lemma sa_new_ip_port [simp]: "sa_ip (sa_new ip p) = ip" "sa_port (sa_new ip p) = p"
  by (cases ip; simp)+

lemma set_ip_ip [simp]: "sa_ip (set_ip new sa) = new"
  by (cases new; cases sa; simp)

lemma set_ip_port [simp]: "sa_port (set_ip new sa) = sa_port sa"
  by (cases new; cases sa; simp)

lemma set_port_port [simp]: "sa_port (set_port new sa) = new"
  by (cases sa) simp_all

lemma set_port_ip [simp]: "sa_ip (set_port new sa) = sa_ip sa"
  by (cases sa) simp_all

lemma set_ip_same [simp]: "set_ip (sa_ip sa) sa = sa"
  by (cases sa) simp_all

lemma set_port_same [simp]: "set_port (sa_port sa) sa = sa"
  by (cases sa) simp_all

section \<open>Display\<close>

fun show_ipv4 :: "Ipv4Addr \<Rightarrow> string" where
  "show_ipv4 (Ipv4 a b c d) = join ''.'' (map (\<lambda>x. show_nat (unat x)) [a, b, c, d])"

fun segments :: "Ipv6Addr \<Rightarrow> u16 list" where
  "segments (Ipv6 a b c d e f g h) = [a, b, c, d, e, f, g, h]"

text \<open>
  The first of the longest runs of zero segments, as (start, length): the loop keeps the
  current run and the longest one seen.
\<close>

fun longest_zeros :: "nat \<Rightarrow> nat \<times> nat \<Rightarrow> nat \<times> nat \<Rightarrow> u16 list \<Rightarrow> nat \<times> nat" where
  "longest_zeros i cur best [] = best"
| "longest_zeros i cur best (s # ss) =
     (if s = 0 then
        let cur' = ((if snd cur = 0 then i else fst cur), Suc (snd cur))
        in longest_zeros (Suc i) cur' (if snd cur' > snd best then cur' else best) ss
      else longest_zeros (Suc i) (0, 0) best ss)"

definition show_segments :: "u16 list \<Rightarrow> string" where
  "show_segments ss = join '':'' (map (\<lambda>s. show_hex (unat s)) ss)"

definition show_ipv6 :: "Ipv6Addr \<Rightarrow> string" where
  "show_ipv6 ip =
     (let ss = segments ip in
      if take 6 ss = [0, 0, 0, 0, 0, 0xffff] then
        ''::ffff:'' @ show_ipv4 (Ipv4 (ucast (drop_bit 8 (ss ! 6))) (ucast (ss ! 6))
                                      (ucast (drop_bit 8 (ss ! 7))) (ucast (ss ! 7)))
      else case longest_zeros 0 (0, 0) (0, 0) ss of (start, len) \<Rightarrow>
        if len > 1 then show_segments (take start ss) @ ''::'' @ show_segments (drop (start + len) ss)
        else show_segments ss)"

fun show_addr :: "SocketAddr \<Rightarrow> string" where
  "show_addr (V4 ip port) = show_ipv4 ip @ '':'' @ show_nat (unat port)"
| "show_addr (V6 ip port flow scope) =
     ''['' @ show_ipv6 ip @ (if scope = 0 then [] else ''%'' @ show_nat (unat scope)) @ '']:''
       @ show_nat (unat port)"

section \<open>Decimal text\<close>

text \<open>Decimal text determines the number: the value of the digits is the number printed.\<close>

definition digit_value :: "char \<Rightarrow> nat option" where
  "digit_value c = (let n = of_char c in if 48 \<le> n \<and> n \<le> 57 then Some (n - 48) else None)"

lemma digit_value_dec_digit [simp]: "d < 10 \<Longrightarrow> digit_value (dec_digit d) = Some d"
  by (simp add: digit_value_def dec_digit_def)

lemma show_nat_not_Nil [simp]: "show_nat n \<noteq> []"
  by (subst show_nat.simps) simp

lemma show_nat_digits: "c \<in> set (show_nat n) \<Longrightarrow> \<exists>d < 10. c = dec_digit d"
proof (induction n rule: show_nat.induct)
  case (1 n)
  then show ?case
    by (subst (asm) (2) show_nat.simps) (auto split: if_splits intro: exI [of _ "n mod 10"])
qed

end
