(* ===== verification/Wire_Types.thy ===== *)
theory Wire_Types
  imports Sock_Addr
begin

text \<open>
  The data of \<open>src/wire_msg.rs\<close> (the \<open>WireMsg\<close> enum, the message header and the constants)
  with the text they print as, and \<open>src/utils.rs\<close>, which abbreviates binary data for it.
\<close>

section \<open>Constants and data\<close>

definition MSG_HEADER_LEN :: nat where
  "MSG_HEADER_LEN = 9"

definition MSG_PROTOCOL_VERSION :: u16 where
  "MSG_PROTOCOL_VERSION = 0x0001"

datatype WireMsg =
    EndpointEchoReq
  | EndpointEchoResp SocketAddr
  | EndpointVerificationReq SocketAddr
  | EndpointVerificationResp bool
  | UserMsg bytes

definition USER_MSG_FLAG :: u8 where
  "USER_MSG_FLAG = 0x00"

definition ECHO_SRVC_MSG_FLAG :: u8 where
  "ECHO_SRVC_MSG_FLAG = 0x01"

record MsgHeader =
  version :: u16
  data_len :: u32
  usr_msg_flag :: u8
  reserved :: "u8 \<times> u8"

section \<open>Binary data as text\<close>

text \<open>The \<open>Debug\<close> text of a byte slice.\<close>

definition debug_bytes :: "bytes \<Rightarrow> string" where
  "debug_bytes data = ''['' @ join '', '' (map (\<lambda>b. show_nat (unat b)) data) @ '']''"

definition bin_data_format :: "bytes \<Rightarrow> string" where
  "bin_data_format data =
     (let len = length data in
      if len < 8 then ''[ '' @ debug_bytes data @ '' ]''
      else ''[ '' @ show_hex02 (data ! 0) @ '' '' @ show_hex02 (data ! 1) @ '' ''
           @ show_hex02 (data ! 2) @ '' '' @ show_hex02 (data ! 3) @ ''..''
           @ show_hex02 (data ! (len - 4)) @ '' '' @ show_hex02 (data ! (len - 3)) @ '' ''
           @ show_hex02 (data ! (len - 2)) @ '' '' @ show_hex02 (data ! (len - 1)) @ '' ]'')"

fun display_wire_msg :: "WireMsg \<Rightarrow> string" where
  "display_wire_msg (UserMsg m) = ''WireMsg::UserMsg('' @ bin_data_format m @ '')''"
| "display_wire_msg EndpointEchoReq = ''WireMsg::EndpointEchoReq''"
| "display_wire_msg (EndpointEchoResp sa) = ''WireMsg::EndpointEchoResp('' @ show_addr sa @ '')''"
| "display_wire_msg (EndpointVerificationReq sa) =
     ''WireMsg::EndpointVerificationReq('' @ show_addr sa @ '')''"
| "display_wire_msg (EndpointVerificationResp valid) =
     ''WireMsg::EndpointEchoResp('' @ (if valid then ''Valid'' else ''Invalid'') @ '')''"

section \<open>Properties of the text\<close>

lemma length_show_hex02 [simp]: "length (show_hex02 b) = 2"
  by (simp add: show_hex02_def)

text \<open>Eight or more bytes always print as 28 characters: log lines stay bounded.\<close>

lemma bin_data_format_long: "8 \<le> length data \<Longrightarrow> length (bin_data_format data) = 28"
  by (simp add: bin_data_format_def Let_def)

lemma bin_data_format_ends:
  assumes "8 \<le> length a" and "take 4 a = take 4 b" and "drop (length a - 4) a = drop (length b - 4) b"
    and "8 \<le> length b"
  shows "bin_data_format a = bin_data_format b"
proof -
  have pre: "a ! i = b ! i" if "i < 4" for i
    using arg_cong [OF assms(2), of "\<lambda>xs. xs ! i"] that by simp
  have suf: "a ! (length a - 4 + i) = b ! (length b - 4 + i)" for i
    using arg_cong [OF assms(3), of "\<lambda>xs. xs ! i"] by (simp only: nth_drop diff_le_self)
  have pos: "length xs - 4 + 1 = length xs - 3" "length xs - 4 + 2 = length xs - 2"
    "length xs - 4 + 3 = length xs - 1" if "8 \<le> length xs" for xs :: bytes
    using that by simp_all
  have "a ! (length a - 4) = b ! (length b - 4)" "a ! (length a - 3) = b ! (length b - 3)"
    "a ! (length a - 2) = b ! (length b - 2)" "a ! (length a - 1) = b ! (length b - 1)"
    using suf [of 0] suf [of 1] suf [of 2] suf [of 3]
    by (simp_all only: pos [OF assms(1)] pos [OF assms(4)] add_0_right)
  with assms(1,4) pre [of 0] pre [of 1] pre [of 2] pre [of 3] show ?thesis
    by (simp add: bin_data_format_def Let_def)
qed

end
