(* ===== verification/Std_Utf8.thy ===== *)
theory Std_Utf8
  imports Sock_Addr
begin

text \<open>
  \<open>String::from_utf8_lossy\<close> of the standard library, which the \<open>Display\<close> text of a closed
  connection uses for the reason the peer gave: well-formed UTF-8 is kept, each maximal
  ill-formed sequence becomes U+FFFD.
\<close>

definition utf8_char_width :: "u8 \<Rightarrow> nat" where
  "utf8_char_width b =
     (let n = unat b in
      if n < 0x80 then 1 else if n < 0xC2 then 0 else if n < 0xE0 then 2
      else if n < 0xF0 then 3 else if n < 0xF5 then 4 else 0)"

text \<open>The byte at a position, 0 past the end.\<close>

definition safe_get :: "bytes \<Rightarrow> nat \<Rightarrow> nat" where
  "safe_get bs i = (if i < length bs then unat (bs ! i) else 0)"

definition is_cont :: "nat \<Rightarrow> bool" where
  "is_cont n \<longleftrightarrow> 0x80 \<le> n \<and> n \<le> 0xBF"

definition second3_ok :: "nat \<Rightarrow> nat \<Rightarrow> bool" where
  "second3_ok b n =
     (if b = 0xE0 then 0xA0 \<le> n \<and> n \<le> 0xBF
      else if b = 0xED then 0x80 \<le> n \<and> n \<le> 0x9F else is_cont n)"

definition second4_ok :: "nat \<Rightarrow> nat \<Rightarrow> bool" where
  "second4_ok b n =
     (if b = 0xF0 then 0x90 \<le> n \<and> n \<le> 0xBF
      else if b = 0xF4 then 0x80 \<le> n \<and> n \<le> 0x8F else is_cont n)"

text \<open>One step of the decoder on a nonempty input: whether a character was read, and the bytes used.\<close>

definition utf8_step :: "bytes \<Rightarrow> bool \<times> nat" where
  "utf8_step bs =
     (let b = safe_get bs 0; w = utf8_char_width (bs ! 0) in
      if w = 1 then (True, 1)
      else if w = 2 then (if is_cont (safe_get bs 1) then (True, 2) else (False, 1))
      else if w = 3 then
        (if \<not> second3_ok b (safe_get bs 1) then (False, 1)
         else if is_cont (safe_get bs 2) then (True, 3) else (False, 2))
      else if w = 4 then
        (if \<not> second4_ok b (safe_get bs 1) then (False, 1)
         else if \<not> is_cont (safe_get bs 2) then (False, 2)
         else if is_cont (safe_get bs 3) then (True, 4) else (False, 3))
      else (False, 1))"

definition string_of_bytes :: "bytes \<Rightarrow> string" where
  "string_of_bytes bs = map (\<lambda>b. char_of (unat b)) bs"

definition replacement_char :: string where
  "replacement_char = string_of_bytes [0xEF, 0xBF, 0xBD]"

lemma utf8_step_pos: "utf8_step bs = (valid, n) \<Longrightarrow> 0 < n"
  by (auto simp: utf8_step_def Let_def split: if_splits)

function from_utf8_lossy :: "bytes \<Rightarrow> string" where
  "from_utf8_lossy bs =
     (if bs = [] then []
      else case utf8_step bs of (valid, n) \<Rightarrow>
        (if valid then string_of_bytes (take n bs) else replacement_char)
        @ from_utf8_lossy (drop n bs))"
  by pat_completeness auto
termination
  by (relation "measure length") (auto dest!: sym [of "(_, _)"] utf8_step_pos)

declare from_utf8_lossy.simps [simp del]

text \<open>ASCII text is kept as it is.\<close>

lemma from_utf8_lossy_ascii:
  "(\<forall>b \<in> set bs. unat b < 128) \<Longrightarrow> from_utf8_lossy bs = string_of_bytes bs"
proof (induction bs)
  case Nil
  then show ?case by (simp add: from_utf8_lossy.simps string_of_bytes_def)
next
  case (Cons b bs)
  then have "utf8_step (b # bs) = (True, 1)"
    by (simp add: utf8_step_def utf8_char_width_def Let_def)
  with Cons show ?case
    by (subst from_utf8_lossy.simps) (simp add: string_of_bytes_def)
qed

end
