(* ===== verification/Errors.thy ===== *)
theory Errors
  imports Wire_Types Std_Utf8
begin

text \<open>
  The error types of \<open>src/error.rs\<close>, \<open>src/config.rs\<close> and \<open>src/igd.rs\<close>, and the \<open>From\<close>
  conversions between them that the \<open>?\<close> operator applies. The error enums of the \<open>quinn\<close>
  crate are those the conversions match on, constructor by constructor; payloads the crate
  never looks into are uninterpreted types.
\<close>

section \<open>Errors of the libraries\<close>

typedecl quinn_TransportError
typedecl quinn_TransportErrorCode
typedecl quinn_VarIntBoundsExceeded
typedecl bincode_ErrorKind
typedecl io_Error
typedecl rustls_Error
typedecl rcgen_Error
typedecl igd_AddPortError
typedecl igd_SearchError

datatype quinn_ConnectError =
    Q_EndpointStopping
  | Q_TooManyConnections
  | Q_InvalidRemoteAddress SocketAddr
  | Q_InvalidDnsName string
  | Q_NoDefaultClientConfig
  | Q_UnsupportedVersion

record quinn_ApplicationClose =
  app_error_code :: u64
  app_reason :: bytes

record quinn_ConnectionClose =
  conn_error_code :: quinn_TransportErrorCode
  conn_reason :: bytes

datatype quinn_ConnectionError =
    Q_LocallyClosed
  | Q_ApplicationClosed quinn_ApplicationClose
  | Q_ConnectionClosed quinn_ConnectionClose
  | Q_VersionMismatch
  | Q_TransportError quinn_TransportError
  | Q_Reset
  | Q_TimedOut

datatype quinn_WriteError =
    QW_Stopped u64
  | QW_ConnectionLost quinn_ConnectionError
  | QW_UnknownStream
  | QW_ZeroRttRejected

datatype quinn_ReadError =
    QR_Reset u64
  | QR_ConnectionLost quinn_ConnectionError
  | QR_UnknownStream
  | QR_IllegalOrderedRead
  | QR_ZeroRttRejected

datatype quinn_ReadExactError =
    QX_FinishedEarly
  | QX_ReadError quinn_ReadError

text \<open>\<open>bincode::Error\<close> is a boxed \<open>ErrorKind\<close>; the crate makes values of its \<open>Custom\<close> kind only.\<close>

datatype bincode_Error = Custom string | OtherKind bincode_ErrorKind

section \<open>Errors of the crate\<close>

datatype InternalConfigError = InternalConfigError quinn_ConnectError

datatype TransportErrorCode = TransportErrorCode quinn_TransportErrorCode

datatype Close =
    Local
  | Application u64 bytes
  | Transport TransportErrorCode bytes

datatype ConnectionError =
    Stopped
  | TooManyConnections
  | InvalidAddress SocketAddr
  | InternalConfigError InternalConfigError
  | VersionMismatch
  | TransportError quinn_TransportError
  | Reset
  | TimedOut
  | Closed Close

datatype SerializationError = SerializationError bincode_Error

text \<open>The boxed error of an unsupported operation is the \<open>quinn\<close> error it was made from.\<close>

datatype UnsupportedStreamOperation =
    UnsupportedWrite quinn_WriteError
  | UnsupportedRead quinn_ReadError

datatype StreamError =
    Stopped u64
  | Gone
  | Unsupported UnsupportedStreamOperation

datatype SendError =
    Serialization SerializationError
  | ConnectionLost ConnectionError
  | StreamLost StreamError

datatype RecvError =
    Serialization SerializationError
  | ConnectionLost ConnectionError
  | StreamLost StreamError

datatype RpcError =
    TimedOut
  | Send SendError
  | Recv RecvError

datatype CertificateGenerationError = CertificateGenerationError rcgen_Error

datatype ConfigError =
    CertificateGeneration CertificateGenerationError
  | InvalidIdleTimeout quinn_VarIntBoundsExceeded
  | Rustls rustls_Error
  | Webpki

datatype IgdError =
    TimedOut
  | NotSupported
  | AddPort igd_AddPortError
  | Search igd_SearchError

datatype UpnpError = UpnpError IgdError

datatype EndpointError =
    Config ConfigError
  | Socket io_Error
  | EndpointEcho SocketAddr RpcError
  | Upnp UpnpError
  | EndpointVerification SocketAddr RpcError
  | Unreachable SocketAddr
  | IoError io_Error

datatype ClientEndpointError =
    Config ConfigError
  | Socket io_Error
  | Io io_Error

section \<open>Operations\<close>

fun is_benign :: "ConnectionError \<Rightarrow> bool" where
  "is_benign ConnectionError.TimedOut = True"
| "is_benign (ConnectionError.Closed Local) = True"
| "is_benign (ConnectionError.Closed (Application code reason)) = (code = 0)"
| "is_benign _ = False"

fun ConnectionError_from_connect :: "quinn_ConnectError \<Rightarrow> ConnectionError" where
  "ConnectionError_from_connect Q_EndpointStopping = ConnectionError.Stopped"
| "ConnectionError_from_connect Q_TooManyConnections = ConnectionError.TooManyConnections"
| "ConnectionError_from_connect (Q_InvalidRemoteAddress addr) = ConnectionError.InvalidAddress addr"
| "ConnectionError_from_connect error = ConnectionError.InternalConfigError (InternalConfigError.InternalConfigError error)"

fun Close_from_application :: "quinn_ApplicationClose \<Rightarrow> Close" where
  "Close_from_application close = Application (app_error_code close) (app_reason close)"

fun Close_from_connection :: "quinn_ConnectionClose \<Rightarrow> Close" where
  "Close_from_connection close =
     Transport (TransportErrorCode (conn_error_code close)) (conn_reason close)"

fun ConnectionError_from_quinn :: "quinn_ConnectionError \<Rightarrow> ConnectionError" where
  "ConnectionError_from_quinn Q_LocallyClosed = ConnectionError.Closed Local"
| "ConnectionError_from_quinn (Q_ApplicationClosed close) =
     ConnectionError.Closed (Application (app_error_code close) (app_reason close))"
| "ConnectionError_from_quinn (Q_ConnectionClosed close) =
     ConnectionError.Closed (Transport (TransportErrorCode (conn_error_code close)) (conn_reason close))"
| "ConnectionError_from_quinn Q_VersionMismatch = ConnectionError.VersionMismatch"
| "ConnectionError_from_quinn (Q_TransportError error) = ConnectionError.TransportError error"
| "ConnectionError_from_quinn Q_Reset = ConnectionError.Reset"
| "ConnectionError_from_quinn Q_TimedOut = ConnectionError.TimedOut"

text \<open>The text of a transport error code is \<open>quinn\<close>'s, a parameter.\<close>

fun display_close :: "(quinn_TransportErrorCode \<Rightarrow> string) \<Rightarrow> Close \<Rightarrow> string" where
  "display_close show_code Local = ''us''"
| "display_close show_code (Application code reason) =
     ''application'' @ '' (error code: '' @ show_nat (unat code) @ '', reason: ''
       @ from_utf8_lossy reason @ '')''"
| "display_close show_code (Transport (TransportErrorCode code) reason) =
     ''transport'' @ '' (error code: '' @ show_code code @ '', reason: ''
       @ from_utf8_lossy reason @ '')''"

definition SendError_from_bincode :: "bincode_Error \<Rightarrow> SendError" where
  "SendError_from_bincode error = SendError.Serialization (SerializationError error)"

definition SendError_from_quinn :: "quinn_ConnectionError \<Rightarrow> SendError" where
  "SendError_from_quinn error = SendError.ConnectionLost (ConnectionError_from_quinn error)"

fun SendError_from_write :: "quinn_WriteError \<Rightarrow> SendError" where
  "SendError_from_write (QW_Stopped code) = SendError.StreamLost (StreamError.Stopped code)"
| "SendError_from_write (QW_ConnectionLost error) =
     SendError.ConnectionLost (ConnectionError_from_quinn error)"
| "SendError_from_write QW_UnknownStream = SendError.StreamLost StreamError.Gone"
| "SendError_from_write QW_ZeroRttRejected =
     SendError.StreamLost (StreamError.Unsupported (UnsupportedWrite QW_ZeroRttRejected))"

definition RecvError_from_quinn :: "quinn_ConnectionError \<Rightarrow> RecvError" where
  "RecvError_from_quinn error = RecvError.ConnectionLost (ConnectionError_from_quinn error)"

definition RecvError_from_bincode :: "bincode_Error \<Rightarrow> RecvError" where
  "RecvError_from_bincode error = RecvError.Serialization (SerializationError error)"

fun RecvError_from_read :: "quinn_ReadError \<Rightarrow> RecvError" where
  "RecvError_from_read (QR_Reset code) = RecvError.StreamLost (StreamError.Stopped code)"
| "RecvError_from_read (QR_ConnectionLost error) =
     RecvError.ConnectionLost (ConnectionError_from_quinn error)"
| "RecvError_from_read QR_UnknownStream = RecvError.StreamLost StreamError.Gone"
| "RecvError_from_read error =
     RecvError.StreamLost (StreamError.Unsupported (UnsupportedRead error))"

definition SerializationError_new :: "string \<Rightarrow> SerializationError" where
  "SerializationError_new message = SerializationError (Custom message)"

definition SerializationError_unexpected :: "WireMsg option \<Rightarrow> SerializationError" where
  "SerializationError_unexpected actual =
     (case actual of
        Some msg \<Rightarrow> SerializationError_new
          (''The message received was not the expected one: '' @ display_wire_msg msg)
      | None \<Rightarrow> SerializationError_new ''Unexpected end of stream'')"

fun RecvError_from_read_exact :: "quinn_ReadExactError \<Rightarrow> RecvError" where
  "RecvError_from_read_exact QX_FinishedEarly =
     RecvError.Serialization (SerializationError_new ''Received too few bytes for message'')"
| "RecvError_from_read_exact (QX_ReadError error) = RecvError_from_read error"

definition RpcError_from_connection :: "ConnectionError \<Rightarrow> RpcError" where
  "RpcError_from_connection error = RpcError.Send (SendError.ConnectionLost error)"

definition RpcError_from_quinn :: "quinn_ConnectionError \<Rightarrow> RpcError" where
  "RpcError_from_quinn error = RpcError.Send (SendError_from_quinn error)"

text \<open>\<open>tokio::time::error::Elapsed\<close> carries nothing.\<close>

definition RpcError_from_elapsed :: "unit \<Rightarrow> RpcError" where
  "RpcError_from_elapsed e = RpcError.TimedOut"

definition ConfigError_from_rcgen :: "rcgen_Error \<Rightarrow> ConfigError" where
  "ConfigError_from_rcgen error =
     ConfigError.CertificateGeneration (CertificateGenerationError error)"

definition EndpointError_from_igd :: "IgdError \<Rightarrow> EndpointError" where
  "EndpointError_from_igd error = EndpointError.Upnp (UpnpError error)"

section \<open>Properties\<close>

text \<open>
  The interface the receive loops rely on: an error conversion that loses nothing. Every
  conversion of the crate from a transport error is one.
\<close>

locale lossless_conversion =
  fixes conv :: "'a \<Rightarrow> 'b"
  assumes conv_inj: "conv x = conv y \<Longrightarrow> x = y"
begin

lemma io_map_err_lossless:
  "io_map_err conv m w = io_map_err conv m' w \<Longrightarrow> m w = m' w"
  by (auto simp: io_map_err_def split: prod.splits sum.splits dest: conv_inj)

end

interpretation connect_conv: lossless_conversion ConnectionError_from_connect
proof unfold_locales
  fix x y
  show "ConnectionError_from_connect x = ConnectionError_from_connect y \<Longrightarrow> x = y"
    by (cases x; cases y) simp_all
qed

interpretation connection_conv: lossless_conversion ConnectionError_from_quinn
proof unfold_locales
  fix x y
  show "ConnectionError_from_quinn x = ConnectionError_from_quinn y \<Longrightarrow> x = y"
    by (cases x; cases y) simp_all
qed

interpretation write_conv: lossless_conversion SendError_from_write
proof unfold_locales
  fix x y
  show "SendError_from_write x = SendError_from_write y \<Longrightarrow> x = y"
    by (cases x; cases y) (simp_all add: connection_conv.conv_inj)
qed

interpretation read_conv: lossless_conversion RecvError_from_read
proof unfold_locales
  fix x y
  show "RecvError_from_read x = RecvError_from_read y \<Longrightarrow> x = y"
    by (cases x; cases y) (simp_all add: connection_conv.conv_inj)
qed

lemma RecvError_from_read_not_Serialization:
  "RecvError_from_read e \<noteq> RecvError.Serialization s"
  by (cases e) simp_all

interpretation read_exact_conv: lossless_conversion RecvError_from_read_exact
proof unfold_locales
  fix x y
  show "RecvError_from_read_exact x = RecvError_from_read_exact y \<Longrightarrow> x = y"
    by (cases x; cases y)
      (auto dest: read_conv.conv_inj simp: RecvError_from_read_not_Serialization
        RecvError_from_read_not_Serialization [symmetric])
qed

text \<open>Which transport errors end a connection without being reported.\<close>

lemma is_benign_iff:
  "is_benign e \<longleftrightarrow>
     e = ConnectionError.TimedOut \<or> e = ConnectionError.Closed Local
     \<or> (\<exists>reason. e = ConnectionError.Closed (Application 0 reason))"
  by (cases e rule: is_benign.cases) auto

lemma is_benign_from_quinn:
  "is_benign (ConnectionError_from_quinn e) \<longleftrightarrow>
     e = Q_TimedOut \<or> e = Q_LocallyClosed
     \<or> (\<exists>close. e = Q_ApplicationClosed close \<and> app_error_code close = 0)"
  by (cases e) auto

lemma connect_errors_not_benign: "\<not> is_benign (ConnectionError_from_connect e)"
  by (cases e) simp_all

end
