(* ===== verification/Config.thy ===== *)
theory Config
  imports Complex_Main Errors
begin

text \<open>
  \<open>src/config.rs\<close>: the configuration of an endpoint, its defaults, its command-line parsing
  (feature \<open>structopt\<close>) and its validation into an \<open>InternalConfig\<close>. A \<open>Duration\<close> is a
  number of nanoseconds. A 64-bit float is the rational number it denotes. What the TLS
  libraries compute is a record of parameters, \<open>tls\<close>.
\<close>

section \<open>Durations\<close>

type_synonym duration = nat

definition from_secs :: "u64 \<Rightarrow> duration" where
  "from_secs s = unat s * 10 ^ 9"

definition from_millis :: "u64 \<Rightarrow> duration" where
  "from_millis ms = unat ms * 10 ^ 6"

definition as_secs :: "duration \<Rightarrow> nat" where
  "as_secs d = d div 10 ^ 9"

section \<open>Constants\<close>

definition DEFAULT_UPNP_LEASE_DURATION :: duration where
  "DEFAULT_UPNP_LEASE_DURATION = from_secs 120"

definition DEFAULT_INITIAL_RETRY_INTERVAL :: duration where
  "DEFAULT_INITIAL_RETRY_INTERVAL = from_millis 500"

definition DEFAULT_INITIAL_RETRY_INTERVAL_STR :: string where
  "DEFAULT_INITIAL_RETRY_INTERVAL_STR = ''500''"

definition DEFAULT_IDLE_TIMEOUT :: duration where
  "DEFAULT_IDLE_TIMEOUT = from_secs 18"

definition DEFAULT_MAX_RETRY_INTERVAL :: duration where
  "DEFAULT_MAX_RETRY_INTERVAL = from_secs 15"

definition DEFAULT_MAX_RETRY_INTERVAL_STR :: string where
  "DEFAULT_MAX_RETRY_INTERVAL_STR = ''15''"

definition DEFAULT_RETRY_INTERVAL_MULTIPLIER :: rat where
  "DEFAULT_RETRY_INTERVAL_MULTIPLIER = 3 / 2"

text \<open>The double nearest to 0.3.\<close>

definition DEFAULT_RETRY_DELAY_RAND_FACTOR :: rat where
  "DEFAULT_RETRY_DELAY_RAND_FACTOR = 5404319552844595 / 18014398509481984"

definition DEFAULT_RETRYING_MAX_ELAPSED_TIME :: duration where
  "DEFAULT_RETRYING_MAX_ELAPSED_TIME = from_secs 30"

definition DEFAULT_RETRYING_MAX_ELAPSED_TIME_STR :: string where
  "DEFAULT_RETRYING_MAX_ELAPSED_TIME_STR = ''30''"

definition SERVER_NAME :: string where
  "SERVER_NAME = ''maidsafe.net''"

section \<open>Data\<close>

record RetryConfig =
  initial_retry_interval :: duration
  max_retry_interval :: duration
  retry_delay_multiplier :: rat
  retry_delay_rand_factor :: rat
  retrying_max_elapsed_time :: duration

record Config =
  cfg_forward_port :: bool
  cfg_external_port :: "u16 option"
  cfg_external_ip :: "IpAddr option"
  cfg_idle_timeout :: "duration option"
  cfg_keep_alive_interval :: "duration option"
  cfg_upnp_lease_duration :: "duration option"
  cfg_retry_config :: RetryConfig

definition RetryConfig_default :: RetryConfig where
  "RetryConfig_default =
     \<lparr>initial_retry_interval = DEFAULT_INITIAL_RETRY_INTERVAL,
      max_retry_interval = DEFAULT_MAX_RETRY_INTERVAL,
      retry_delay_multiplier = DEFAULT_RETRY_INTERVAL_MULTIPLIER,
      retry_delay_rand_factor = DEFAULT_RETRY_DELAY_RAND_FACTOR,
      retrying_max_elapsed_time = DEFAULT_RETRYING_MAX_ELAPSED_TIME\<rparr>"

text \<open>The derived \<open>Default\<close>: \<open>false\<close>, \<open>None\<close> and the default of \<open>RetryConfig\<close>.\<close>

definition Config_default :: Config where
  "Config_default =
     \<lparr>cfg_forward_port = False, cfg_external_port = None, cfg_external_ip = None,
      cfg_idle_timeout = None, cfg_keep_alive_interval = None, cfg_upnp_lease_duration = None,
      cfg_retry_config = RetryConfig_default\<rparr>"

section \<open>Command-line durations\<close>

datatype ParseIntError = Empty | InvalidDigit | PosOverflow

text \<open>
  \<open>str::parse::<u64>\<close> of the standard library: an optional plus sign, then at least one
  decimal digit; each digit is checked before the accumulator is multiplied and increased
  with overflow checks.
\<close>

fun parse_digits :: "nat \<Rightarrow> string \<Rightarrow> ParseIntError + u64" where
  "parse_digits acc [] = Inr (of_nat acc)"
| "parse_digits acc (c # cs) =
     (case digit_value c of
        None \<Rightarrow> Inl InvalidDigit
      | Some d \<Rightarrow>
          if 10 * acc + d < 2 ^ 64 then parse_digits (10 * acc + d) cs else Inl PosOverflow)"

definition parse_u64 :: "string \<Rightarrow> ParseIntError + u64" where
  "parse_u64 s =
     (if s = [] then Inl Empty
      else if s = ''+'' \<or> s = ''-'' then Inl InvalidDigit
      else if hd s = CHR ''+'' then parse_digits 0 (tl s)
      else parse_digits 0 s)"

definition parse_millis :: "string \<Rightarrow> ParseIntError + duration" where
  "parse_millis millis =
     (case parse_u64 millis of Inl e \<Rightarrow> Inl e | Inr ms \<Rightarrow> Inr (from_millis ms))"

section \<open>Retries\<close>

text \<open>
  The settings handed to \<open>backoff::ExponentialBackoff\<close> (its other fields keep the defaults
  of that crate), and the two ways a retried operation fails.
\<close>

record ExponentialBackoff =
  initial_interval :: duration
  randomization_factor :: rat
  multiplier :: rat
  max_interval :: duration
  max_elapsed_time :: "duration option"

datatype 'e backoff_Error = Permanent 'e | Transient 'e

definition RetryConfig_backoff :: "RetryConfig \<Rightarrow> ExponentialBackoff" where
  "RetryConfig_backoff self =
     \<lparr>initial_interval = initial_retry_interval self,
      randomization_factor = retry_delay_rand_factor self,
      multiplier = retry_delay_multiplier self,
      max_interval = max_retry_interval self,
      max_elapsed_time = Some (retrying_max_elapsed_time self)\<rparr>"

text \<open>
  \<open>RetryConfig::retry\<close> over the library's \<open>backoff::future::retry\<close>, the first argument.
\<close>

definition RetryConfig_retry ::
  "(ExponentialBackoff \<Rightarrow> ('w, 'e backoff_Error, 'a) io \<Rightarrow> ('w, 'e, 'a) io) \<Rightarrow>
   RetryConfig \<Rightarrow> ('w, 'e backoff_Error, 'a) io \<Rightarrow> ('w, 'e, 'a) io" where
  "RetryConfig_retry backoff_retry self op = backoff_retry (RetryConfig_backoff self) op"

section \<open>Validation\<close>

text \<open>Values of these libraries that the crate only passes on are numbers, as handles are.\<close>

type_synonym quinn_IdleTimeout = nat
type_synonym rcgen_Certificate = nat
type_synonym rustls_RootCertStore = nat
type_synonym webpki_Error = nat

datatype ServerCertVerifier = WebPkiVerifier | SkipCertificateVerification

record quinn_TransportConfig =
  tc_max_idle_timeout :: "quinn_IdleTimeout option"
  tc_keep_alive_interval :: "duration option"

record rustls_ClientConfig =
  rc_roots :: rustls_RootCertStore
  rc_verifier :: ServerCertVerifier

record quinn_ServerConfig =
  sc_certs :: "bytes list"
  sc_key :: bytes
  sc_transport :: quinn_TransportConfig

record quinn_ClientConfig =
  cc_crypto :: rustls_ClientConfig
  cc_transport :: quinn_TransportConfig

record InternalConfig =
  ic_client :: quinn_ClientConfig
  ic_server :: quinn_ServerConfig
  ic_forward_port :: bool
  ic_external_port :: "u16 option"
  ic_external_ip :: "IpAddr option"
  ic_upnp_lease_duration :: duration
  ic_retry_config :: RetryConfig

text \<open>The calls into \<open>quinn\<close>, \<open>rcgen\<close> and \<open>rustls\<close> that validation makes.\<close>

record tls =
  idle_timeout_try_from :: "duration \<Rightarrow> quinn_VarIntBoundsExceeded + quinn_IdleTimeout"
  transport_default :: quinn_TransportConfig
  generate_simple_self_signed :: "string list \<Rightarrow> rcgen_Error + rcgen_Certificate"
  serialize_private_key_der :: "rcgen_Certificate \<Rightarrow> bytes"
  serialize_der :: "rcgen_Certificate \<Rightarrow> rcgen_Error + bytes"
  roots_empty :: rustls_RootCertStore
  roots_add :: "rustls_RootCertStore \<Rightarrow> bytes \<Rightarrow> webpki_Error + rustls_RootCertStore"
  server_with_single_cert :: "bytes list \<Rightarrow> bytes \<Rightarrow> rustls_Error + quinn_ServerConfig"
  client_new :: "rustls_ClientConfig \<Rightarrow> quinn_ClientConfig"

definition new_transport_config ::
  "tls \<Rightarrow> quinn_IdleTimeout \<Rightarrow> duration option \<Rightarrow> quinn_TransportConfig" where
  "new_transport_config T idle_timeout keep_alive_interval =
     (transport_default T)\<lparr>tc_max_idle_timeout := Some idle_timeout,
                           tc_keep_alive_interval := keep_alive_interval\<rparr>"

text \<open>\<open>None\<close> is the panic of \<open>serialize_der().unwrap()\<close>.\<close>

definition generate_cert :: "tls \<Rightarrow> (ConfigError + bytes \<times> bytes) option" where
  "generate_cert T =
     (case generate_simple_self_signed T [SERVER_NAME] of
        Inl e \<Rightarrow> Some (Inl (ConfigError_from_rcgen e))
      | Inr cert \<Rightarrow>
          (case serialize_der T cert of
             Inl e \<Rightarrow> None
           | Inr der \<Rightarrow> Some (Inr (der, serialize_private_key_der T cert))))"

definition try_from_config :: "tls \<Rightarrow> Config \<Rightarrow> (ConfigError + InternalConfig) option" where
  "try_from_config T config =
     (case idle_timeout_try_from T DEFAULT_IDLE_TIMEOUT of
        Inl e \<Rightarrow> Some (Inl (ConfigError.InvalidIdleTimeout e))
      | Inr default_idle_timeout \<Rightarrow>
     (case (case map_option (idle_timeout_try_from T) (cfg_idle_timeout config) of
              None \<Rightarrow> Inr default_idle_timeout | Some r \<Rightarrow> r) of
        Inl e \<Rightarrow> Some (Inl (ConfigError.InvalidIdleTimeout e))
      | Inr idle_timeout \<Rightarrow>
     (let upnp_lease_duration =
            (case cfg_upnp_lease_duration config of None \<Rightarrow> DEFAULT_UPNP_LEASE_DURATION | Some d \<Rightarrow> d);
          transport = new_transport_config T idle_timeout (cfg_keep_alive_interval config)
      in case generate_cert T of
        None \<Rightarrow> None
      | Some (Inl e) \<Rightarrow> Some (Inl e)
      | Some (Inr (cert, key)) \<Rightarrow>
     (case roots_add T (roots_empty T) cert of
        Inl e \<Rightarrow> Some (Inl ConfigError.Webpki)
      | Inr roots \<Rightarrow>
     (let client_crypto = \<lparr>rc_roots = roots, rc_verifier = WebPkiVerifier\<rparr>
            \<lparr>rc_verifier := SkipCertificateVerification\<rparr>
      in case server_with_single_cert T [cert] key of
        Inl e \<Rightarrow> Some (Inl (ConfigError.Rustls e))
      | Inr server \<Rightarrow>
          Some (Inr
            \<lparr>ic_client = (client_new T client_crypto)\<lparr>cc_transport := transport\<rparr>,
             ic_server = server\<lparr>sc_transport := transport\<rparr>,
             ic_forward_port = cfg_forward_port config,
             ic_external_port = cfg_external_port config,
             ic_external_ip = cfg_external_ip config,
             ic_upnp_lease_duration = upnp_lease_duration,
             ic_retry_config = cfg_retry_config config\<rparr>))))))"

text \<open>The verifier the client is given: it accepts every certificate, for every name.\<close>

datatype ServerCertVerified = ServerCertVerified

definition verify_server_cert ::
  "bytes \<Rightarrow> bytes list \<Rightarrow> string \<Rightarrow> bytes list \<Rightarrow> bytes \<Rightarrow> nat \<Rightarrow>
   rustls_Error + ServerCertVerified" where
  "verify_server_cert end_entity intermediates server_name scts ocsp_response now =
     Inr ServerCertVerified"

section \<open>Parsing\<close>

lemma parse_digits_snoc:
  "acc < 2 ^ 64 \<Longrightarrow> parse_digits acc (cs @ [c]) =
     (case parse_digits acc cs of Inl e \<Rightarrow> Inl e | Inr v \<Rightarrow> parse_digits (unat v) [c])"
  by (induction cs arbitrary: acc)
    (auto simp: unat_of_nat take_bit_eq_mod split: option.splits)

lemma parse_digits_show_nat:
  "parse_digits 0 (show_nat n) = (if n < 2 ^ 64 then Inr (of_nat n) else Inl PosOverflow)"
proof (induction n rule: show_nat.induct)
  case (1 n)
  show ?case
  proof (cases "n < 10")
    case True
    then show ?thesis by (simp add: show_nat.simps [of n])
  next
    case False
    then have IH: "parse_digits 0 (show_nat (n div 10)) =
        (if n div 10 < 2 ^ 64 then Inr (of_nat (n div 10)) else Inl PosOverflow)"
      by (rule 1)
    show ?thesis
    proof (cases "n div 10 < 2 ^ 64")
      case True
      then have v: "unat (of_nat (n div 10) :: u64) = n div 10"
        by (simp add: unat_of_nat take_bit_eq_mod)
      have "10 * (n div 10) + n mod 10 = n" by simp
      with False True show ?thesis
        by (simp only: show_nat.simps [of n] parse_digits_snoc IH if_True if_False v sum.case
            parse_digits.simps digit_value_dec_digit option.case)
    next
      case f: False
      then have "\<not> n < 2 ^ 64" by simp
      with False f show ?thesis
        by (simp add: show_nat.simps [of n] parse_digits_snoc IH)
    qed
  qed
qed

lemma show_nat_no_sign: "hd (show_nat n) \<noteq> CHR ''+''" "show_nat n \<noteq> ''+''" "show_nat n \<noteq> ''-''"
proof -
  have "c \<noteq> CHR ''+'' \<and> c \<noteq> CHR ''-''" if "c \<in> set (show_nat n)" for c
  proof -
    from show_nat_digits [OF that] have "digit_value c \<noteq> None" by auto
    then show ?thesis by (auto simp: digit_value_def)
  qed
  then show "hd (show_nat n) \<noteq> CHR ''+''" "show_nat n \<noteq> ''+''" "show_nat n \<noteq> ''-''"
    by (metis hd_in_set show_nat_not_Nil list.set_intros(1))+
qed

lemma parse_u64_show_nat:
  "parse_u64 (show_nat n) = (if n < 2 ^ 64 then Inr (of_nat n) else Inl PosOverflow)"
  by (simp add: parse_u64_def show_nat_no_sign parse_digits_show_nat)

section \<open>Validation\<close>

lemma try_from_config_Inr:
  assumes "try_from_config T config = Some (Inr ic)"
  obtains idle where
    "idle_timeout_try_from T (case cfg_idle_timeout config of None \<Rightarrow> DEFAULT_IDLE_TIMEOUT | Some d \<Rightarrow> d)
       = Inr idle"
    "tc_max_idle_timeout (cc_transport (ic_client ic)) = Some idle"
    "tc_keep_alive_interval (cc_transport (ic_client ic)) = cfg_keep_alive_interval config"
    "cc_transport (ic_client ic) = sc_transport (ic_server ic)"
  using assms
  by (auto simp: try_from_config_def new_transport_config_def Let_def
      split: sum.splits option.splits prod.splits)

end
