(* ===== verification/Runtime.thy ===== *)
theory Runtime
  imports Config
begin

text \<open>
  What the crate calls but does not contain: \<open>bincode\<close>, the QUIC library \<open>quinn\<close> and the
  \<open>tokio\<close> runtime. Each function of theirs that the sources call is a field of the record
  \<open>env\<close>, over an unknown state \<open>'w\<close>; every definition of the development that reaches one
  takes the record as its first argument. Handles (streams, connections, endpoints) are
  numbers.

  What the crate relies on is stated as locales over such a record: the laws of a QUIC
  receive stream, of a send stream, and of the \<open>bincode\<close> format. \<open>avail\<close>, \<open>fate\<close> and
  \<open>sent\<close> are ghost functions that give the bytes a stream still has to deliver, how it ends,
  and the bytes written to it so far.
\<close>

section \<open>The environment\<close>

type_synonym recv_id = nat
type_synonym send_id = nat
type_synonym conn_id = nat
type_synonym connecting_id = nat
type_synonym endpoint_id = nat
type_synonym chan_id = nat
type_synonym alive_id = nat
type_synonym term_id = nat
type_synonym timer_id = nat
type_synonym gateway_id = nat

text \<open>
  An item of a connection's message channel: a message with the stream to reply on, where it
  came over a bidirectional stream, or an error of a stream.
\<close>

type_synonym msg_item = "RecvError + bytes \<times> send_id option"

text \<open>
  The two halves of a connection as the crate hands them out: the sending half with the
  retry settings of its endpoint, and the receiving half with the channel its listeners feed.
  Both hold the sender of the connection's \<open>alive\<close> channel.
\<close>

record Connection =
  conn_inner :: conn_id
  default_retry_config :: "RetryConfig option"
  conn_alive_tx :: alive_id

record ConnectionIncoming =
  message_rx :: chan_id
  incoming_alive_tx :: alive_id

text \<open>The background tasks the crate spawns, with the arguments their bodies capture.\<close>

datatype task =
    UniListener SocketAddr conn_id alive_id chan_id
  | BiListener endpoint_id SocketAddr conn_id alive_id chan_id
  | AcceptLoop endpoint_id chan_id RetryConfig
  | RenewLease u16 SocketAddr duration u32 term_id

text \<open>
  How \<open>future::select(left, alive)\<close> resolves: the left future is ready when it is first
  polled, it is ready first after some wait, or \<open>alive\<close> resolves before it, with a new value
  or because every sender of the channel is gone.
\<close>

datatype select_outcome = LeftReady | LeftFirst | RightOk | RightErr

datatype broadcast_TryRecvError = BC_Empty | BC_Closed | BC_Lagged u64

datatype mpsc_TryRecvError = MPSC_Empty | MPSC_Disconnected

datatype PortMappingProtocol = TCP | UDP

record 'w env =
  bincode_serialize :: "WireMsg \<Rightarrow> bincode_Error + bytes"
  bincode_deserialize :: "bytes \<Rightarrow> bincode_Error + WireMsg"
  q_read :: "recv_id \<Rightarrow> nat \<Rightarrow> ('w, quinn_ReadError, bytes option) io"
  q_read_exact :: "recv_id \<Rightarrow> nat \<Rightarrow> ('w, quinn_ReadExactError, bytes) io"
  q_write_all :: "send_id \<Rightarrow> bytes \<Rightarrow> ('w, quinn_WriteError, unit) io"
  q_finish :: "send_id \<Rightarrow> ('w, quinn_WriteError, unit) io"
  q_set_priority :: "send_id \<Rightarrow> i32 \<Rightarrow> ('w, unit, unit) io"
  q_stable_id :: "conn_id \<Rightarrow> 'w \<Rightarrow> nat"
  q_remote_address :: "conn_id \<Rightarrow> 'w \<Rightarrow> SocketAddr"
  q_open_uni :: "conn_id \<Rightarrow> ('w, quinn_ConnectionError, send_id) io"
  q_open_bi :: "conn_id \<Rightarrow> ('w, quinn_ConnectionError, send_id \<times> recv_id) io"
  q_close :: "conn_id \<Rightarrow> u64 \<Rightarrow> bytes \<Rightarrow> 'w \<Rightarrow> 'w"
  q_next_uni :: "conn_id \<Rightarrow> 'w \<Rightarrow> (quinn_ConnectionError + recv_id) option \<times> 'w"
  q_next_bi :: "conn_id \<Rightarrow> 'w \<Rightarrow> (quinn_ConnectionError + send_id \<times> recv_id) option \<times> 'w"
  q_connect :: "endpoint_id \<Rightarrow> SocketAddr \<Rightarrow> string \<Rightarrow> ('w, quinn_ConnectError, connecting_id) io"
  q_connecting :: "connecting_id \<Rightarrow> ('w, quinn_ConnectionError, conn_id) io"
  q_server :: "quinn_ServerConfig \<Rightarrow> SocketAddr \<Rightarrow> ('w, io_Error, endpoint_id) io"
  q_client :: "SocketAddr \<Rightarrow> ('w, io_Error, endpoint_id) io"
  q_local_addr :: "endpoint_id \<Rightarrow> ('w, io_Error, SocketAddr) io"
  q_set_default_client_config :: "endpoint_id \<Rightarrow> quinn_ClientConfig \<Rightarrow> 'w \<Rightarrow> 'w"
  q_endpoint_close :: "endpoint_id \<Rightarrow> u64 \<Rightarrow> bytes \<Rightarrow> 'w \<Rightarrow> 'w"
  q_next_incoming :: "endpoint_id \<Rightarrow> 'w \<Rightarrow> connecting_id option \<times> 'w"
  t_spawn :: "task \<Rightarrow> 'w \<Rightarrow> 'w"
  t_watch_channel :: "'w \<Rightarrow> alive_id \<times> 'w"
  t_select :: "alive_id \<Rightarrow> 'w \<Rightarrow> select_outcome"
  t_msg_channel :: "nat \<Rightarrow> 'w \<Rightarrow> chan_id \<times> 'w"
  t_msg_send :: "chan_id \<Rightarrow> msg_item \<Rightarrow> ('w, unit, unit) io"
  t_msg_recv :: "chan_id \<Rightarrow> 'w \<Rightarrow> msg_item option \<times> 'w"
  t_conn_channel :: "nat \<Rightarrow> 'w \<Rightarrow> chan_id \<times> 'w"
  t_conn_send :: "chan_id \<Rightarrow> Connection \<times> ConnectionIncoming \<Rightarrow> ('w, unit, unit) io"
  t_conn_recv :: "chan_id \<Rightarrow> 'w \<Rightarrow> (Connection \<times> ConnectionIncoming) option \<times> 'w"
  t_conn_try_recv :: "chan_id \<Rightarrow> ('w, mpsc_TryRecvError, Connection \<times> ConnectionIncoming) io"
  t_broadcast_channel :: "nat \<Rightarrow> 'w \<Rightarrow> term_id \<times> 'w"
  t_broadcast_send :: "term_id \<Rightarrow> 'w \<Rightarrow> 'w"
  t_broadcast_try_recv :: "term_id \<Rightarrow> ('w, broadcast_TryRecvError, unit) io"
  t_expired :: "duration \<Rightarrow> 'w \<Rightarrow> bool"
  t_elapse :: "duration \<Rightarrow> ('w \<Rightarrow> 'w) \<Rightarrow> 'w \<Rightarrow> 'w"
  t_interval_at :: "duration \<Rightarrow> duration \<Rightarrow> 'w \<Rightarrow> timer_id option \<times> 'w"
  t_tick :: "timer_id \<Rightarrow> 'w \<Rightarrow> 'w"
  b_retry_send ::
    "ExponentialBackoff \<Rightarrow> ('w, SendError backoff_Error, unit) io \<Rightarrow> ('w, SendError, unit) io"
  b_retry_connect ::
    "ExponentialBackoff \<Rightarrow> ('w, ConnectionError backoff_Error, Connection \<times> ConnectionIncoming) io
     \<Rightarrow> ('w, ConnectionError, Connection \<times> ConnectionIncoming) io"
  f_select_ok ::
    "('w, ConnectionError, Connection \<times> ConnectionIncoming) io list
     \<Rightarrow> ('w, ConnectionError, Connection \<times> ConnectionIncoming) io"
  i_search_gateway :: "('w, igd_SearchError, gateway_id) io"
  i_add_port ::
    "gateway_id \<Rightarrow> PortMappingProtocol \<Rightarrow> u16 \<Rightarrow> Ipv4Addr \<times> u16 \<Rightarrow> u32 \<Rightarrow> string
     \<Rightarrow> ('w, igd_AddPortError, unit) io"

text \<open>
  \<open>tokio::time::timeout\<close>: either the deadline passes first (\<open>t_expired\<close>), and the state is
  what the operation left behind when it was dropped (\<open>t_elapse\<close>, which is given what the whole
  operation would have done), or the operation runs to its end.
\<close>

definition with_timeout ::
  "'w env \<Rightarrow> duration \<Rightarrow> ('w, 'e, 'a) io \<Rightarrow> ('w, unit, 'e + 'a) io" where
  "with_timeout E d fut w =
     (if t_expired E d w then (Inl (), t_elapse E d (\<lambda>v. snd (fut v)) w)
      else case fut w of (r, w') \<Rightarrow> (Inr r, w'))"

section \<open>Receive streams\<close>

text \<open>
  What a receive stream reports once its bytes are read: that the peer finished it, or an error
  (a reset, a lost connection). What a read after an error gives is not fixed: another error, the
  same error again, or the end of the stream. An end is therefore a sequence of errors, of any
  length, before the stream is reported as finished.
\<close>

datatype stream_end = Finished | Broken quinn_ReadError stream_end

primrec after_end :: "stream_end \<Rightarrow> stream_end" where
  "after_end Finished = Finished"
| "after_end (Broken e fin) = fin"

primrec errors_left :: "stream_end \<Rightarrow> nat" where
  "errors_left Finished = 0"
| "errors_left (Broken e fin) = Suc (errors_left fin)"

fun is_lost :: "quinn_ReadError \<Rightarrow> bool" where
  "is_lost (QR_ConnectionLost e) = True"
| "is_lost _ = False"

fun ends_lost :: "stream_end \<Rightarrow> bool" where
  "ends_lost Finished = False"
| "ends_lost (Broken e fin) = is_lost e"

text \<open>
  \<open>read\<close> gives at least one and at most \<open>n\<close> of the bytes still to come, in order, whatever
  chunks they arrive in; \<open>read_exact\<close> gives exactly \<open>n\<close>. Bytes that arrived are delivered
  before the end of the stream is reported, and the errors of its end in their order. Nothing is
  said of a stream after the loss of its connection.
\<close>

locale recv_stream_laws =
  fixes E :: "'w env"
    and avail :: "'w \<Rightarrow> recv_id \<Rightarrow> bytes"
    and fate :: "'w \<Rightarrow> recv_id \<Rightarrow> stream_end"
  assumes read_some:
      "avail w r \<noteq> [] \<Longrightarrow> 0 < n \<Longrightarrow>
       \<exists>k w'. 0 < k \<and> k \<le> n \<and> k \<le> length (avail w r)
         \<and> q_read E r n w = (Inr (Some (take k (avail w r))), w')
         \<and> avail w' r = drop k (avail w r) \<and> fate w' r = fate w r"
    and read_finished:
      "avail w r = [] \<Longrightarrow> fate w r = Finished \<Longrightarrow> 0 < n \<Longrightarrow>
       \<exists>w'. q_read E r n w = (Inr None, w') \<and> avail w' r = [] \<and> fate w' r = Finished"
    and read_broken:
      "avail w r = [] \<Longrightarrow> fate w r = Broken e fin \<Longrightarrow> 0 < n \<Longrightarrow>
       \<exists>w'. q_read E r n w = (Inl e, w') \<and> avail w' r = []
         \<and> (\<not> is_lost e \<longrightarrow> fate w' r = fin)"
    and read_exact_enough:
      "n \<le> length (avail w r) \<Longrightarrow>
       \<exists>w'. q_read_exact E r n w = (Inr (take n (avail w r)), w')
         \<and> avail w' r = drop n (avail w r) \<and> fate w' r = fate w r"
    and read_exact_finished:
      "length (avail w r) < n \<Longrightarrow> fate w r = Finished \<Longrightarrow>
       \<exists>w'. q_read_exact E r n w = (Inl QX_FinishedEarly, w')
         \<and> avail w' r = [] \<and> fate w' r = Finished"
    and read_exact_broken:
      "length (avail w r) < n \<Longrightarrow> fate w r = Broken e fin \<Longrightarrow>
       \<exists>w'. q_read_exact E r n w = (Inl (QX_ReadError e), w') \<and> avail w' r = []
         \<and> (\<not> is_lost e \<longrightarrow> fate w' r = fin)"
    and read_other:
      "q_read E r n w = (res, w') \<Longrightarrow> r' \<noteq> r \<Longrightarrow>
       avail w' r' = avail w r' \<and> fate w' r' = fate w r'"
    and read_exact_other:
      "q_read_exact E r n w = (res', w') \<Longrightarrow> r' \<noteq> r \<Longrightarrow>
       avail w' r' = avail w r' \<and> fate w' r' = fate w r'"

section \<open>Send streams\<close>

locale send_stream_laws =
  fixes E :: "'w env"
    and sent :: "'w \<Rightarrow> send_id \<Rightarrow> bytes"
  assumes write_ok:
      "q_write_all E s bs w = (Inr (), w') \<Longrightarrow> sent w' s = sent w s @ bs"
    and write_err:
      "q_write_all E s bs w = (Inl e, w') \<Longrightarrow>
       \<exists>k \<le> length bs. sent w' s = sent w s @ take k bs"
    and write_other:
      "q_write_all E s bs w = (res, w') \<Longrightarrow> s' \<noteq> s \<Longrightarrow> sent w' s' = sent w s'"

section \<open>Serialisation\<close>

text \<open>
  The serialised form of an IPv6 socket address carries the address and the port only, so an
  address survives it when its flow label and its scope id are zero.
\<close>

fun canonical_addr :: "SocketAddr \<Rightarrow> bool" where
  "canonical_addr (V4 ip port) = True"
| "canonical_addr (V6 ip port flow scope) = (flow = 0 \<and> scope = 0)"

fun canonical_msg :: "WireMsg \<Rightarrow> bool" where
  "canonical_msg (EndpointEchoResp addr) = canonical_addr addr"
| "canonical_msg (EndpointVerificationReq addr) = canonical_addr addr"
| "canonical_msg _ = True"

locale bincode_laws =
  fixes E :: "'w env"
  assumes deserialize_serialize:
      "bincode_serialize E m = Inr bs \<Longrightarrow> canonical_msg m \<Longrightarrow> bincode_deserialize E bs = Inr m"
    and serialize_nonempty: "bincode_serialize E m = Inr bs \<Longrightarrow> bs \<noteq> []"

section \<open>The transport and the channels together\<close>

text \<open>
  The ghost functions of a whole environment. Beside the streams: the items that a message
  channel has accepted so far, in order (\<open>g_log\<close>), how many of them its receiver has taken
  (\<open>g_taken\<close>) and whether that receiver is alive (\<open>g_rx_open\<close>); the streams the peer opens on
  a connection, in order, until it ends (\<open>g_uni\<close>, \<open>g_bi\<close>); and the handles that exist.
\<close>

record 'w ghost =
  g_avail :: "'w \<Rightarrow> recv_id \<Rightarrow> bytes"
  g_fate :: "'w \<Rightarrow> recv_id \<Rightarrow> stream_end"
  g_sent :: "'w \<Rightarrow> send_id \<Rightarrow> bytes"
  g_log :: "'w \<Rightarrow> chan_id \<Rightarrow> msg_item list"
  g_taken :: "'w \<Rightarrow> chan_id \<Rightarrow> nat"
  g_rx_open :: "'w \<Rightarrow> chan_id \<Rightarrow> bool"
  g_uni :: "'w \<Rightarrow> conn_id \<Rightarrow> (quinn_ConnectionError + recv_id) list"
  g_bi :: "'w \<Rightarrow> conn_id \<Rightarrow> (quinn_ConnectionError + send_id \<times> recv_id) list"
  g_live_rx :: "'w \<Rightarrow> recv_id set"
  g_live_tx :: "'w \<Rightarrow> send_id set"
  g_live_ch :: "'w \<Rightarrow> chan_id set"
  g_live_conn :: "'w \<Rightarrow> conn_id set"

text \<open>
  From \<open>w\<close> to \<open>w'\<close> nothing changes of what exists but the receive streams \<open>R\<close>, the send
  streams \<open>S\<close> and the channels \<open>C\<close>; handles may be added. \<open>same_streams\<close> leaves out the
  streams still to be accepted.
\<close>

definition same_streams ::
  "'w ghost \<Rightarrow> recv_id set \<Rightarrow> send_id set \<Rightarrow> chan_id set \<Rightarrow> 'w \<Rightarrow> 'w \<Rightarrow> bool" where
  "same_streams G R S C w w' \<longleftrightarrow>
     (\<forall>r \<in> g_live_rx G w - R. g_avail G w' r = g_avail G w r \<and> g_fate G w' r = g_fate G w r)
     \<and> (\<forall>s \<in> g_live_tx G w - S. g_sent G w' s = g_sent G w s)
     \<and> (\<forall>c \<in> g_live_ch G w - C. g_log G w' c = g_log G w c \<and> g_taken G w' c = g_taken G w c)
     \<and> (\<forall>c \<in> g_live_ch G w. g_rx_open G w' c = g_rx_open G w c)
     \<and> g_live_rx G w \<subseteq> g_live_rx G w' \<and> g_live_tx G w \<subseteq> g_live_tx G w'
     \<and> g_live_ch G w \<subseteq> g_live_ch G w' \<and> g_live_conn G w \<subseteq> g_live_conn G w'"

definition unchanged ::
  "'w ghost \<Rightarrow> recv_id set \<Rightarrow> send_id set \<Rightarrow> chan_id set \<Rightarrow> 'w \<Rightarrow> 'w \<Rightarrow> bool" where
  "unchanged G R S C w w' \<longleftrightarrow> same_streams G R S C w w'
     \<and> (\<forall>c \<in> g_live_conn G w. g_uni G w' c = g_uni G w c \<and> g_bi G w' c = g_bi G w c)"

lemma same_streams_refl [simp]: "same_streams G R S C w w"
  by (simp add: same_streams_def)

lemma same_streams_trans:
  "same_streams G R S C w1 w2 \<Longrightarrow> same_streams G R S C w2 w3 \<Longrightarrow> same_streams G R S C w1 w3"
  unfolding same_streams_def by (intro conjI ballI) (auto simp: subset_eq)

lemma same_streams_mono:
  "same_streams G R S C w w' \<Longrightarrow> R \<subseteq> R' \<Longrightarrow> S \<subseteq> S' \<Longrightarrow> C \<subseteq> C' \<Longrightarrow> same_streams G R' S' C' w w'"
  by (auto simp: same_streams_def)

lemma same_streamsD:
  assumes "same_streams G R S C w w'"
  shows "r \<in> g_live_rx G w \<Longrightarrow> r \<notin> R \<Longrightarrow> g_avail G w' r = g_avail G w r"
    and "r \<in> g_live_rx G w \<Longrightarrow> r \<notin> R \<Longrightarrow> g_fate G w' r = g_fate G w r"
    and "s \<in> g_live_tx G w \<Longrightarrow> s \<notin> S \<Longrightarrow> g_sent G w' s = g_sent G w s"
    and "c \<in> g_live_ch G w \<Longrightarrow> c \<notin> C \<Longrightarrow> g_log G w' c = g_log G w c"
    and "c \<in> g_live_ch G w \<Longrightarrow> c \<notin> C \<Longrightarrow> g_taken G w' c = g_taken G w c"
    and "c \<in> g_live_ch G w \<Longrightarrow> g_rx_open G w' c = g_rx_open G w c"
    and "r \<in> g_live_rx G w \<Longrightarrow> r \<in> g_live_rx G w'"
    and "s \<in> g_live_tx G w \<Longrightarrow> s \<in> g_live_tx G w'"
    and "c \<in> g_live_ch G w \<Longrightarrow> c \<in> g_live_ch G w'"
    and "c \<in> g_live_conn G w \<Longrightarrow> c \<in> g_live_conn G w'"
  using assms by (auto simp: same_streams_def)

lemma unchanged_refl [simp]: "unchanged G R S C w w"
  by (simp add: unchanged_def)

lemma unchanged_trans:
  "unchanged G R S C w1 w2 \<Longrightarrow> unchanged G R S C w2 w3 \<Longrightarrow> unchanged G R S C w1 w3"
  by (auto simp: unchanged_def same_streamsD(10) intro: same_streams_trans)

lemma unchanged_mono:
  "unchanged G R S C w w' \<Longrightarrow> R \<subseteq> R' \<Longrightarrow> S \<subseteq> S' \<Longrightarrow> C \<subseteq> C' \<Longrightarrow> unchanged G R' S' C' w w'"
  by (auto simp: unchanged_def intro: same_streams_mono)

lemma unchanged_same_streams: "unchanged G R S C w w' \<Longrightarrow> same_streams G R S C w w'"
  by (simp add: unchanged_def)

lemmas unchangedD = same_streamsD [OF unchanged_same_streams]

lemma unchanged_incoming:
  assumes "unchanged G R S C w w'" "c \<in> g_live_conn G w"
  shows "g_uni G w' c = g_uni G w c" and "g_bi G w' c = g_bi G w c"
  using assms by (auto simp: unchanged_def)

text \<open>What happens to streams that were not there before does not count.\<close>

lemma unchanged_new_streams:
  assumes "unchanged G R S C w w1" and "unchanged G (insert r R) (insert s S) C w1 w2"
    and "r \<notin> g_live_rx G w" and "s \<notin> g_live_tx G w"
  shows "unchanged G R S C w w2"
proof -
  have "g_sent G w2 t = g_sent G w t" if "t \<in> g_live_tx G w" "t \<notin> S" for t
    using that assms(4) unchangedD(3,8) [OF assms(1), of t] unchangedD(3) [OF assms(2), of t]
    by auto
  moreover have "g_avail G w2 q = g_avail G w q \<and> g_fate G w2 q = g_fate G w q"
    if "q \<in> g_live_rx G w" "q \<notin> R" for q
    using that assms(3) unchangedD(1,2,7) [OF assms(1), of q] unchangedD(1,2) [OF assms(2), of q]
    by auto
  ultimately show ?thesis using assms(1,2) by (auto simp: unchanged_def same_streams_def subset_eq)
qed

lemma unchanged_new_stream:
  assumes "unchanged G R S C w w1" and "unchanged G R (insert s S) C w1 w2" and "s \<notin> g_live_tx G w"
  shows "unchanged G R S C w w2"
proof -
  have "g_sent G w2 t = g_sent G w t" if "t \<in> g_live_tx G w" "t \<notin> S" for t
    using that assms(3) unchangedD(3,8) [OF assms(1), of t] unchangedD(3) [OF assms(2), of t]
    by auto
  with assms(1,2) show ?thesis by (auto simp: unchanged_def same_streams_def subset_eq)
qed

text \<open>
  \<open>keeps G R S C m\<close>: running \<open>m\<close>, whatever its result, changes only what is named. It is
  closed under the combinators, so it follows for every composed operation.
\<close>

definition keeps ::
  "'w ghost \<Rightarrow> recv_id set \<Rightarrow> send_id set \<Rightarrow> chan_id set \<Rightarrow> ('w \<Rightarrow> 'r \<times> 'w) \<Rightarrow> bool" where
  "keeps G R S C m \<longleftrightarrow> (\<forall>w. unchanged G R S C w (snd (m w)))"

named_theorems keeps_intros \<open>frame rules of composed operations\<close>

lemma keepsD: "keeps G R S C m \<Longrightarrow> m w = (res, w') \<Longrightarrow> unchanged G R S C w w'"
  by (metis keeps_def snd_conv)

lemma keepsI: "(\<And>w res w'. m w = (res, w') \<Longrightarrow> unchanged G R S C w w') \<Longrightarrow> keeps G R S C m"
  by (simp add: keeps_def) (metis prod.collapse)

lemma keeps_ret [keeps_intros]: "keeps G R S C (io_ret x)"
  by (simp add: keeps_def)

lemma keeps_fail [keeps_intros]: "keeps G R S C (io_fail x)"
  by (simp add: keeps_def)

lemma keeps_of [keeps_intros]: "keeps G R S C (io_of x)"
  by (simp add: keeps_def)

lemma keeps_bind [keeps_intros]:
  "keeps G R S C m \<Longrightarrow> (\<And>x. keeps G R S C (f x)) \<Longrightarrow> keeps G R S C (io_bind m f)"
  by (auto simp: keeps_def io_bind_def split: prod.splits sum.splits)
    (metis snd_conv unchanged_trans)+

lemma keeps_match [keeps_intros]:
  "keeps G R S C m \<Longrightarrow> (\<And>x. keeps G R S C (f x)) \<Longrightarrow> keeps G R S C (io_match m f)"
  by (auto simp: keeps_def io_match_def split: prod.splits) (metis snd_conv unchanged_trans)

lemma keeps_map_err [keeps_intros]: "keeps G R S C m \<Longrightarrow> keeps G R S C (io_map_err g m)"
  by (auto simp: keeps_def io_map_err_def split: prod.splits sum.splits) (metis snd_conv)+

lemma keeps_mono:
  "keeps G R S C m \<Longrightarrow> R \<subseteq> R' \<Longrightarrow> S \<subseteq> S' \<Longrightarrow> C \<subseteq> C' \<Longrightarrow> keeps G R' S' C' m"
  by (auto simp: keeps_def intro: unchanged_mono)

text \<open>
  The laws of the transport: the streams obey the laws above, each operation changes only
  its own stream, and a stream that is opened is new and has nothing written to it. The
  streams the peer opens are accepted in their order, those of each kind and of each connection
  on their own. An operation dropped at its deadline may have done a part of what it does, so it
  has changed nothing that the operation leaves alone.
\<close>

locale transport_laws =
  recv_stream_laws E "g_avail G" "g_fate G" + send_stream_laws E "g_sent G"
  for E :: "'w env" and G :: "'w ghost" +
  assumes read_keeps: "keeps G {r} {} {} (q_read E r n)"
    and read_exact_keeps: "keeps G {r} {} {} (q_read_exact E r n)"
    and write_keeps: "keeps G {} {s} {} (q_write_all E s bs)"
    and finish_keeps: "keeps G {} {} {} (q_finish E s)"
    and set_priority_keeps: "keeps G {} {} {} (q_set_priority E s prio)"
    and open_uni_keeps: "keeps G {} {} {} (q_open_uni E c)"
    and open_bi_keeps: "keeps G {} {} {} (q_open_bi E c)"
    and connect_keeps: "keeps G {} {} {} (q_connect E ep addr name)"
    and connecting_keeps: "keeps G {} {} {} (q_connecting E cg)"
    and elapse_unchanged:
      "(\<And>v. unchanged G R S C v (f v)) \<Longrightarrow> unchanged G R S C w (t_elapse E d f w)"
    and open_uni_new:
      "q_open_uni E c w = (Inr s, w') \<Longrightarrow>
       s \<notin> g_live_tx G w \<and> s \<in> g_live_tx G w' \<and> g_sent G w' s = []"
    and open_bi_new:
      "q_open_bi E c w = (Inr (s, r), w') \<Longrightarrow>
       s \<notin> g_live_tx G w \<and> s \<in> g_live_tx G w' \<and> g_sent G w' s = []
       \<and> r \<notin> g_live_rx G w \<and> r \<in> g_live_rx G w'"
    and next_uni_end:
      "g_uni G w c = [] \<Longrightarrow> \<exists>w'. q_next_uni E c w = (None, w') \<and> unchanged G {} {} {} w w'"
    and next_uni:
      "g_uni G w c = x # xs \<Longrightarrow>
       \<exists>w'. q_next_uni E c w = (Some x, w') \<and> g_uni G w' c = xs \<and> same_streams G {} {} {} w w'
         \<and> (\<forall>d \<in> g_live_conn G w. g_bi G w' d = g_bi G w d \<and> (d \<noteq> c \<longrightarrow> g_uni G w' d = g_uni G w d))"
    and next_bi_end:
      "g_bi G w c = [] \<Longrightarrow> \<exists>w'. q_next_bi E c w = (None, w') \<and> unchanged G {} {} {} w w'"
    and next_bi:
      "g_bi G w c = y # ys \<Longrightarrow>
       \<exists>w'. q_next_bi E c w = (Some y, w') \<and> g_bi G w' c = ys \<and> same_streams G {} {} {} w w'
         \<and> (\<forall>d \<in> g_live_conn G w. g_uni G w' d = g_uni G w d \<and> (d \<noteq> c \<longrightarrow> g_bi G w' d = g_bi G w d))"
begin

lemma with_timeout_keeps: "keeps G R S C m \<Longrightarrow> keeps G R S C (with_timeout E d m)"
  unfolding keeps_def with_timeout_def
  using elapse_unchanged [of R S C "\<lambda>v. snd (m v)"]
  by (auto split: prod.splits) (metis snd_conv)

lemmas transport_keeps = keeps_mono [OF read_keeps] keeps_mono [OF read_exact_keeps]
  keeps_mono [OF write_keeps] keeps_mono [OF finish_keeps] keeps_mono [OF set_priority_keeps]
  keeps_mono [OF open_uni_keeps] keeps_mono [OF open_bi_keeps] keeps_mono [OF connect_keeps]
  keeps_mono [OF connecting_keeps] with_timeout_keeps

text \<open>An operation on a stream it has opened itself touches nothing that was there.\<close>

lemma keeps_open_uni:
  assumes "\<And>s. keeps G {} {s} {} (f s)"
  shows "keeps G {} {} {} (io_bind (io_map_err g (q_open_uni E c)) f)"
proof (rule keepsI)
  fix w res w'
  assume run: "io_bind (io_map_err g (q_open_uni E c)) f w = (res, w')"
  obtain r w1 where o: "q_open_uni E c w = (r, w1)" by fastforce
  note u = keepsD [OF open_uni_keeps o]
  show "unchanged G {} {} {} w w'"
  proof (cases r)
    case (Inl e)
    with run o u show ?thesis by simp
  next
    case (Inr s)
    with run o have "f s w1 = (res, w')" by simp
    with assms have "unchanged G {} {s} {} w1 w'" by (rule keepsD)
    with u open_uni_new o Inr show ?thesis by (blast intro: unchanged_new_stream)
  qed
qed

lemma keeps_open_bi:
  assumes "\<And>s r. keeps G {r} {s} {} (f (s, r))"
  shows "keeps G {} {} {} (io_bind (io_map_err g (q_open_bi E c)) f)"
proof (rule keepsI)
  fix w res w'
  assume run: "io_bind (io_map_err g (q_open_bi E c)) f w = (res, w')"
  obtain x w1 where o: "q_open_bi E c w = (x, w1)" by fastforce
  note u = keepsD [OF open_bi_keeps o]
  show "unchanged G {} {} {} w w'"
  proof (cases x)
    case (Inl e)
    with run o u show ?thesis by simp
  next
    case (Inr p)
    obtain s r where p: "p = (s, r)" by fastforce
    from run o Inr p have "f (s, r) w1 = (res, w')" by simp
    with assms have "unchanged G {r} {s} {} w1 w'" by (rule keepsD)
    with u open_bi_new o Inr p show ?thesis by (blast intro: unchanged_new_streams)
  qed
qed

end

text \<open>
  The laws of a connection's message channel: it is created empty; a send succeeds exactly
  while the receiver is alive, and then adds the item at the end; the receiver gets the items
  in that order, waiting for one where there is none, and nothing only when there is no more.
\<close>

locale channel_laws =
  fixes E :: "'w env" and G :: "'w ghost"
  assumes msg_channel_new:
      "t_msg_channel E n w = (c, w') \<Longrightarrow> c \<notin> g_live_ch G w \<and> c \<in> g_live_ch G w'
         \<and> g_log G w' c = [] \<and> g_taken G w' c = 0 \<and> g_rx_open G w' c"
    and msg_channel_keeps: "keeps G {} {} {} (t_msg_channel E n)"
    and msg_send_open:
      "g_rx_open G w c \<Longrightarrow> \<exists>w'. t_msg_send E c item w = (Inr (), w')
         \<and> g_log G w' c = g_log G w c @ [item]"
    and msg_send_closed:
      "\<not> g_rx_open G w c \<Longrightarrow> \<exists>w'. t_msg_send E c item w = (Inl (), w')
         \<and> g_log G w' c = g_log G w c"
    and msg_send_keeps: "keeps G {} {} {c} (t_msg_send E c item)"
    and msg_send_taken: "t_msg_send E c item w = (res, w') \<Longrightarrow> g_taken G w' c = g_taken G w c"
    and msg_recv:
      "g_taken G w c < length (g_log G w c) \<Longrightarrow>
       \<exists>w'. t_msg_recv E c w = (Some (g_log G w c ! g_taken G w c), w')
         \<and> g_taken G w' c = Suc (g_taken G w c) \<and> g_log G w' c = g_log G w c"
    and msg_recv_some:
      "t_msg_recv E c w = (Some item, w') \<Longrightarrow>
       (\<exists>more. g_log G w' c = g_log G w c @ more) \<and> g_taken G w c < length (g_log G w' c)
         \<and> item = g_log G w' c ! g_taken G w c \<and> g_taken G w' c = Suc (g_taken G w c)"
    and msg_recv_none:
      "t_msg_recv E c w = (None, w') \<Longrightarrow> g_log G w' c = g_log G w c \<and> g_taken G w' c = g_taken G w c"
    and msg_recv_keeps: "keeps G {} {} {c} (t_msg_recv E c)"
    and watch_channel_keeps: "keeps G {} {} {} (t_watch_channel E)"
    and spawn_unchanged: "unchanged G {} {} {} w (t_spawn E t w)"

locale runtime_laws = transport_laws E G + channel_laws E G
  for E :: "'w env" and G :: "'w ghost"

section \<open>Retries\<close>

text \<open>
  What \<open>backoff::future::retry\<close> does with an operation: it runs it, returns a success or a
  permanent error at once, and after a transient error either gives up with it or waits and
  runs the operation again.
\<close>

inductive retry_run ::
  "('w \<Rightarrow> 'w \<Rightarrow> bool) \<Rightarrow> ('w, 'e backoff_Error, 'a) io \<Rightarrow> 'w \<Rightarrow> ('e + 'a) \<times> 'w \<Rightarrow> bool"
  for pause op where
  success: "op w = (Inr x, w') \<Longrightarrow> retry_run pause op w (Inr x, w')"
| permanent: "op w = (Inl (Permanent e), w') \<Longrightarrow> retry_run pause op w (Inl e, w')"
| give_up: "op w = (Inl (Transient e), w') \<Longrightarrow> retry_run pause op w (Inl e, w')"
| again: "op w = (Inl (Transient e), w1) \<Longrightarrow> pause w1 w2 \<Longrightarrow> retry_run pause op w2 out \<Longrightarrow>
    retry_run pause op w out"

inductive_cases retry_run_cases: "retry_run pause op w out"

text \<open>A permanent error ends the retries at the first attempt.\<close>

lemma retry_run_permanent:
  "retry_run pause op w out \<Longrightarrow> op w = (Inl (Permanent e), w') \<Longrightarrow> out = (Inl e, w')"
  by (erule retry_run_cases) auto

text \<open>The outcome is that of a last attempt, made in a state that only pauses and failed attempts led to.\<close>

lemma retry_run_last:
  assumes "retry_run (unchanged G {} {} {}) op w out" and "keeps G {} {} {} op"
  shows "\<exists>w1. unchanged G {} {} {} w w1 \<and>
           (case out of (Inr x, w') \<Rightarrow> op w1 = (Inr x, w')
            | (Inl e, w') \<Rightarrow> op w1 = (Inl (Permanent e), w') \<or> op w1 = (Inl (Transient e), w'))"
  using assms(1)
proof induction
  case (again w e w1 w2 out)
  from keepsD [OF assms(2) again.hyps(1)] again.hyps(2) have "unchanged G {} {} {} w w2"
    by (rule unchanged_trans)
  with again.IH show ?case by (blast intro: unchanged_trans)
qed (simp_all, (metis unchanged_refl)+)

locale backoff_laws =
  fixes E :: "'w env" and G :: "'w ghost"
  assumes retry_send: "retry_run (unchanged G {} {} {}) op1 w (b_retry_send E b op1 w)"
    and retry_connect: "retry_run (unchanged G {} {} {}) op2 w (b_retry_connect E b op2 w)"

text \<open>
  \<open>futures::future::select_ok\<close> over futures that run concurrently: the first success, or the
  error of the last one to fail when all have failed.
\<close>

locale select_laws =
  fixes E :: "'w env"
  assumes select_ok:
      "fs \<noteq> [] \<Longrightarrow> f_select_ok E fs w = (Inr x, w') \<Longrightarrow> \<exists>f \<in> set fs. \<exists>w1 w2. f w1 = (Inr x, w2)"
    and select_err:
      "fs \<noteq> [] \<Longrightarrow> f_select_ok E fs w = (Inl e, w') \<Longrightarrow>
       (\<forall>f \<in> set fs. \<exists>w1 e' w2. f w1 = (Inl e', w2)) \<and> (\<exists>f \<in> set fs. \<exists>w1 w2. f w1 = (Inl e, w2))"

text \<open>
  The same with the states: the futures complete one after another, in some order, each from the
  state that the one before left and some waiting separates from it, until one succeeds or the
  last one has failed.
\<close>

inductive select_run ::
  "('w \<Rightarrow> 'w \<Rightarrow> bool) \<Rightarrow> ('w, 'e, 'a) io list \<Rightarrow> 'w \<Rightarrow> ('e + 'a) \<times> 'w \<Rightarrow> bool"
  for pause where
  first: "pause w v \<Longrightarrow> f \<in> set fs \<Longrightarrow> f v = (Inr x, v') \<Longrightarrow> pause v' w' \<Longrightarrow>
    select_run pause fs w (Inr x, w')"
| failed: "pause w v \<Longrightarrow> f v = (Inl e, v') \<Longrightarrow> fs @ gs \<noteq> [] \<Longrightarrow>
    select_run pause (fs @ gs) v' out \<Longrightarrow> select_run pause (fs @ f # gs) w out"
| last: "pause w v \<Longrightarrow> f v = (Inl e, v') \<Longrightarrow> pause v' w' \<Longrightarrow>
    select_run pause [f] w (Inl e, w')"

lemma select_run_outcome:
  assumes "select_run pause fs w out"
  shows "case out of
           (Inr x, w') \<Rightarrow> \<exists>f \<in> set fs. \<exists>w1 w2. f w1 = (Inr x, w2)
         | (Inl e, w') \<Rightarrow> (\<forall>f \<in> set fs. \<exists>w1 e' w2. f w1 = (Inl e', w2)) \<and> (\<exists>f \<in> set fs. \<exists>w1 w2. f w1 = (Inl e, w2))"
  using assms by induction (auto split: prod.splits sum.splits)

text \<open>Where no future changes what was there, each completes in a state that has it unchanged.\<close>

lemma select_run_states:
  assumes "select_run (unchanged G {} {} {}) fs w out" and "\<And>f. f \<in> set fs \<Longrightarrow> keeps G {} {} {} f"
  shows "case out of
           (Inr x, w') \<Rightarrow> \<exists>f \<in> set fs. \<exists>v v'. unchanged G {} {} {} w v \<and> f v = (Inr x, v')
                            \<and> unchanged G {} {} {} v' w'
         | (Inl e, w') \<Rightarrow> (\<forall>f \<in> set fs. \<exists>v e' v'. unchanged G {} {} {} w v \<and> f v = (Inl e', v'))
                            \<and> unchanged G {} {} {} w w'"
  using assms
proof induction
  case (first w v f fs x v' w')
  then show ?case by auto
next
  case (failed w v f e v' fs gs out)
  from failed.prems have "keeps G {} {} {} f" by simp
  from keepsD [OF this failed.hyps(2)] failed.hyps(1) have "unchanged G {} {} {} w v'"
    by (blast intro: unchanged_trans)
  with failed.IH failed.prems failed.hyps(1,2) show ?case
    by (auto split: prod.splits sum.splits intro: unchanged_trans) (blast intro: unchanged_trans)+
next
  case (last w v f e v' w')
  from last.prems have "keeps G {} {} {} f" by simp
  from keepsD [OF this last.hyps(2)] last.hyps show ?case by (auto intro: unchanged_trans)
qed

locale select_run_laws =
  fixes E :: "'w env" and G :: "'w ghost"
  assumes select_run: "fs \<noteq> [] \<Longrightarrow> select_run (unchanged G {} {} {}) fs w (f_select_ok E fs w)"

sublocale select_run_laws \<subseteq> select_laws E
proof unfold_locales
  fix fs :: "('w, ConnectionError, Connection \<times> ConnectionIncoming) io list"
    and w w' :: 'w and x :: "Connection \<times> ConnectionIncoming" and e :: ConnectionError
  assume ne: "fs \<noteq> []"
  show "\<exists>f \<in> set fs. \<exists>w1 w2. f w1 = (Inr x, w2)" if "f_select_ok E fs w = (Inr x, w')"
    using select_run_outcome [OF select_run [OF ne, of w]] that by simp
  show "(\<forall>f \<in> set fs. \<exists>w1 e' w2. f w1 = (Inl e', w2)) \<and> (\<exists>f \<in> set fs. \<exists>w1 w2. f w1 = (Inl e, w2))"
    if "f_select_ok E fs w = (Inl e, w')"
    using select_run_outcome [OF select_run [OF ne, of w]] that by simp
qed

end
