(* ===== verification/Wire_Msg.thy ===== *)
theory Wire_Msg
  imports Runtime
begin

unbundle bit_operations_syntax

text \<open>
  The framing of \<open>src/wire_msg.rs\<close>: the nine-byte header, writing a message to a stream and
  reading one from it.
\<close>

section \<open>Big-endian integers\<close>

text \<open>\<open>to_be_bytes\<close> and \<open>from_be_bytes\<close> of the standard library, on arrays of two and four bytes.\<close>

definition u16_to_be_bytes :: "u16 \<Rightarrow> bytes" where
  "u16_to_be_bytes x = [ucast (drop_bit 8 x), ucast x]"

definition u16_from_be_bytes :: "bytes \<Rightarrow> u16" where
  "u16_from_be_bytes bs = push_bit 8 (ucast (bs ! 0)) OR ucast (bs ! 1)"

definition u32_to_be_bytes :: "u32 \<Rightarrow> bytes" where
  "u32_to_be_bytes x = [ucast (drop_bit 24 x), ucast (drop_bit 16 x), ucast (drop_bit 8 x), ucast x]"

definition u32_from_be_bytes :: "bytes \<Rightarrow> u32" where
  "u32_from_be_bytes bs =
     push_bit 24 (ucast (bs ! 0)) OR push_bit 16 (ucast (bs ! 1))
       OR push_bit 8 (ucast (bs ! 2)) OR ucast (bs ! 3)"

section \<open>The header\<close>

definition MsgHeader_new :: "bytes \<Rightarrow> u8 \<Rightarrow> SendError + MsgHeader" where
  "MsgHeader_new msg flag =
     (if length msg < 2 ^ 32
      then Inr \<lparr>version = MSG_PROTOCOL_VERSION, data_len = of_nat (length msg),
                usr_msg_flag = flag, reserved = (0, 0)\<rparr>
      else Inl (SendError.Serialization (SerializationError_new
        (''The serialized message is too long ('' @ show_nat (length msg)
          @ '' bytes, max: 4 GiB)''))))"

definition MsgHeader_to_bytes :: "MsgHeader \<Rightarrow> bytes" where
  "MsgHeader_to_bytes h =
     (let version = u16_to_be_bytes (version h); data_len = u32_to_be_bytes (data_len h) in
      [version ! 0, version ! 1, data_len ! 0, data_len ! 1, data_len ! 2, data_len ! 3,
       usr_msg_flag h, 0, 0])"

text \<open>The argument is an array of \<open>MSG_HEADER_LEN\<close> bytes.\<close>

definition MsgHeader_from_bytes :: "bytes \<Rightarrow> MsgHeader" where
  "MsgHeader_from_bytes bytes =
     \<lparr>version = u16_from_be_bytes [bytes ! 0, bytes ! 1],
      data_len = u32_from_be_bytes [bytes ! 2, bytes ! 3, bytes ! 4, bytes ! 5],
      usr_msg_flag = bytes ! 6, reserved = (0, 0)\<rparr>"

section \<open>Reading and writing messages\<close>

text \<open>The last step of a read: the payload, by the flag of its header.\<close>

definition decode_payload :: "'w env \<Rightarrow> u8 \<Rightarrow> bytes \<Rightarrow> RecvError + WireMsg option" where
  "decode_payload E msg_flag data =
     (if data = [] then
        Inl (RecvError.Serialization (SerializationError_new ''Empty message received from peer''))
      else if msg_flag = USER_MSG_FLAG then Inr (Some (UserMsg data))
      else if msg_flag = ECHO_SRVC_MSG_FLAG then
        (case bincode_deserialize E data of
           Inl error \<Rightarrow> Inl (RecvError_from_bincode error)
         | Inr msg \<Rightarrow> Inr (Some msg))
      else Inl (RecvError.Serialization (SerializationError_new
        (''Invalid message type flag found in message header: '' @ show_nat (unat msg_flag)))))"

text \<open>
  The first read may give fewer than nine bytes; the rest of the header is then read exactly,
  into the buffer behind them.
\<close>

definition read_header_rest :: "'w env \<Rightarrow> recv_id \<Rightarrow> bytes \<Rightarrow> nat \<Rightarrow> ('w, RecvError, bytes) io" where
  "read_header_rest E recv header_bytes len =
     (if len < MSG_HEADER_LEN then
        io_bind (io_map_err RecvError_from_read_exact (q_read_exact E recv (MSG_HEADER_LEN - len)))
          (\<lambda>rest. io_ret (fill header_bytes len rest))
      else io_ret header_bytes)"

definition read_from_stream :: "'w env \<Rightarrow> recv_id \<Rightarrow> ('w, RecvError, WireMsg option) io" where
  "read_from_stream E recv =
     io_match (io_map_err RecvError_from_read (q_read E recv MSG_HEADER_LEN)) (\<lambda>res.
       case res of
         Inl (RecvError.ConnectionLost error) \<Rightarrow>
           if is_benign error then io_ret None else io_fail (RecvError.ConnectionLost error)
       | Inl error \<Rightarrow> io_fail error
       | Inr None \<Rightarrow> io_ret None
       | Inr (Some read) \<Rightarrow>
           io_bind (read_header_rest E recv (fill (replicate MSG_HEADER_LEN 0) 0 read) (length read))
             (\<lambda>header_bytes.
               let msg_header = MsgHeader_from_bytes header_bytes;
                   data_length = unat (data_len msg_header)
               in io_bind (io_map_err RecvError_from_read_exact (q_read_exact E recv data_length))
                    (\<lambda>data. io_of (decode_payload E (usr_msg_flag msg_header) data))))"

text \<open>The bytes and the flag a message is sent with.\<close>

fun msg_payload :: "'w env \<Rightarrow> WireMsg \<Rightarrow> SendError + bytes \<times> u8" where
  "msg_payload E (UserMsg m) = Inr (m, USER_MSG_FLAG)"
| "msg_payload E msg =
     (case bincode_serialize E msg of
        Inl error \<Rightarrow> Inl (SendError_from_bincode error)
      | Inr bytes \<Rightarrow> Inr (bytes, ECHO_SRVC_MSG_FLAG))"

definition write_to_stream :: "'w env \<Rightarrow> WireMsg \<Rightarrow> send_id \<Rightarrow> ('w, SendError, unit) io" where
  "write_to_stream E msg send_stream =
     io_bind (io_of (msg_payload E msg)) (\<lambda>(msg_bytes, msg_flag).
       io_bind (io_of (MsgHeader_new msg_bytes msg_flag)) (\<lambda>msg_header.
         let header_bytes = MsgHeader_to_bytes msg_header in
         io_bind (io_map_err SendError_from_write (q_write_all E send_stream header_bytes)) (\<lambda>_.
           io_map_err SendError_from_write (q_write_all E send_stream msg_bytes))))"

section \<open>The codecs\<close>

interpretation u16_be: fixed_codec u16_to_be_bytes u16_from_be_bytes 2 "\<lambda>_. True"
proof unfold_locales
  fix x :: u16
  show "length (u16_to_be_bytes x) = 2"
    by (simp add: u16_to_be_bytes_def)
  show "u16_from_be_bytes (u16_to_be_bytes x) = x"
    unfolding u16_from_be_bytes_def u16_to_be_bytes_def
    by (rule bit_word_eqI) (auto simp: bit_simps)
qed simp

interpretation u32_be: fixed_codec u32_to_be_bytes u32_from_be_bytes 4 "\<lambda>_. True"
proof unfold_locales
  fix x :: u32
  show "length (u32_to_be_bytes x) = 4"
    by (simp add: u32_to_be_bytes_def)
  show "u32_from_be_bytes (u32_to_be_bytes x) = x"
  proof (rule bit_word_eqI)
    fix n
    assume "n < LENGTH(32)"
    then show "bit (u32_from_be_bytes (u32_to_be_bytes x)) n = bit x n"
      by (cases "n < 8"; cases "n < 16"; cases "n < 24")
        (auto simp: u32_from_be_bytes_def u32_to_be_bytes_def bit_simps)
  qed
qed simp

interpretation header: fixed_codec MsgHeader_to_bytes MsgHeader_from_bytes MSG_HEADER_LEN
  "\<lambda>h. reserved h = (0, 0)"
proof unfold_locales
  fix h :: MsgHeader
  show "length (MsgHeader_to_bytes h) = MSG_HEADER_LEN"
    by (simp add: MsgHeader_to_bytes_def MSG_HEADER_LEN_def Let_def)
  assume "reserved h = (0, 0)"
  moreover have "[u16_to_be_bytes x ! 0, u16_to_be_bytes x ! 1] = u16_to_be_bytes x" for x
    by (simp add: u16_to_be_bytes_def)
  moreover have "[u32_to_be_bytes x ! 0, u32_to_be_bytes x ! 1, u32_to_be_bytes x ! 2,
      u32_to_be_bytes x ! 3] = u32_to_be_bytes x" for x
    by (simp add: u32_to_be_bytes_def)
  ultimately show "MsgHeader_from_bytes (MsgHeader_to_bytes h) = h"
    by (simp add: MsgHeader_from_bytes_def MsgHeader_to_bytes_def Let_def
        u16_be.dec_enc u32_be.dec_enc)
qed (simp add: MsgHeader_from_bytes_def)

section \<open>The frame of a message\<close>

text \<open>
  The abstract specification of the framing, on byte strings: what a message is sent as, and
  what a reader gets out of the bytes a stream still has to deliver and the way it ends.
\<close>

definition encode_frame :: "'w env \<Rightarrow> WireMsg \<Rightarrow> SendError + bytes" where
  "encode_frame E msg =
     (case msg_payload E msg of
        Inl e \<Rightarrow> Inl e
      | Inr (payload, flag) \<Rightarrow>
          (case MsgHeader_new payload flag of
             Inl e \<Rightarrow> Inl e
           | Inr h \<Rightarrow> Inr (MsgHeader_to_bytes h @ payload)))"

fun cut_short :: "stream_end \<Rightarrow> RecvError" where
  "cut_short Finished = RecvError_from_read_exact QX_FinishedEarly"
| "cut_short (Broken e _) = RecvError_from_read e"

fun at_end :: "stream_end \<Rightarrow> RecvError + WireMsg option" where
  "at_end Finished = Inr None"
| "at_end (Broken (QR_ConnectionLost e) _) =
     (if is_benign (ConnectionError_from_quinn e) then Inr None
      else Inl (RecvError_from_read (QR_ConnectionLost e)))"
| "at_end (Broken e _) = Inl (RecvError_from_read e)"

definition decode_frame ::
  "'w env \<Rightarrow> bytes \<Rightarrow> stream_end \<Rightarrow> (RecvError + WireMsg option) \<times> bytes" where
  "decode_frame E bs fin =
     (if bs = [] then (at_end fin, [])
      else if length bs < MSG_HEADER_LEN then (Inl (cut_short fin), [])
      else let h = MsgHeader_from_bytes (take MSG_HEADER_LEN bs);
               n = unat (data_len h); rest = drop MSG_HEADER_LEN bs
           in if length rest < n then (Inl (cut_short fin), [])
              else (decode_payload E (usr_msg_flag h) (take n rest), drop n rest))"

context recv_stream_laws
begin

lemma read_exact_cases:
  obtains (enough) w' where "n \<le> length (avail w r)"
      "io_map_err RecvError_from_read_exact (q_read_exact E r n) w = (Inr (take n (avail w r)), w')"
      "avail w' r = drop n (avail w r)" "fate w' r = fate w r"
  | (short) w' where "length (avail w r) < n"
      "io_map_err RecvError_from_read_exact (q_read_exact E r n) w = (Inl (cut_short (fate w r)), w')"
      "avail w' r = []" "\<not> ends_lost (fate w r) \<longrightarrow> fate w' r = after_end (fate w r)"
proof (cases "n \<le> length (avail w r)")
  case True
  from read_exact_enough [OF True] True that show ?thesis by auto
next
  case False
  then have lt: "length (avail w r) < n" by simp
  show ?thesis
  proof (cases "fate w r")
    case Finished
    from read_exact_finished [OF lt this] lt that(2) Finished show ?thesis by auto
  next
    case (Broken e fin)
    from read_exact_broken [OF lt this] lt that(2) Broken show ?thesis by auto
  qed
qed

text \<open>Reading the rest of the header gives the first nine bytes, however the first read was cut.\<close>

lemma read_header:
  assumes "0 < k" "k \<le> MSG_HEADER_LEN" "k \<le> length bs" "avail w r = drop k bs" "fate w r = fin"
  obtains (full) w' where "MSG_HEADER_LEN \<le> length bs"
      "read_header_rest E r (fill (replicate MSG_HEADER_LEN 0) 0 (take k bs)) k w
         = (Inr (take MSG_HEADER_LEN bs), w')"
      "avail w' r = drop MSG_HEADER_LEN bs" "fate w' r = fin"
  | (cut) w' where "length bs < MSG_HEADER_LEN"
      "read_header_rest E r (fill (replicate MSG_HEADER_LEN 0) 0 (take k bs)) k w
         = (Inl (cut_short fin), w')"
      "avail w' r = []" "\<not> ends_lost fin \<longrightarrow> fate w' r = after_end fin"
proof (cases "k < MSG_HEADER_LEN")
  case False
  with assms have "k = MSG_HEADER_LEN" by simp
  with assms that(1) show ?thesis
    by (simp add: read_header_rest_def fill_def)
next
  case True
  show ?thesis
  proof (cases rule: read_exact_cases [of "MSG_HEADER_LEN - k" w r])
    case (enough w')
    from enough(1) assms(3,4) True have len: "MSG_HEADER_LEN \<le> length bs" by simp
    have "take k bs @ take (MSG_HEADER_LEN - k) (drop k bs) = take MSG_HEADER_LEN bs"
      using assms(2) by (metis le_add_diff_inverse take_add)
    moreover have "length (take k bs) + length (take (MSG_HEADER_LEN - k) (drop k bs))
        = length (replicate MSG_HEADER_LEN (0::u8))"
      using len assms by simp
    ultimately have "fill (fill (replicate MSG_HEADER_LEN 0) 0 (take k bs)) k
        (take (MSG_HEADER_LEN - k) (drop k bs)) = take MSG_HEADER_LEN bs"
      using fill_complete [of "take k bs" "take (MSG_HEADER_LEN - k) (drop k bs)"] assms(3) by simp
    with enough assms len True that(1) show ?thesis
      by (simp add: read_header_rest_def)
  next
    case (short w')
    with assms True that(2) show ?thesis
      by (simp add: read_header_rest_def)
  qed
qed

end

text \<open>A stream holds a whole frame.\<close>

definition frame_complete :: "bytes \<Rightarrow> bool" where
  "frame_complete bs \<longleftrightarrow> MSG_HEADER_LEN \<le> length bs
     \<and> unat (data_len (MsgHeader_from_bytes (take MSG_HEADER_LEN bs))) \<le> length bs - MSG_HEADER_LEN"

lemma decode_frame_complete:
  "frame_complete bs \<Longrightarrow> decode_frame E bs fin =
     (let h = MsgHeader_from_bytes (take MSG_HEADER_LEN bs); n = unat (data_len h);
          rest = drop MSG_HEADER_LEN bs
      in (decode_payload E (usr_msg_flag h) (take n rest), drop n rest))"
  by (auto simp: decode_frame_def frame_complete_def Let_def MSG_HEADER_LEN_def)

lemma decode_frame_incomplete:
  "\<not> frame_complete bs \<Longrightarrow> decode_frame E bs fin = (if bs = [] then at_end fin else Inl (cut_short fin), [])"
  by (auto simp: decode_frame_def frame_complete_def Let_def)

lemma decode_frame_shorter: "bs \<noteq> [] \<Longrightarrow> length (snd (decode_frame E bs fin)) < length bs"
  by (auto simp: decode_frame_def Let_def MSG_HEADER_LEN_def)

lemma at_end_broken:
  "(case RecvError_from_read e of
      RecvError.ConnectionLost error \<Rightarrow>
        if is_benign error then io_ret None else io_fail (RecvError.ConnectionLost error)
    | RecvError.Serialization x \<Rightarrow> io_fail (RecvError.Serialization x)
    | RecvError.StreamLost x \<Rightarrow> io_fail (RecvError.StreamLost x)) w = (at_end (Broken e fin), w)"
  by (cases e) simp_all

context recv_stream_laws
begin

text \<open>At the end of the stream there is nothing to decode but the way it ended.\<close>

lemma read_at_end:
  assumes "avail w r = []"
  obtains w' where "read_from_stream E r w = (at_end (fate w r), w')" "avail w' r = []"
    "\<not> ends_lost (fate w r) \<longrightarrow> fate w' r = after_end (fate w r)"
proof (cases "fate w r")
  case Finished
  from read_finished [OF assms this, of MSG_HEADER_LEN] Finished that show ?thesis
    by (auto simp: read_from_stream_def MSG_HEADER_LEN_def)
next
  case (Broken e fin)
  from read_broken [OF assms this, of MSG_HEADER_LEN] obtain w' where
    "q_read E r MSG_HEADER_LEN w = (Inl e, w')" "avail w' r = []" "\<not> is_lost e \<longrightarrow> fate w' r = fin"
    by (auto simp: MSG_HEADER_LEN_def)
  with Broken at_end_broken [of e w' fin] that [of w'] show ?thesis
    by (simp add: read_from_stream_def)
qed

theorem read_refines:
  "\<exists>w'. read_from_stream E r w = (fst (decode_frame E (avail w r) (fate w r)), w')
     \<and> avail w' r = snd (decode_frame E (avail w r) (fate w r))
     \<and> (frame_complete (avail w r) \<longrightarrow> fate w' r = fate w r)
     \<and> (\<not> frame_complete (avail w r) \<longrightarrow> \<not> ends_lost (fate w r) \<longrightarrow> fate w' r = after_end (fate w r))"
proof (cases "avail w r = []")
  case True
  from read_at_end [OF this] obtain w' where "read_from_stream E r w = (at_end (fate w r), w')"
    "avail w' r = []" "\<not> ends_lost (fate w r) \<longrightarrow> fate w' r = after_end (fate w r)" .
  with True show ?thesis by (simp add: decode_frame_def frame_complete_def MSG_HEADER_LEN_def)
next
  case False
  define bs fin where "bs = avail w r" and "fin = fate w r"
  from read_some [OF False, of MSG_HEADER_LEN] obtain k w1 where
    k: "0 < k" "k \<le> MSG_HEADER_LEN" "k \<le> length bs" and
    rd: "q_read E r MSG_HEADER_LEN w = (Inr (Some (take k bs)), w1)" and
    w1: "avail w1 r = drop k bs" "fate w1 r = fin"
    by (auto simp: MSG_HEADER_LEN_def bs_def fin_def)
  from k w1 show ?thesis
  proof (cases rule: read_header)
    case (full w2)
    define h where "h = MsgHeader_from_bytes (take MSG_HEADER_LEN bs)"
    show ?thesis
    proof (cases rule: read_exact_cases [of "unat (data_len h)" w2 r])
      case (enough w3)
      with full rd have "read_from_stream E r w =
          (decode_payload E (usr_msg_flag h) (take (unat (data_len h)) (drop MSG_HEADER_LEN bs)), w3)"
        by (simp add: read_from_stream_def h_def min_absorb2 [OF k(3)] Let_def)
      with enough full False show ?thesis
        by (auto simp: decode_frame_def Let_def h_def bs_def fin_def frame_complete_def)
    next
      case (short w3)
      with full rd have "read_from_stream E r w = (Inl (cut_short fin), w3)"
        by (simp add: read_from_stream_def h_def min_absorb2 [OF k(3)] Let_def)
      with short full False show ?thesis
        by (auto simp: decode_frame_def Let_def h_def bs_def fin_def frame_complete_def)
    qed
  next
    case (cut w2)
    with rd have "read_from_stream E r w = (Inl (cut_short fin), w2)"
      by (simp add: read_from_stream_def min_absorb2 [OF k(3)])
    with cut False show ?thesis
      by (auto simp: decode_frame_def bs_def fin_def frame_complete_def)
  qed
qed

end

section \<open>Writing\<close>

lemma write_encode_error:
  "encode_frame E msg = Inl e \<Longrightarrow> write_to_stream E msg s w = (Inl e, w)"
  by (auto simp: encode_frame_def write_to_stream_def split: sum.splits prod.splits)

lemma encode_frame_Inr:
  assumes "encode_frame E msg = Inr bs"
  obtains payload flag h where "msg_payload E msg = Inr (payload, flag)"
    "MsgHeader_new payload flag = Inr h" "bs = MsgHeader_to_bytes h @ payload"
  using assms by (auto simp: encode_frame_def split: sum.splits prod.splits)

text \<open>A message that has a frame is written as two writes: the header, then the payload.\<close>

lemma write_to_stream_frame:
  assumes "msg_payload E msg = Inr (payload, flag)" and "MsgHeader_new payload flag = Inr h"
  shows "write_to_stream E msg s =
    io_bind (io_map_err SendError_from_write (q_write_all E s (MsgHeader_to_bytes h)))
      (\<lambda>_. io_map_err SendError_from_write (q_write_all E s payload))"
  using assms by (intro ext) (simp add: write_to_stream_def)

context send_stream_laws
begin

lemma write_refines:
  assumes "write_to_stream E msg s w = (Inr (), w')"
  obtains bs where "encode_frame E msg = Inr bs" "sent w' s = sent w s @ bs"
proof (cases "encode_frame E msg")
  case (Inl e)
  with assms show ?thesis by (simp add: write_encode_error)
next
  case (Inr bs)
  then obtain payload flag h where p: "msg_payload E msg = Inr (payload, flag)"
    "MsgHeader_new payload flag = Inr h" "bs = MsgHeader_to_bytes h @ payload"
    by (rule encode_frame_Inr)
  from assms obtain w1 where "q_write_all E s (MsgHeader_to_bytes h) w = (Inr (), w1)"
    "q_write_all E s payload w1 = (Inr (), w')"
    by (auto simp: write_to_stream_frame [OF p(1,2)] io_inv)
  with p(3) Inr that show ?thesis by (simp add: write_ok)
qed

text \<open>A failed write leaves a prefix of the frame behind.\<close>

lemma write_prefix:
  assumes "write_to_stream E msg s w = (Inl e, w')" and "encode_frame E msg = Inr bs"
  shows "\<exists>k \<le> length bs. sent w' s = sent w s @ take k bs"
proof -
  from assms(2) obtain payload flag h where p: "msg_payload E msg = Inr (payload, flag)"
    "MsgHeader_new payload flag = Inr h" and bs: "bs = MsgHeader_to_bytes h @ payload"
    by (rule encode_frame_Inr)
  from assms(1) consider
      (header) e0 where "q_write_all E s (MsgHeader_to_bytes h) w = (Inl e0, w')"
    | (payload) w1 e0 where "q_write_all E s (MsgHeader_to_bytes h) w = (Inr (), w1)"
        "q_write_all E s payload w1 = (Inl e0, w')"
    by (auto simp: write_to_stream_frame [OF p] io_inv)
  then show ?thesis
  proof cases
    case header
    from write_err [OF this] obtain k where
      "k \<le> length (MsgHeader_to_bytes h)" "sent w' s = sent w s @ take k (MsgHeader_to_bytes h)"
      by blast
    then show ?thesis unfolding bs by (intro exI [of _ k]) simp
  next
    case payload
    from write_err [OF payload(2)] write_ok [OF payload(1)] obtain k where
      "k \<le> length payload" "sent w' s = sent w s @ MsgHeader_to_bytes h @ take k payload"
      by auto
    then show ?thesis unfolding bs
      by (intro exI [of _ "length (MsgHeader_to_bytes h) + k"]) simp
  qed
qed

lemma write_to_stream_other:
  "write_to_stream E msg s w = (res, w') \<Longrightarrow> s' \<noteq> s \<Longrightarrow> sent w' s' = sent w s'"
  by (auto simp: write_to_stream_def io_bind_def io_map_err_def Let_def
      split: prod.splits sum.splits) (metis write_other)+

end

section \<open>Round trip\<close>

lemma MsgHeader_new_Inr:
  "MsgHeader_new payload flag = Inr h \<longleftrightarrow> length payload < 2 ^ 32 \<and>
     h = \<lparr>version = MSG_PROTOCOL_VERSION, data_len = of_nat (length payload),
          usr_msg_flag = flag, reserved = (0, 0)\<rparr>"
  by (auto simp: MsgHeader_new_def)

lemma decode_frame_payload:
  assumes "MsgHeader_new payload flag = Inr h"
  shows "decode_frame E (MsgHeader_to_bytes h @ payload @ rest) fin = (decode_payload E flag payload, rest)"
    and "frame_complete (MsgHeader_to_bytes h @ payload @ rest)"
proof -
  from assms have len: "length payload < 2 ^ 32" and h: "reserved h = (0, 0)"
    "usr_msg_flag h = flag" "data_len h = of_nat (length payload)"
    by (auto simp: MsgHeader_new_Inr)
  then have n: "unat (data_len h) = length payload"
    by (simp add: unat_of_nat take_bit_eq_mod)
  have hdr: "MsgHeader_from_bytes (take MSG_HEADER_LEN (MsgHeader_to_bytes h @ payload @ rest)) = h"
    by (rule header.dec_prefix) (rule h(1))
  show complete: "frame_complete (MsgHeader_to_bytes h @ payload @ rest)"
    unfolding frame_complete_def hdr n by (simp add: header.enc_width)
  show "decode_frame E (MsgHeader_to_bytes h @ payload @ rest) fin = (decode_payload E flag payload, rest)"
    by (simp only: decode_frame_complete [OF complete] hdr Let_def header.drop_prefix n h(2)) simp
qed

lemma msg_payload_flag:
  "msg_payload E msg = Inr (payload, flag) \<Longrightarrow>
     (\<exists>m. msg = UserMsg m \<and> payload = m \<and> flag = USER_MSG_FLAG)
     \<or> (bincode_serialize E msg = Inr payload \<and> flag = ECHO_SRVC_MSG_FLAG)"
  by (cases msg) (auto split: sum.splits)

context bincode_laws
begin

lemma decode_payload_msg_payload:
  assumes "msg_payload E msg = Inr (payload, flag)" "canonical_msg msg" "msg \<noteq> UserMsg []"
  shows "decode_payload E flag payload = Inr (Some msg)"
  using msg_payload_flag [OF assms(1)]
proof (elim disjE exE conjE)
  fix m
  assume "msg = UserMsg m" "payload = m" "flag = USER_MSG_FLAG"
  with assms(3) show ?thesis by (simp add: decode_payload_def)
next
  assume "bincode_serialize E msg = Inr payload" "flag = ECHO_SRVC_MSG_FLAG"
  with assms(2) show ?thesis
    by (simp add: decode_payload_def deserialize_serialize serialize_nonempty
        USER_MSG_FLAG_def ECHO_SRVC_MSG_FLAG_def)
qed

lemma decode_encode:
  assumes "encode_frame E msg = Inr bs" "canonical_msg msg" "msg \<noteq> UserMsg []"
  shows "decode_frame E (bs @ rest) fin = (Inr (Some msg), rest)" and "frame_complete (bs @ rest)"
proof -
  from assms(1) obtain payload flag h where p: "msg_payload E msg = Inr (payload, flag)"
    "MsgHeader_new payload flag = Inr h" "bs = MsgHeader_to_bytes h @ payload"
    by (rule encode_frame_Inr)
  show "decode_frame E (bs @ rest) fin = (Inr (Some msg), rest)"
    by (simp add: p(3) decode_frame_payload(1) [OF p(2)] decode_payload_msg_payload [OF p(1) assms(2,3)])
  show "frame_complete (bs @ rest)"
    using decode_frame_payload(2) [OF p(2)] p(3) by simp
qed

end

section \<open>Frames\<close>

text \<open>Reading and writing a message touch their own stream only.\<close>

context transport_laws
begin

lemma write_to_stream_keeps: "keeps G {} {s} {} (write_to_stream E m s)"
  unfolding write_to_stream_def
  by (auto simp: Let_def split: prod.splits intro!: keeps_intros transport_keeps)

lemma read_from_stream_keeps: "keeps G {r} {} {} (read_from_stream E r)"
  unfolding read_from_stream_def read_header_rest_def
  by (auto simp: Let_def split: sum.splits option.splits RecvError.splits
      intro!: keeps_intros transport_keeps)

end

end
