(* ===== verification/Connection.thy ===== *)
theory Connection
  imports Wire_Msg
begin

text \<open>
  The connection API of \<open>src/connection.rs\<close>: the sending half with its retries, the stream
  wrappers, and the receiving half that takes the items its listeners put on the channel.
\<close>

section \<open>Constants\<close>

definition INCOMING_MESSAGE_BUFFER_LEN :: nat where
  "INCOMING_MESSAGE_BUFFER_LEN = 10000"

definition QP2P_CLOSED_CONNECTION :: string where
  "QP2P_CLOSED_CONNECTION = ''The connection was closed intentionally by qp2p.''"

text \<open>\<open>String::into_bytes\<close>; a character of the model is a byte of the UTF-8 text.\<close>

definition into_bytes :: "string \<Rightarrow> bytes" where
  "into_bytes s = map (\<lambda>c. of_nat (of_char c)) s"

section \<open>Streams\<close>

text \<open>The stream wrappers hold the stream of the transport and nothing else.\<close>

type_synonym SendStream = send_id
type_synonym RecvStream = recv_id

text \<open>The result of \<open>set_priority\<close> is dropped.\<close>

definition set_priority :: "'w env \<Rightarrow> SendStream \<Rightarrow> i32 \<Rightarrow> 'w \<Rightarrow> 'w" where
  "set_priority E self priority w = snd (q_set_priority E self priority w)"

definition send_user_msg :: "'w env \<Rightarrow> SendStream \<Rightarrow> bytes \<Rightarrow> ('w, SendError, unit) io" where
  "send_user_msg E self msg = write_to_stream E (UserMsg msg) self"

definition finish :: "'w env \<Rightarrow> SendStream \<Rightarrow> ('w, SendError, unit) io" where
  "finish E self = io_map_err SendError_from_write (q_finish E self)"

definition send_wire_msg :: "'w env \<Rightarrow> SendStream \<Rightarrow> WireMsg \<Rightarrow> ('w, SendError, unit) io" where
  "send_wire_msg E self msg = write_to_stream E msg self"

definition next_wire_msg :: "'w env \<Rightarrow> RecvStream \<Rightarrow> ('w, RecvError, WireMsg option) io" where
  "next_wire_msg E self = read_from_stream E self"

definition RecvStream_next :: "'w env \<Rightarrow> RecvStream \<Rightarrow> ('w, RecvError, bytes) io" where
  "RecvStream_next E self =
     io_bind (next_wire_msg E self) (\<lambda>res.
       case res of
         Some (UserMsg msg) \<Rightarrow> io_ret msg
       | msg \<Rightarrow> io_fail (RecvError.Serialization (SerializationError_unexpected msg)))"

section \<open>The receiving half\<close>

text \<open>The two tasks are spawned one after the other, both with the same channel.\<close>

definition start_message_listeners ::
  "'w env \<Rightarrow> endpoint_id \<Rightarrow> SocketAddr \<Rightarrow> conn_id \<Rightarrow> alive_id \<Rightarrow> chan_id \<Rightarrow> 'w \<Rightarrow> 'w" where
  "start_message_listeners E endpoint peer_addr streams alive_rx message_tx w =
     t_spawn E (BiListener endpoint peer_addr streams alive_rx message_tx)
       (t_spawn E (UniListener peer_addr streams alive_rx message_tx) w)"

definition ConnectionIncoming_new ::
  "'w env \<Rightarrow> endpoint_id \<Rightarrow> SocketAddr \<Rightarrow> conn_id \<Rightarrow> alive_id \<Rightarrow> 'w \<Rightarrow> ConnectionIncoming \<times> 'w" where
  "ConnectionIncoming_new E endpoint peer_addr streams alive w =
     (case t_msg_channel E INCOMING_MESSAGE_BUFFER_LEN w of (message, w1) \<Rightarrow>
        (\<lparr>message_rx = message, incoming_alive_tx = alive\<rparr>,
         start_message_listeners E endpoint peer_addr streams alive message w1))"

text \<open>\<open>recv().await.transpose()\<close>\<close>

definition next_with_stream ::
  "'w env \<Rightarrow> ConnectionIncoming \<Rightarrow> ('w, RecvError, (bytes \<times> SendStream option) option) io" where
  "next_with_stream E self w =
     (case t_msg_recv E (message_rx self) w of
        (None, w') \<Rightarrow> (Inr None, w')
      | (Some (Inl error), w') \<Rightarrow> (Inl error, w')
      | (Some (Inr item), w') \<Rightarrow> (Inr (Some item), w'))"

definition ConnectionIncoming_next ::
  "'w env \<Rightarrow> ConnectionIncoming \<Rightarrow> ('w, RecvError, bytes option) io" where
  "ConnectionIncoming_next E self =
     io_bind (next_with_stream E self) (\<lambda>res.
       case res of Some (bytes, _) \<Rightarrow> io_ret (Some bytes) | None \<Rightarrow> io_ret None)"

section \<open>The sending half\<close>

definition Connection_new ::
  "'w env \<Rightarrow> endpoint_id \<Rightarrow> RetryConfig option \<Rightarrow> conn_id \<Rightarrow> 'w
   \<Rightarrow> (Connection \<times> ConnectionIncoming) \<times> 'w" where
  "Connection_new E endpoint default_retry connection w =
     (case t_watch_channel E w of (alive, w1) \<Rightarrow>
        let peer_address = q_remote_address E connection w1 in
        case ConnectionIncoming_new E endpoint peer_address connection alive w1 of (incoming, w2) \<Rightarrow>
          ((\<lparr>conn_inner = connection, default_retry_config = default_retry, conn_alive_tx = alive\<rparr>,
            incoming), w2))"

definition Connection_id :: "'w env \<Rightarrow> Connection \<Rightarrow> 'w \<Rightarrow> nat" where
  "Connection_id E self w = q_stable_id E (conn_inner self) w"

definition remote_address :: "'w env \<Rightarrow> Connection \<Rightarrow> 'w \<Rightarrow> SocketAddr" where
  "remote_address E self w = q_remote_address E (conn_inner self) w"

definition open_uni :: "'w env \<Rightarrow> Connection \<Rightarrow> ('w, ConnectionError, SendStream) io" where
  "open_uni E self = io_map_err ConnectionError_from_quinn (q_open_uni E (conn_inner self))"

definition open_bi ::
  "'w env \<Rightarrow> Connection \<Rightarrow> ('w, ConnectionError, SendStream \<times> RecvStream) io" where
  "open_bi E self = io_map_err ConnectionError_from_quinn (q_open_bi E (conn_inner self))"

definition Connection_close :: "'w env \<Rightarrow> Connection \<Rightarrow> string option \<Rightarrow> 'w \<Rightarrow> 'w" where
  "Connection_close E self reason w =
     q_close E (conn_inner self) 0
       (into_bytes (case reason of Some r \<Rightarrow> r | None \<Rightarrow> QP2P_CLOSED_CONNECTION)) w"

text \<open>A stream the peer has already stopped is not an error when it is finished.\<close>

definition finish_unless_stopped :: "'w env \<Rightarrow> SendStream \<Rightarrow> ('w, SendError, unit) io" where
  "finish_unless_stopped E send_stream =
     io_match (finish E send_stream) (\<lambda>res.
       case res of
         Inl (SendError.StreamLost (StreamError.Stopped code)) \<Rightarrow> io_ret ()
       | Inl err \<Rightarrow> io_fail err
       | Inr x \<Rightarrow> io_ret ())"

definition send_uni :: "'w env \<Rightarrow> Connection \<Rightarrow> bytes \<Rightarrow> i32 \<Rightarrow> ('w, SendError, unit) io" where
  "send_uni E self msg priority =
     io_bind (io_map_err SendError.ConnectionLost (open_uni E self)) (\<lambda>send_stream.
       io_bind (io_do (set_priority E send_stream priority)) (\<lambda>_.
         io_bind (send_user_msg E send_stream msg) (\<lambda>_.
           finish_unless_stopped E send_stream)))"

text \<open>Which errors of an attempt stop the retries.\<close>

fun send_retry_error :: "SendError \<Rightarrow> SendError backoff_Error" where
  "send_retry_error (SendError.ConnectionLost e) = Permanent (SendError.ConnectionLost e)"
| "send_retry_error error = Transient error"

definition send_with ::
  "'w env \<Rightarrow> Connection \<Rightarrow> bytes \<Rightarrow> i32 \<Rightarrow> RetryConfig option \<Rightarrow> ('w, SendError, unit) io" where
  "send_with E self msg priority retry_config =
     (case (case retry_config of Some rc \<Rightarrow> Some rc | None \<Rightarrow> default_retry_config self) of
        Some rc \<Rightarrow> RetryConfig_retry (b_retry_send E) rc
                     (io_map_err send_retry_error (send_uni E self msg priority))
      | None \<Rightarrow> send_uni E self msg priority)"

definition send :: "'w env \<Rightarrow> Connection \<Rightarrow> bytes \<Rightarrow> ('w, SendError, unit) io" where
  "send E self msg = send_with E self msg 0 None"


section \<open>Sending\<close>

context transport_laws
begin

lemma set_priority_unchanged: "unchanged G {} {} {} w (set_priority E s prio w)"
  using set_priority_keeps by (simp add: set_priority_def keeps_def)

lemma finish_frame: "keeps G {} {} {} (finish E s)"
  unfolding finish_def by (intro keeps_intros finish_keeps)

lemma io_do_keeps: "(\<And>w. unchanged G R S C w (f w)) \<Longrightarrow> keeps G R S C (io_do f)"
  by (simp add: keeps_def)

lemma finish_unless_stopped_keeps: "keeps G {} {} {} (finish_unless_stopped E s)"
  unfolding finish_unless_stopped_def
  by (auto intro!: keeps_intros finish_frame split: sum.splits SendError.splits StreamError.splits)

text \<open>Nothing that existed before is touched by sending: the message goes out on a new stream.\<close>

lemma send_uni_keeps: "keeps G {} {} {} (send_uni E self msg prio)"
  unfolding send_uni_def open_uni_def io_map_err_comp send_user_msg_def
  by (intro keeps_open_uni keeps_intros keeps_mono [OF finish_unless_stopped_keeps]
      write_to_stream_keeps io_do_keeps unchanged_mono [OF set_priority_unchanged]) auto

lemma send_uni_ok:
  assumes "send_uni E self msg prio w = (Inr (), w')"
  obtains s bs where "encode_frame E (UserMsg msg) = Inr bs" "s \<notin> g_live_tx G w"
    "s \<in> g_live_tx G w'" "g_sent G w' s = bs"
proof -
  from assms obtain s w1 w3 where
    o: "q_open_uni E (conn_inner self) w = (Inr s, w1)" and
    wr: "write_to_stream E (UserMsg msg) s (set_priority E s prio w1) = (Inr (), w3)" and
    fin: "finish_unless_stopped E s w3 = (Inr (), w')"
    by (auto simp: send_uni_def open_uni_def send_user_msg_def io_inv)
  from open_uni_new [OF o] have s: "s \<notin> g_live_tx G w" "s \<in> g_live_tx G w1" "g_sent G w1 s = []"
    by auto
  note p = set_priority_unchanged [of w1 s prio]
  from write_refines [OF wr] obtain bs where bs: "encode_frame E (UserMsg msg) = Inr bs"
    "g_sent G w3 s = g_sent G (set_priority E s prio w1) s @ bs" .
  note f = keepsD [OF finish_unless_stopped_keeps fin]
  have live3: "s \<in> g_live_tx G w3"
    by (rule unchangedD(8) [OF keepsD [OF write_to_stream_keeps wr] unchangedD(8) [OF p s(2)]])
  from bs(2) s unchangedD(3) [OF p] have "g_sent G w3 s = bs" by simp
  with live3 f have "g_sent G w' s = bs" "s \<in> g_live_tx G w'"
    by (auto simp: unchangedD)
  with that bs(1) s(1) show ?thesis by blast
qed

end

locale sending_laws = transport_laws E G + backoff_laws E G
  for E :: "'w env" and G :: "'w ghost"
begin

lemma send_attempt_keeps: "keeps G {} {} {} (io_map_err send_retry_error (send_uni E self msg prio))"
  by (intro keeps_intros send_uni_keeps)

lemma send_retry_error_inv: "send_retry_error e = Permanent e' \<or> send_retry_error e = Transient e' \<Longrightarrow> e' = e"
  by (cases e) auto

text \<open>Whatever the retry settings, the outcome of sending is that of one attempt.\<close>

lemma send_with_attempt:
  assumes "send_with E self msg prio rc w = (res, w')"
  obtains w1 where "unchanged G {} {} {} w w1" "send_uni E self msg prio w1 = (res, w')"
proof (cases "case rc of Some c \<Rightarrow> Some c | None \<Rightarrow> default_retry_config self")
  case None
  with assms that [of w] show ?thesis by (simp add: send_with_def)
next
  case (Some c)
  let ?op = "io_map_err send_retry_error (send_uni E self msg prio)"
  from assms Some have "retry_run (unchanged G {} {} {}) ?op w (res, w')"
    using retry_send [of ?op w "RetryConfig_backoff c"] by (simp add: send_with_def RetryConfig_retry_def)
  from retry_run_last [OF this send_attempt_keeps] obtain w1 where w1: "unchanged G {} {} {} w w1"
    "case res of Inr x \<Rightarrow> ?op w1 = (Inr x, w')
       | Inl e \<Rightarrow> ?op w1 = (Inl (Permanent e), w') \<or> ?op w1 = (Inl (Transient e), w')"
    by auto
  from w1(2) have "send_uni E self msg prio w1 = (res, w')"
    by (cases res) (auto simp: io_inv dest!: send_retry_error_inv [OF disjI1, OF sym]
        send_retry_error_inv [OF disjI2, OF sym])
  with w1(1) that show ?thesis by blast
qed

lemma send_with_frame:
  assumes "send_with E self msg prio rc w = (Inr (), w')"
  shows "\<exists>s. s \<notin> g_live_tx G w \<and> s \<in> g_live_tx G w' \<and> encode_frame E (UserMsg msg) = Inr (g_sent G w' s)"
    and "unchanged G {} {} {} w w'"
proof -
  obtain w1 where u: "unchanged G {} {} {} w w1" and run: "send_uni E self msg prio w1 = (Inr (), w')"
    by (rule send_with_attempt [OF assms])
  from send_uni_ok [OF run] obtain s bs where
    "encode_frame E (UserMsg msg) = Inr bs" "s \<notin> g_live_tx G w1" "s \<in> g_live_tx G w'" "g_sent G w' s = bs" .
  with unchangedD(8) [OF u]
  show "\<exists>s. s \<notin> g_live_tx G w \<and> s \<in> g_live_tx G w' \<and> encode_frame E (UserMsg msg) = Inr (g_sent G w' s)" by blast
  show "unchanged G {} {} {} w w'" using u keepsD [OF send_uni_keeps run] by (rule unchanged_trans)
qed

lemma send_with_lost:
  assumes "send_uni E self msg prio w = (Inl (SendError.ConnectionLost e), w')"
  shows "send_with E self msg prio rc w = (Inl (SendError.ConnectionLost e), w')"
proof (cases "case rc of Some c \<Rightarrow> Some c | None \<Rightarrow> default_retry_config self")
  case None
  with assms show ?thesis by (simp add: send_with_def)
next
  case (Some c)
  let ?op = "io_map_err send_retry_error (send_uni E self msg prio)"
  from assms have "?op w = (Inl (Permanent (SendError.ConnectionLost e)), w')" by simp
  with retry_send [of ?op w "RetryConfig_backoff c"]
  have "b_retry_send E (RetryConfig_backoff c) ?op w = (Inl (SendError.ConnectionLost e), w')"
    by (rule retry_run_permanent)
  with Some show ?thesis by (simp add: send_with_def RetryConfig_retry_def)
qed

end

section \<open>Receiving\<close>

text \<open>What a caller of \<open>next_with_stream\<close> sees of an item of the channel.\<close>

fun item_result :: "msg_item \<Rightarrow> RecvError + (bytes \<times> SendStream option) option" where
  "item_result (Inl e) = Inl e"
| "item_result (Inr x) = Inr (Some x)"

fun receive_n ::
  "'w env \<Rightarrow> ConnectionIncoming \<Rightarrow> nat \<Rightarrow> 'w
   \<Rightarrow> (RecvError + (bytes \<times> SendStream option) option) list \<times> 'w" where
  "receive_n E self 0 w = ([], w)"
| "receive_n E self (Suc n) w =
     (case next_with_stream E self w of (res, w1) \<Rightarrow>
        (case receive_n E self n w1 of (ress, w2) \<Rightarrow> (res # ress, w2)))"

context channel_laws
begin

lemma next_with_stream_item:
  assumes "g_taken G w (message_rx self) < length (g_log G w (message_rx self))"
  obtains w' where "next_with_stream E self w =
      (item_result (g_log G w (message_rx self) ! g_taken G w (message_rx self)), w')"
    "g_taken G w' (message_rx self) = Suc (g_taken G w (message_rx self))"
    "g_log G w' (message_rx self) = g_log G w (message_rx self)"
  using msg_recv [OF assms] that
  by (cases "g_log G w (message_rx self) ! g_taken G w (message_rx self)")
    (auto simp: next_with_stream_def)

lemma receive_n_items:
  assumes "g_taken G w (message_rx self) + n \<le> length (g_log G w (message_rx self))"
  shows "fst (receive_n E self n w) =
    map item_result (take n (drop (g_taken G w (message_rx self)) (g_log G w (message_rx self))))"
  using assms
proof (induction n arbitrary: w)
  case (Suc n)
  then have lt: "g_taken G w (message_rx self) < length (g_log G w (message_rx self))" by simp
  from next_with_stream_item [OF this] obtain w' where w': "next_with_stream E self w =
      (item_result (g_log G w (message_rx self) ! g_taken G w (message_rx self)), w')"
    "g_taken G w' (message_rx self) = Suc (g_taken G w (message_rx self))"
    "g_log G w' (message_rx self) = g_log G w (message_rx self)" .
  from Suc.IH [of w'] Suc.prems w'(2,3) have "fst (receive_n E self n w') = map item_result
      (take n (drop (Suc (g_taken G w (message_rx self))) (g_log G w (message_rx self))))"
    by simp
  with w'(1) show ?case
    by (simp add: Cons_nth_drop_Suc [OF lt, symmetric] case_prod_beta)
qed simp

end

section \<open>New connections\<close>

locale connection_laws = runtime_laws E G + sending_laws E G
  for E :: "'w env" and G :: "'w ghost"
begin

lemma ConnectionIncoming_new_channel:
  assumes "ConnectionIncoming_new E ep addr c alive w = (inc, w')"
  shows "message_rx inc \<notin> g_live_ch G w" "message_rx inc \<in> g_live_ch G w'"
    "g_log G w' (message_rx inc) = []" "g_taken G w' (message_rx inc) = 0"
    "g_rx_open G w' (message_rx inc)" "unchanged G {} {} {} w w'"
proof -
  from assms obtain ch w1 where ch: "t_msg_channel E INCOMING_MESSAGE_BUFFER_LEN w = (ch, w1)"
    "message_rx inc = ch" "w' = start_message_listeners E ep addr c alive ch w1"
    by (auto simp: ConnectionIncoming_new_def split: prod.splits)
  have s: "unchanged G {} {} {} w1 w'"
    unfolding ch(3) start_message_listeners_def by (rule unchanged_trans [OF spawn_unchanged spawn_unchanged])
  from msg_channel_new [OF ch(1)] s ch(2) keepsD [OF msg_channel_keeps ch(1)]
  show "message_rx inc \<notin> g_live_ch G w" "message_rx inc \<in> g_live_ch G w'"
    "g_log G w' (message_rx inc) = []" "g_taken G w' (message_rx inc) = 0"
    "g_rx_open G w' (message_rx inc)" "unchanged G {} {} {} w w'"
    by (auto simp: unchangedD intro: unchanged_trans)
qed

end

end
