(* ===== verification/Listeners.thy ===== *)
theory Listeners
  imports Connection
begin

text \<open>
  The background listeners of a connection (\<open>src/connection.rs\<close>): the task that reads the
  peer's unidirectional streams one after the other, and the task that serves its
  bidirectional streams concurrently, answering the echo and the verification requests.

  The stream and future combinators of the \<open>futures\<close> crate that the sources compose
  (\<open>try_unfold\<close>, \<open>try_flatten\<close>, \<open>try_for_each_concurrent\<close>, \<open>select\<close>) are unfolded by their
  documented behaviour.
\<close>

section \<open>Constants\<close>

definition ENDPOINT_VERIFICATION_TIMEOUT :: duration where
  "ENDPOINT_VERIFICATION_TIMEOUT = from_secs 30"

section \<open>Filtering benign closes\<close>

text \<open>\<open>FilterBenignClose::poll_next\<close>, once the wrapped stream of incoming streams is ready.\<close>

definition filter_benign_close ::
  "('w \<Rightarrow> (quinn_ConnectionError + 'a) option \<times> 'w) \<Rightarrow> 'w \<Rightarrow> (ConnectionError + 'a) option \<times> 'w" where
  "filter_benign_close poll_next w =
     (case poll_next w of
        (None, w') \<Rightarrow> (None, w')
      | (Some (Inr x), w') \<Rightarrow> (Some (Inr x), w')
      | (Some (Inl e), w') \<Rightarrow>
          (let error = ConnectionError_from_quinn e in
           if is_benign error then (None, w') else (Some (Inl error), w')))"

section \<open>Unidirectional streams\<close>

text \<open>
  One step of \<open>uni_messages\<close>. The flattened stream reads messages from the current stream
  until it ends, fails or holds anything but a user message, and then goes on to the next
  incoming stream.
\<close>

datatype uni_event = U_Item "RecvError + bytes" | U_More | U_End

definition uni_poll :: "'w env \<Rightarrow> conn_id \<Rightarrow> recv_id option \<Rightarrow> 'w \<Rightarrow> uni_event \<times> recv_id option \<times> 'w" where
  "uni_poll E uni_streams current w =
     (case current of
        Some recv_stream \<Rightarrow>
          (case read_from_stream E recv_stream w of
             (Inr (Some (UserMsg msg)), w') \<Rightarrow> (U_Item (Inr msg), Some recv_stream, w')
           | (Inr None, w') \<Rightarrow> (U_More, None, w')
           | (Inr msg, w') \<Rightarrow>
               (U_Item (Inl (RecvError.Serialization (SerializationError_unexpected msg))), None, w')
           | (Inl error, w') \<Rightarrow> (U_Item (Inl error), None, w'))
      | None \<Rightarrow>
          (case filter_benign_close (q_next_uni E uni_streams) w of
             (None, w') \<Rightarrow> (U_End, None, w')
           | (Some (Inr recv_stream), w') \<Rightarrow> (U_More, Some recv_stream, w')
           | (Some (Inl error), w') \<Rightarrow> (U_Item (Inl (RecvError.ConnectionLost error)), None, w')))"

fun is_connection_lost :: "RecvError \<Rightarrow> bool" where
  "is_connection_lost (RecvError.ConnectionLost e) = True"
| "is_connection_lost _ = False"

text \<open>The body of the receive loop: forward the result, and say whether to stop.\<close>

definition uni_forward :: "'w env \<Rightarrow> chan_id \<Rightarrow> RecvError + bytes \<Rightarrow> 'w \<Rightarrow> bool \<times> 'w" where
  "uni_forward E message_tx result w =
     (let break1 = (case result of Inl error \<Rightarrow> is_connection_lost error | Inr b \<Rightarrow> False) in
      case t_msg_send E message_tx (map_sum id (\<lambda>b. (b, None)) result) w of
        (Inl x, w') \<Rightarrow> (True, w')
      | (Inr x, w') \<Rightarrow> (break1, w'))"

text \<open>
  The loop waits in \<open>select\<close> for a message or the end of the \<open>alive\<close> channel (\<open>U_Select\<close>, with
  whether the \<open>alive\<close> future has already resolved), or, once \<open>alive\<close> has resolved with a
  value, for the pending message alone (\<open>U_Await\<close>). Polling the resolved \<open>alive\<close> future again
  panics, which happens when a message is not ready at once.
\<close>

datatype uni_state =
    U_Select "recv_id option" bool
  | U_Await "recv_id option"
  | U_Stopped
  | U_Panicked

definition uni_advance ::
  "'w env \<Rightarrow> conn_id \<Rightarrow> chan_id \<Rightarrow> (recv_id option \<Rightarrow> uni_state) \<Rightarrow> bool \<Rightarrow> recv_id option \<Rightarrow> 'w
   \<Rightarrow> uni_state \<times> 'w" where
  "uni_advance E uni_streams message_tx waiting resolved current w =
     (case uni_poll E uni_streams current w of
        (U_End, current', w') \<Rightarrow> (U_Stopped, w')
      | (U_More, current', w') \<Rightarrow> (waiting current', w')
      | (U_Item result, current', w') \<Rightarrow>
          (case uni_forward E message_tx result w' of
             (True, w'') \<Rightarrow> (U_Stopped, w'')
           | (False, w'') \<Rightarrow> (U_Select current' resolved, w'')))"

fun uni_step ::
  "'w env \<Rightarrow> conn_id \<Rightarrow> alive_id \<Rightarrow> chan_id \<Rightarrow> uni_state \<Rightarrow> 'w \<Rightarrow> uni_state \<times> 'w" where
  "uni_step E uni_streams alive_rx message_tx (U_Select current resolved) w =
     (case t_select E alive_rx w of
        LeftReady \<Rightarrow>
          uni_advance E uni_streams message_tx (\<lambda>c. U_Select c resolved) resolved current w
      | LeftFirst \<Rightarrow>
          if resolved then (U_Panicked, w)
          else uni_advance E uni_streams message_tx (\<lambda>c. U_Select c resolved) resolved current w
      | RightOk \<Rightarrow> if resolved then (U_Panicked, w) else (U_Await current, w)
      | RightErr \<Rightarrow> if resolved then (U_Panicked, w) else (U_Stopped, w))"
| "uni_step E uni_streams alive_rx message_tx (U_Await current) w =
     uni_advance E uni_streams message_tx U_Await True current w"
| "uni_step E uni_streams alive_rx message_tx state w = (state, w)"

fun uni_done :: "uni_state \<Rightarrow> bool" where
  "uni_done U_Stopped = True"
| "uni_done U_Panicked = True"
| "uni_done _ = False"

partial_function (option) uni_loop ::
  "'w env \<Rightarrow> conn_id \<Rightarrow> alive_id \<Rightarrow> chan_id \<Rightarrow> uni_state \<Rightarrow> 'w \<Rightarrow> (uni_state \<times> 'w) option" where
  "uni_loop E uni_streams alive_rx message_tx state w =
     (if uni_done state then Some (state, w)
      else uni_loop E uni_streams alive_rx message_tx
             (fst (uni_step E uni_streams alive_rx message_tx state w))
             (snd (uni_step E uni_streams alive_rx message_tx state w)))"

text \<open>\<open>None\<close>: the listener runs forever.\<close>

definition listen_on_uni_streams ::
  "'w env \<Rightarrow> SocketAddr \<Rightarrow> conn_id \<Rightarrow> alive_id \<Rightarrow> chan_id \<Rightarrow> 'w \<Rightarrow> (uni_state \<times> 'w) option" where
  "listen_on_uni_streams E peer_addr uni_streams alive_rx message_tx w =
     uni_loop E uni_streams alive_rx message_tx (U_Select None False) w"

section \<open>Requests on bidirectional streams\<close>

definition handle_endpoint_echo ::
  "'w env \<Rightarrow> send_id \<Rightarrow> SocketAddr \<Rightarrow> ('w, SendError, unit) io" where
  "handle_endpoint_echo E send_stream peer_addr =
     write_to_stream E (EndpointEchoResp peer_addr) send_stream"

text \<open>The \<open>verify\<close> future: an echo request over a new connection to the address.\<close>

definition verify_endpoint :: "'w env \<Rightarrow> endpoint_id \<Rightarrow> SocketAddr \<Rightarrow> ('w, RpcError, unit) io" where
  "verify_endpoint E endpoint addr =
     io_bind (io_map_err (\<lambda>e. RpcError_from_connection (ConnectionError_from_connect e))
                (q_connect E endpoint addr SERVER_NAME)) (\<lambda>connecting.
     io_bind (io_map_err RpcError_from_quinn (q_connecting E connecting)) (\<lambda>connection.
     io_bind (io_map_err RpcError_from_quinn (q_open_bi E connection)) (\<lambda>(send_stream, recv_stream).
     io_bind (io_map_err RpcError.Send (write_to_stream E EndpointEchoReq send_stream)) (\<lambda>_.
     io_bind (io_map_err RpcError.Recv (read_from_stream E recv_stream)) (\<lambda>res.
       case res of
         Some (EndpointEchoResp addr') \<Rightarrow> io_ret ()
       | msg \<Rightarrow> io_fail (RpcError.Recv
           (RecvError.Serialization (SerializationError_unexpected msg))))))))"

fun is_ok :: "'e + 'a \<Rightarrow> bool" where
  "is_ok (Inr x) = True"
| "is_ok (Inl e) = False"

definition handle_endpoint_verification ::
  "'w env \<Rightarrow> endpoint_id \<Rightarrow> send_id \<Rightarrow> SocketAddr \<Rightarrow> ('w, SendError, unit) io" where
  "handle_endpoint_verification E endpoint send_stream addr =
     io_match (with_timeout E ENDPOINT_VERIFICATION_TIMEOUT (verify_endpoint E endpoint addr)) (\<lambda>res.
       let verified = (case res of Inr r \<Rightarrow> r | Inl error \<Rightarrow> Inl (RpcError_from_elapsed error)) in
       write_to_stream E (EndpointVerificationResp (is_ok verified)) send_stream)"

section \<open>Bidirectional streams\<close>

text \<open>
  One iteration of the loop that serves a stream; the flag says whether the loop goes on. The
  errors of the two request handlers are only logged. The reply stream is behind a mutex, which
  the application is given with each message; waiting for it is left out, and an iteration is one
  step.
\<close>

definition bi_iteration ::
  "'w env \<Rightarrow> endpoint_id \<Rightarrow> SocketAddr \<Rightarrow> chan_id \<Rightarrow> send_id \<Rightarrow> recv_id \<Rightarrow> 'w \<Rightarrow> bool \<times> 'w" where
  "bi_iteration E endpoint peer_addr message_tx send_stream recv_stream w =
     (case read_from_stream E recv_stream w of
        (Inl error, w1) \<Rightarrow>
          (let break1 = is_connection_lost error in
           case t_msg_send E message_tx (Inl error) w1 of
             (Inl x, w2) \<Rightarrow> (False, w2)
           | (Inr x, w2) \<Rightarrow> (\<not> break1, w2))
      | (Inr None, w1) \<Rightarrow> (False, w1)
      | (Inr (Some (UserMsg msg)), w1) \<Rightarrow>
          (case t_msg_send E message_tx (Inr (msg, Some send_stream)) w1 of
             (Inl x, w2) \<Rightarrow> (False, w2)
           | (Inr x, w2) \<Rightarrow> (True, w2))
      | (Inr (Some EndpointEchoReq), w1) \<Rightarrow>
          (True, snd (handle_endpoint_echo E send_stream peer_addr w1))
      | (Inr (Some (EndpointVerificationReq addr)), w1) \<Rightarrow>
          (True, snd (handle_endpoint_verification E endpoint send_stream addr w1))
      | (Inr (Some msg), w1) \<Rightarrow> (True, w1))"

text \<open>The loop for one stream, on its own.\<close>

partial_function (option) bi_loop ::
  "'w env \<Rightarrow> endpoint_id \<Rightarrow> SocketAddr \<Rightarrow> chan_id \<Rightarrow> send_id \<Rightarrow> recv_id \<Rightarrow> 'w \<Rightarrow> 'w option" where
  "bi_loop E endpoint peer_addr message_tx send_stream recv_stream w =
     (if fst (bi_iteration E endpoint peer_addr message_tx send_stream recv_stream w)
      then bi_loop E endpoint peer_addr message_tx send_stream recv_stream
             (snd (bi_iteration E endpoint peer_addr message_tx send_stream recv_stream w))
      else Some (snd (bi_iteration E endpoint peer_addr message_tx send_stream recv_stream w)))"

text \<open>
  The whole listener: \<open>try_for_each_concurrent\<close> accepts streams and runs the loops of the
  accepted ones in any interleaving, until the incoming streams have ended and every loop has
  stopped, or accepting fails, or \<open>alive\<close> resolves.
\<close>

datatype bi_state =
    B_Serving bool "(send_id \<times> recv_id) list"
  | B_Ended
  | B_Failed ConnectionError
  | B_Dropped

inductive bi_step ::
  "'w env \<Rightarrow> endpoint_id \<Rightarrow> SocketAddr \<Rightarrow> conn_id \<Rightarrow> alive_id \<Rightarrow> chan_id
   \<Rightarrow> bi_state \<times> 'w \<Rightarrow> bi_state \<times> 'w \<Rightarrow> bool"
  for E endpoint peer_addr bi_streams alive_rx message_tx where
  accept: "filter_benign_close (q_next_bi E bi_streams) w = (Some (Inr (s, r)), w') \<Longrightarrow>
    bi_step E endpoint peer_addr bi_streams alive_rx message_tx
      (B_Serving True running, w) (B_Serving True (running @ [(s, r)]), w')"
| no_more: "filter_benign_close (q_next_bi E bi_streams) w = (None, w') \<Longrightarrow>
    bi_step E endpoint peer_addr bi_streams alive_rx message_tx
      (B_Serving True running, w) (B_Serving False running, w')"
| fail: "filter_benign_close (q_next_bi E bi_streams) w = (Some (Inl error), w') \<Longrightarrow>
    bi_step E endpoint peer_addr bi_streams alive_rx message_tx
      (B_Serving True running, w) (B_Failed error, w')"
| serve: "bi_iteration E endpoint peer_addr message_tx s r w = (True, w') \<Longrightarrow>
    bi_step E endpoint peer_addr bi_streams alive_rx message_tx
      (B_Serving accepting (before @ (s, r) # after), w)
      (B_Serving accepting (before @ (s, r) # after), w')"
| finish: "bi_iteration E endpoint peer_addr message_tx s r w = (False, w') \<Longrightarrow>
    bi_step E endpoint peer_addr bi_streams alive_rx message_tx
      (B_Serving accepting (before @ (s, r) # after), w) (B_Serving accepting (before @ after), w')"
| ended: "bi_step E endpoint peer_addr bi_streams alive_rx message_tx (B_Serving False [], w) (B_Ended, w)"
| dropped: "t_select E alive_rx w = RightErr \<or> t_select E alive_rx w = RightOk \<Longrightarrow>
    bi_step E endpoint peer_addr bi_streams alive_rx message_tx
      (B_Serving accepting running, w) (B_Dropped, w)"

end
