(* ===== verification/Igd.thy ===== *)
theory Igd
  imports Runtime
begin

text \<open>
  Port forwarding over UPnP (\<open>src/igd.rs\<close>, feature \<open>igd\<close>): mapping a port at the gateway,
  and the task that renews the lease. The gateway is that of the \<open>igd\<close> crate, a parameter.
\<close>

section \<open>Mapping a port\<close>

definition add_port :: "'w env \<Rightarrow> u16 \<Rightarrow> SocketAddr \<Rightarrow> u32 \<Rightarrow> ('w, IgdError, unit) io" where
  "add_port E ext_port local_addr lease_duration =
     io_bind (io_map_err IgdError.Search (i_search_gateway E)) (\<lambda>gateway.
       case local_addr of
         V4 ip port \<Rightarrow>
           io_map_err IgdError.AddPort
             (i_add_port E gateway UDP ext_port (ip, port) lease_duration ''MaidSafe.net'')
       | V6 ip port flow scope \<Rightarrow> io_fail IgdError.NotSupported)"

definition renew_port :: "'w env \<Rightarrow> u16 \<Rightarrow> SocketAddr \<Rightarrow> u32 \<Rightarrow> ('w, IgdError, unit) io" where
  "renew_port E ext_port local_addr lease_duration =
     io_bind (io_map_err IgdError.Search (i_search_gateway E)) (\<lambda>gateway.
       case local_addr of
         V4 ip port \<Rightarrow>
           io_bind (io_map_err IgdError.AddPort
             (i_add_port E gateway UDP ext_port (ip, port) lease_duration ''MaidSafe.net''))
             (\<lambda>_. io_ret ())
       | V6 ip port flow scope \<Rightarrow> io_fail IgdError.NotSupported)"

section \<open>Forwarding and renewing\<close>

text \<open>\<open>Duration::from_secs(u32::MAX.into())\<close>, the longest lease the protocol can express.\<close>

definition max_lease :: duration where
  "max_lease = from_secs (ucast (4294967295 :: u32))"

definition forward_port ::
  "'w env \<Rightarrow> u16 \<Rightarrow> SocketAddr \<Rightarrow> duration \<Rightarrow> term_id \<Rightarrow> ('w, IgdError, unit) io" where
  "forward_port E ext_port local_addr lease_interval0 termination_rx =
     (let lease_interval = min lease_interval0 max_lease;
          lease_interval_u32 = of_nat (as_secs lease_interval) in
      io_bind (add_port E ext_port local_addr lease_interval_u32) (\<lambda>_.
        io_do (t_spawn E (RenewLease ext_port local_addr lease_interval lease_interval_u32 termination_rx))))"

text \<open>
  The renewal task. It waits for the timer, stops unless the termination channel is merely
  empty, and renews the lease, ignoring errors. Creating a timer with a period of zero
  panics, which is \<open>None\<close> of \<open>t_interval_at\<close>.
\<close>

definition renew_tick ::
  "'w env \<Rightarrow> u16 \<Rightarrow> SocketAddr \<Rightarrow> u32 \<Rightarrow> term_id \<Rightarrow> timer_id \<Rightarrow> 'w \<Rightarrow> bool \<times> 'w" where
  "renew_tick E ext_port local_addr lease_interval_u32 termination_rx timer w =
     (case t_broadcast_try_recv E termination_rx (t_tick E timer w) of
        (res, w1) \<Rightarrow>
          if res \<noteq> Inl BC_Empty then (False, w1)
          else (True, snd (renew_port E ext_port local_addr lease_interval_u32 w1)))"

partial_function (option) renew_loop ::
  "'w env \<Rightarrow> u16 \<Rightarrow> SocketAddr \<Rightarrow> u32 \<Rightarrow> term_id \<Rightarrow> timer_id \<Rightarrow> 'w \<Rightarrow> 'w option" where
  "renew_loop E ext_port local_addr lease_interval_u32 termination_rx timer w =
     (if fst (renew_tick E ext_port local_addr lease_interval_u32 termination_rx timer w)
      then renew_loop E ext_port local_addr lease_interval_u32 termination_rx timer
             (snd (renew_tick E ext_port local_addr lease_interval_u32 termination_rx timer w))
      else Some (snd (renew_tick E ext_port local_addr lease_interval_u32 termination_rx timer w)))"

datatype task_end = T_Returned | T_Panicked

definition renew_lease ::
  "'w env \<Rightarrow> u16 \<Rightarrow> SocketAddr \<Rightarrow> duration \<Rightarrow> u32 \<Rightarrow> term_id \<Rightarrow> 'w \<Rightarrow> (task_end \<times> 'w) option" where
  "renew_lease E ext_port local_addr lease_interval lease_interval_u32 termination_rx w =
     (case t_interval_at E lease_interval lease_interval w of
        (None, w1) \<Rightarrow> Some (T_Panicked, w1)
      | (Some timer, w1) \<Rightarrow>
          map_option (Pair T_Returned)
            (renew_loop E ext_port local_addr lease_interval_u32 termination_rx timer w1))"

section \<open>Leases\<close>

lemma max_lease_secs: "max_lease = (2 ^ 32 - 1) * 10 ^ 9"
  by (simp add: max_lease_def from_secs_def)

lemma as_secs_mono: "d \<le> d' \<Longrightarrow> as_secs d \<le> as_secs d'"
  by (simp add: as_secs_def div_le_mono)

text \<open>Once capped, the number of seconds fits into 32 bits: the cast does not truncate.\<close>

lemma lease_cast:
  "unat (of_nat (as_secs (min d max_lease)) :: u32) = min (as_secs d) (2 ^ 32 - 1)"
proof -
  have "as_secs max_lease = 2 ^ 32 - 1" by (simp add: max_lease_secs as_secs_def)
  then have "as_secs (min d max_lease) = min (as_secs d) (2 ^ 32 - 1)"
    using as_secs_mono by (metis min.absorb1 min.absorb2 nle_le)
  then show ?thesis by (simp add: unat_of_nat take_bit_eq_mod)
qed

end
