(* ===== verification/Endpoint.thy ===== *)
theory Endpoint
  imports Listeners Igd
begin

text \<open>
  Endpoints (\<open>src/endpoint.rs\<close>): creating them, connecting with retries, the echo and the
  verification RPC, finding out the public address, and the loop that accepts connections.
\<close>

section \<open>Constants and data\<close>

definition PORT_FORWARD_TIMEOUT :: duration where
  "PORT_FORWARD_TIMEOUT = from_secs 30"

definition ECHO_SERVICE_QUERY_TIMEOUT :: duration where
  "ECHO_SERVICE_QUERY_TIMEOUT = from_secs 30"

definition STANDARD_CHANNEL_SIZE :: nat where
  "STANDARD_CHANNEL_SIZE = 10000"

type_synonym IncomingConnections = chan_id

record Endpoint =
  ep_local_addr :: SocketAddr
  ep_public_addr :: "SocketAddr option"
  quinn_endpoint :: endpoint_id
  ep_retry_config :: RetryConfig
  termination_tx :: term_id

definition IncomingConnections_next ::
  "'w env \<Rightarrow> IncomingConnections \<Rightarrow> 'w \<Rightarrow> (Connection \<times> ConnectionIncoming) option \<times> 'w" where
  "IncomingConnections_next E self w = t_conn_recv E self w"

definition IncomingConnections_try_recv ::
  "'w env \<Rightarrow> IncomingConnections \<Rightarrow> ('w, mpsc_TryRecvError, Connection \<times> ConnectionIncoming) io" where
  "IncomingConnections_try_recv E self = t_conn_try_recv E self"

definition Endpoint_local_addr :: "Endpoint \<Rightarrow> SocketAddr" where
  "Endpoint_local_addr self = ep_local_addr self"

definition Endpoint_public_addr :: "Endpoint \<Rightarrow> SocketAddr" where
  "Endpoint_public_addr self =
     (case ep_public_addr self of Some addr \<Rightarrow> addr | None \<Rightarrow> ep_local_addr self)"

section \<open>Connecting\<close>

text \<open>
  One attempt. An error that leaves it by \<open>?\<close> becomes a transient error of \<open>backoff\<close>, so every
  failure is retried.
\<close>

definition connect_attempt ::
  "'w env \<Rightarrow> Endpoint \<Rightarrow> SocketAddr
   \<Rightarrow> ('w, ConnectionError backoff_Error, Connection \<times> ConnectionIncoming) io" where
  "connect_attempt E self node_addr =
     io_bind (io_map_err (\<lambda>error. Transient (ConnectionError_from_connect error))
                (q_connect E (quinn_endpoint self) node_addr SERVER_NAME)) (\<lambda>connecting.
     io_bind (io_map_err (\<lambda>error. Transient (ConnectionError_from_quinn error))
                (q_connecting E connecting)) (\<lambda>new_conn.
     io_lift (Connection_new E (quinn_endpoint self) (Some (ep_retry_config self)) new_conn)))"

definition new_connection ::
  "'w env \<Rightarrow> Endpoint \<Rightarrow> SocketAddr \<Rightarrow> ('w, ConnectionError, Connection \<times> ConnectionIncoming) io" where
  "new_connection E self node_addr =
     RetryConfig_retry (b_retry_connect E) (ep_retry_config self) (connect_attempt E self node_addr)"

definition connect_to ::
  "'w env \<Rightarrow> Endpoint \<Rightarrow> SocketAddr \<Rightarrow> ('w, ConnectionError, Connection \<times> ConnectionIncoming) io" where
  "connect_to E self node_addr = new_connection E self node_addr"

definition connect_to_any ::
  "'w env \<Rightarrow> Endpoint \<Rightarrow> SocketAddr list \<Rightarrow> 'w \<Rightarrow> (Connection \<times> ConnectionIncoming) option \<times> 'w" where
  "connect_to_any E self peer_addrs w =
     (if peer_addrs = [] then (None, w)
      else case f_select_ok E (map (new_connection E self) peer_addrs) w of
             (Inr connection, w') \<Rightarrow> (Some connection, w')
           | (Inl error, w') \<Rightarrow> (None, w'))"

section \<open>The RPCs\<close>

text \<open>\<open>timeout(ECHO_SERVICE_QUERY_TIMEOUT, recv.next_wire_msg()).await??\<close>\<close>

definition await_reply :: "'w env \<Rightarrow> RecvStream \<Rightarrow> ('w, RpcError, WireMsg option) io" where
  "await_reply E recv =
     io_bind (io_map_err RpcError_from_elapsed
                (with_timeout E ECHO_SERVICE_QUERY_TIMEOUT (next_wire_msg E recv)))
       (\<lambda>res. io_map_err RpcError.Recv (io_of res))"

definition is_reachable :: "'w env \<Rightarrow> Endpoint \<Rightarrow> SocketAddr \<Rightarrow> ('w, RpcError, unit) io" where
  "is_reachable E self peer_addr =
     io_bind (io_map_err RpcError_from_connection (new_connection E self peer_addr)) (\<lambda>(connection, incoming).
     io_bind (io_map_err RpcError_from_connection (open_bi E connection)) (\<lambda>(send_stream, recv_stream).
     io_bind (io_map_err RpcError.Send (send_wire_msg E send_stream EndpointEchoReq)) (\<lambda>_.
     io_bind (await_reply E recv_stream) (\<lambda>reply.
       case reply of
         Some (EndpointEchoResp addr) \<Rightarrow> io_ret ()
       | Some other \<Rightarrow> io_ret ()
       | None \<Rightarrow> io_ret ()))))"

definition endpoint_echo :: "'w env \<Rightarrow> Endpoint \<Rightarrow> Connection \<Rightarrow> ('w, RpcError, SocketAddr) io" where
  "endpoint_echo E self contact =
     io_bind (io_map_err RpcError_from_connection (open_bi E contact)) (\<lambda>(send_stream, recv_stream).
     io_bind (io_map_err RpcError.Send (send_wire_msg E send_stream EndpointEchoReq)) (\<lambda>_.
     io_bind (await_reply E recv_stream) (\<lambda>reply.
       case reply of
         Some (EndpointEchoResp addr) \<Rightarrow> io_ret addr
       | msg \<Rightarrow> io_fail (RpcError.Recv
           (RecvError.Serialization (SerializationError_unexpected msg))))))"

definition endpoint_verification ::
  "'w env \<Rightarrow> Endpoint \<Rightarrow> Connection \<Rightarrow> SocketAddr \<Rightarrow> ('w, RpcError, bool) io" where
  "endpoint_verification E self contact public_addr =
     io_bind (io_map_err RpcError_from_connection (open_bi E contact)) (\<lambda>(send_stream, recv_stream).
     io_bind (io_map_err RpcError.Send
                (send_wire_msg E send_stream (EndpointVerificationReq public_addr))) (\<lambda>_.
     io_bind (await_reply E recv_stream) (\<lambda>reply.
       case reply of
         Some (EndpointVerificationResp valid) \<Rightarrow> io_ret valid
       | msg \<Rightarrow> io_fail (RpcError.Recv
           (RecvError.Serialization (SerializationError_unexpected msg))))))"

section \<open>The public address\<close>

text \<open>The address the contact sees, if there is a contact.\<close>

definition query_visible_addr ::
  "'w env \<Rightarrow> Endpoint \<Rightarrow> Connection option \<Rightarrow> ('w, EndpointError, SocketAddr option) io" where
  "query_visible_addr E self contact =
     (case contact of
        None \<Rightarrow> io_ret None
      | Some c \<Rightarrow>
          io_match (endpoint_echo E self c) (\<lambda>res w.
            case res of
              Inl error \<Rightarrow> (Inl (EndpointError.EndpointEcho (remote_address E c w) error), w)
            | Inr addr \<Rightarrow> (Inr (Some addr), w)))"

text \<open>
  The method sets the field of the endpoint and returns the address; the warnings that the
  configured address differs from the visible one have no effect.
\<close>

definition resolve_public_addr ::
  "'w env \<Rightarrow> Endpoint \<Rightarrow> IpAddr option \<Rightarrow> u16 option \<Rightarrow> Connection option
   \<Rightarrow> ('w, EndpointError, SocketAddr \<times> Endpoint) io" where
  "resolve_public_addr E self config_external_ip config_external_port contact =
     io_bind (query_visible_addr E self contact) (\<lambda>visible_addr.
       let addr0 = ep_local_addr self;
           addr1 = (case config_external_ip of
                      Some external_ip \<Rightarrow> set_ip external_ip addr0
                    | None \<Rightarrow>
                        (case visible_addr of
                           Some visible \<Rightarrow> set_ip (sa_ip visible) addr0
                         | None \<Rightarrow> addr0));
           addr2 = (case config_external_port of
                      Some external_port \<Rightarrow> set_port external_port addr1
                    | None \<Rightarrow>
                        (case visible_addr of
                           Some visible \<Rightarrow> set_port (sa_port visible) addr1
                         | None \<Rightarrow> addr1))
       in io_ret (addr2, self\<lparr>ep_public_addr := Some addr2\<rparr>))"

section \<open>Accepting connections\<close>

definition accept_iteration ::
  "'w env \<Rightarrow> endpoint_id \<Rightarrow> chan_id \<Rightarrow> RetryConfig \<Rightarrow> 'w \<Rightarrow> bool \<times> 'w" where
  "accept_iteration E endpoint connection_tx retry_config w =
     (case q_next_incoming E endpoint w of
        (Some quinn_conn, w1) \<Rightarrow>
          (case q_connecting E quinn_conn w1 of
             (Inr connection, w2) \<Rightarrow>
               (case Connection_new E endpoint (Some retry_config) connection w2 of
                  (pair, w3) \<Rightarrow> (True, snd (t_conn_send E connection_tx pair w3)))
           | (Inl err, w2) \<Rightarrow> (True, w2))
      | (None, w1) \<Rightarrow> (False, w1))"

partial_function (option) accept_loop ::
  "'w env \<Rightarrow> endpoint_id \<Rightarrow> chan_id \<Rightarrow> RetryConfig \<Rightarrow> 'w \<Rightarrow> 'w option" where
  "accept_loop E endpoint connection_tx retry_config w =
     (if fst (accept_iteration E endpoint connection_tx retry_config w)
      then accept_loop E endpoint connection_tx retry_config
             (snd (accept_iteration E endpoint connection_tx retry_config w))
      else Some (snd (accept_iteration E endpoint connection_tx retry_config w)))"

definition listen_for_incoming_connections ::
  "'w env \<Rightarrow> endpoint_id \<Rightarrow> chan_id \<Rightarrow> RetryConfig \<Rightarrow> 'w \<Rightarrow> 'w" where
  "listen_for_incoming_connections E endpoint connection_tx retry_config w =
     t_spawn E (AcceptLoop endpoint connection_tx retry_config) w"

section \<open>Creating and closing endpoints\<close>

text \<open>An operation can fail with an error or panic.\<close>

datatype 'e failure = Panicked | Failed 'e

definition checked_config :: "('e \<Rightarrow> 'f) \<Rightarrow> ('e + 'a) option \<Rightarrow> 'f failure + 'a" where
  "checked_config conv res =
     (case res of
        None \<Rightarrow> Inl Panicked
      | Some (Inl e) \<Rightarrow> Inl (Failed (conv e))
      | Some (Inr x) \<Rightarrow> Inr x)"

definition new_client ::
  "'w env \<Rightarrow> tls \<Rightarrow> SocketAddr \<Rightarrow> Config \<Rightarrow> ('w, ClientEndpointError failure, Endpoint) io" where
  "new_client E T local_addr config0 =
     io_bind (io_of (checked_config ClientEndpointError.Config (try_from_config T config0))) (\<lambda>config.
     io_bind (io_lift (t_broadcast_channel E 1)) (\<lambda>termination.
     io_bind (io_map_err (\<lambda>e. Failed (ClientEndpointError.Io e)) (q_client E local_addr)) (\<lambda>endpoint.
     io_bind (io_map_err (\<lambda>e. Failed (ClientEndpointError.Io e)) (q_local_addr E endpoint)) (\<lambda>addr.
     io_bind (io_do (q_set_default_client_config E endpoint (ic_client config))) (\<lambda>_.
     io_ret \<lparr>ep_local_addr = addr, ep_public_addr = None, quinn_endpoint = endpoint,
             ep_retry_config = ic_retry_config config, termination_tx = termination\<rparr>)))))"

text \<open>The first part of \<open>new_peer\<close>: an endpoint bound to its socket, without a public address.\<close>

definition bind_peer ::
  "'w env \<Rightarrow> SocketAddr \<Rightarrow> InternalConfig \<Rightarrow> ('w, EndpointError, Endpoint) io" where
  "bind_peer E local_addr config =
     io_bind (io_lift (t_broadcast_channel E 1)) (\<lambda>termination.
     io_bind (io_map_err EndpointError.IoError (q_server E (ic_server config) local_addr)) (\<lambda>endpoint.
     io_bind (io_map_err EndpointError.IoError (q_local_addr E endpoint)) (\<lambda>addr.
     io_bind (io_do (q_set_default_client_config E endpoint (ic_client config))) (\<lambda>_.
     io_ret \<lparr>ep_local_addr = addr, ep_public_addr = None, quinn_endpoint = endpoint,
             ep_retry_config = ic_retry_config config, termination_tx = termination\<rparr>))))"

text \<open>\<open>timeout(..).await.map_err(|_| IgdError::TimedOut)??\<close>, when forwarding is configured.\<close>

definition forward_if_configured ::
  "'w env \<Rightarrow> Endpoint \<Rightarrow> InternalConfig \<Rightarrow> SocketAddr \<Rightarrow> ('w, EndpointError, unit) io" where
  "forward_if_configured E self config public_addr =
     (if ic_forward_port config then
        io_bind (io_map_err (\<lambda>_. EndpointError_from_igd IgdError.TimedOut)
                   (with_timeout E PORT_FORWARD_TIMEOUT
                      (forward_port E (sa_port public_addr) (Endpoint_local_addr self)
                         (ic_upnp_lease_duration config) (termination_tx self))))
          (\<lambda>res. io_map_err EndpointError_from_igd (io_of res))
      else io_ret ())"

text \<open>The last part of \<open>new_peer\<close>: the contact checks that the address can be reached.\<close>

definition check_reachable ::
  "'w env \<Rightarrow> Endpoint \<Rightarrow> Connection option \<Rightarrow> SocketAddr \<Rightarrow> ('w, EndpointError, unit) io" where
  "check_reachable E self contact public_addr =
     (case contact of
        None \<Rightarrow> io_ret ()
      | Some c \<Rightarrow>
          io_match (endpoint_verification E self c public_addr) (\<lambda>res w.
            case res of
              Inl error \<Rightarrow> (Inl (EndpointError.EndpointVerification (remote_address E c w) error), w)
            | Inr valid \<Rightarrow>
                (if \<not> valid then Inl (EndpointError.Unreachable public_addr) else Inr (), w)))"

definition new_peer ::
  "'w env \<Rightarrow> tls \<Rightarrow> SocketAddr \<Rightarrow> SocketAddr list \<Rightarrow> Config \<Rightarrow>
   ('w, EndpointError failure,
    Endpoint \<times> IncomingConnections \<times> (Connection \<times> ConnectionIncoming) option) io" where
  "new_peer E T local_addr contacts config0 =
     io_bind (io_of (checked_config EndpointError.Config (try_from_config T config0))) (\<lambda>config.
     io_map_err Failed (
     io_bind (bind_peer E local_addr config) (\<lambda>endpoint0.
     io_bind (io_lift (connect_to_any E endpoint0 contacts)) (\<lambda>contact.
     io_bind (resolve_public_addr E endpoint0 (ic_external_ip config) (ic_external_port config)
                (map_option fst contact)) (\<lambda>(public_addr, endpoint1).
     let endpoint = endpoint1\<lparr>ep_public_addr := Some public_addr\<rparr> in
     io_bind (forward_if_configured E endpoint config public_addr) (\<lambda>_.
     io_bind (io_lift (t_conn_channel E STANDARD_CHANNEL_SIZE)) (\<lambda>connections.
     io_bind (io_do (listen_for_incoming_connections E (quinn_endpoint endpoint) connections
                       (ep_retry_config endpoint))) (\<lambda>_.
     io_bind (check_reachable E endpoint (map_option fst contact) public_addr) (\<lambda>_.
     io_ret (endpoint, connections, contact))))))))))"

definition Endpoint_close :: "'w env \<Rightarrow> Endpoint \<Rightarrow> 'w \<Rightarrow> 'w" where
  "Endpoint_close E self w =
     q_endpoint_close E (quinn_endpoint self) 0 (into_bytes ''Endpoint closed'')
       (t_broadcast_send E (termination_tx self) w)"

end
