(* ===== verification/Addr_Parse.thy ===== *)
theory Addr_Parse
  imports Sock_Addr
begin

text \<open>
  Reading socket addresses from text, as \<open>str::parse::<SocketAddr>\<close> of the standard library does,
  and that reading inverts printing. A reader consumes a prefix of its input and returns the
  rest, or fails and leaves the input to the next alternative.
\<close>

section \<open>Readers\<close>

type_synonym 'a reader = "string \<Rightarrow> ('a \<times> string) option"

definition read_then :: "'a reader \<Rightarrow> ('a \<Rightarrow> 'b reader) \<Rightarrow> 'b reader" where
  "read_then p f s = (case p s of None \<Rightarrow> None | Some (x, rest) \<Rightarrow> f x rest)"

definition read_return :: "'a \<Rightarrow> 'a reader" where
  "read_return x s = Some (x, s)"

fun read_given_char :: "char \<Rightarrow> unit reader" where
  "read_given_char c [] = None"
| "read_given_char c (x # xs) = (if x = c then Some ((), xs) else None)"

text \<open>\<open>char::to_digit\<close>\<close>

definition to_digit :: "nat \<Rightarrow> char \<Rightarrow> nat option" where
  "to_digit radix c =
     (let n = of_char c;
          d = (if 48 \<le> n \<and> n \<le> 57 then n - 48
               else if 97 \<le> n \<and> n \<le> 122 then n - 87
               else if 65 \<le> n \<and> n \<le> 90 then n - 55 else radix) in
      if d < radix then Some d else None)"

text \<open>
  Digits are read as long as there are any; a number that does not fit the type, whose values
  are below \<open>bound\<close>, and more digits than allowed are failures.
\<close>

fun read_digits :: "nat \<Rightarrow> nat \<Rightarrow> nat option \<Rightarrow> nat \<Rightarrow> nat \<Rightarrow> (nat \<times> nat) reader" where
  "read_digits radix bound max_digits result count [] = Some ((result, count), [])"
| "read_digits radix bound max_digits result count (c # cs) =
     (case to_digit radix c of
        None \<Rightarrow> Some ((result, count), c # cs)
      | Some d \<Rightarrow>
          if result * radix + d \<ge> bound then None
          else if (case max_digits of None \<Rightarrow> False | Some m \<Rightarrow> Suc count > m) then None
          else read_digits radix bound max_digits (result * radix + d) (Suc count) cs)"

definition read_number :: "nat \<Rightarrow> nat \<Rightarrow> nat option \<Rightarrow> bool \<Rightarrow> nat reader" where
  "read_number radix bound max_digits allow_zero_prefix s =
     (let has_leading_zero = (s \<noteq> [] \<and> hd s = CHR ''0'') in
      read_then (read_digits radix bound max_digits 0 0) (\<lambda>(result, count) rest.
        if count = 0 then None
        else if \<not> allow_zero_prefix \<and> has_leading_zero \<and> count > 1 then None
        else Some (result, rest)) s)"

definition read_separator :: "char \<Rightarrow> nat \<Rightarrow> 'a reader \<Rightarrow> 'a reader" where
  "read_separator sep index inner =
     (if index > 0 then read_then (read_given_char sep) (\<lambda>_. inner) else inner)"

section \<open>Addresses\<close>

definition read_octet :: "nat \<Rightarrow> u8 reader" where
  "read_octet i =
     read_separator (CHR ''.'') i (read_then (read_number 10 256 (Some 3) False) (\<lambda>n. read_return (of_nat n)))"

definition read_ipv4_addr :: "Ipv4Addr reader" where
  "read_ipv4_addr =
     read_then (read_octet 0) (\<lambda>a. read_then (read_octet 1) (\<lambda>b.
     read_then (read_octet 2) (\<lambda>c. read_then (read_octet 3) (\<lambda>d. read_return (Ipv4 a b c d)))))"

text \<open>
  The groups of an IPv6 address, from index \<open>i\<close> on, at most up to \<open>limit\<close> of them, and whether
  they end with an embedded IPv4 address. It never fails: it stops at the first group it cannot read.
\<close>

definition u16_from_be :: "u8 \<Rightarrow> u8 \<Rightarrow> u16" where
  "u16_from_be hi lo = ucast hi * 256 + ucast lo"

function read_groups :: "nat \<Rightarrow> nat \<Rightarrow> string \<Rightarrow> (u16 list \<times> bool) \<times> string" where
  "read_groups limit i s =
     (if limit \<le> i then (([], False), s)
      else case (if Suc i < limit then read_separator (CHR '':'') i read_ipv4_addr s else None) of
        Some (Ipv4 a b c d, rest) \<Rightarrow> (([u16_from_be a b, u16_from_be c d], True), rest)
      | None \<Rightarrow>
          (case read_separator (CHR '':'') i (read_number 16 65536 (Some 4) True) s of
             None \<Rightarrow> (([], False), s)
           | Some (g, rest) \<Rightarrow>
               (case read_groups limit (Suc i) rest of
                  ((gs, ipv4), rest') \<Rightarrow> ((of_nat g # gs, ipv4), rest'))))"
  by pat_completeness auto
termination by (relation "measure (\<lambda>(limit, i, s). limit - i)") auto

declare read_groups.simps [simp del]

fun from_segments :: "u16 list \<Rightarrow> Ipv6Addr" where
  "from_segments [a, b, c, d, e, f, g, h] = Ipv6 a b c d e f g h"
| "from_segments _ = Ipv6 0 0 0 0 0 0 0 0"

definition read_ipv6_addr :: "Ipv6Addr reader" where
  "read_ipv6_addr s =
     (case read_groups 8 0 s of
        ((head, head_ipv4), rest) \<Rightarrow>
          if length head = 8 then Some (from_segments head, rest)
          else if head_ipv4 then None
          else read_then (read_given_char (CHR '':'')) (\<lambda>_. read_then (read_given_char (CHR '':'')) (\<lambda>_ rest2.
            case read_groups (8 - (length head + 1)) 0 rest2 of
              ((tail, tail_ipv4), rest3) \<Rightarrow>
                Some (from_segments (head @ replicate (8 - length head - length tail) 0 @ tail), rest3))) rest)"

definition read_port :: "u16 reader" where
  "read_port = read_then (read_given_char (CHR '':'')) (\<lambda>_.
     read_then (read_number 10 65536 None True) (\<lambda>n. read_return (of_nat n)))"

definition read_scope_id :: "u32 reader" where
  "read_scope_id = read_then (read_given_char (CHR ''%'')) (\<lambda>_.
     read_then (read_number 10 (2 ^ 32) None True) (\<lambda>n. read_return (of_nat n)))"

definition read_socket_addr_v4 :: "SocketAddr reader" where
  "read_socket_addr_v4 = read_then read_ipv4_addr (\<lambda>ip. read_then read_port (\<lambda>port. read_return (V4 ip port)))"

definition read_socket_addr_v6 :: "SocketAddr reader" where
  "read_socket_addr_v6 =
     read_then (read_given_char (CHR ''['')) (\<lambda>_. read_then read_ipv6_addr (\<lambda>ip s.
       (case (case read_scope_id s of None \<Rightarrow> (0, s) | Some r \<Rightarrow> r) of
          (scope, s1) \<Rightarrow>
            read_then (read_given_char (CHR '']'')) (\<lambda>_. read_then read_port (\<lambda>port.
              read_return (V6 ip port 0 scope))) s1)))"

text \<open>The whole text must be used up.\<close>

definition parse_socket_addr :: "string \<Rightarrow> SocketAddr option" where
  "parse_socket_addr s =
     (case (case read_socket_addr_v4 s of None \<Rightarrow> read_socket_addr_v6 s | Some r \<Rightarrow> Some r) of
        Some (addr, []) \<Rightarrow> Some addr
      | _ \<Rightarrow> None)"

section \<open>Reading numbers back\<close>

definition no_digit :: "nat \<Rightarrow> string \<Rightarrow> bool" where
  "no_digit radix s \<longleftrightarrow> s = [] \<or> to_digit radix (hd s) = None"

lemma read_digits_end: "no_digit radix s \<Longrightarrow> read_digits radix bound mx r k s = Some ((r, k), s)"
  by (cases s) (auto simp: no_digit_def)

lemma to_digit_dec_digit [simp]: "d < 10 \<Longrightarrow> to_digit 10 (dec_digit d) = Some d"
  by (simp add: to_digit_def dec_digit_def)

lemma to_digit_hex_digit [simp]: "d < 16 \<Longrightarrow> to_digit 16 (hex_digit d) = Some d"
  by (simp add: to_digit_def hex_digit_def)

lemma read_digits_show_nat:
  "n < bound \<Longrightarrow> (\<And>m. mx = Some m \<Longrightarrow> length (show_nat n) \<le> m) \<Longrightarrow>
   read_digits 10 bound mx 0 0 (show_nat n @ rest) = read_digits 10 bound mx n (length (show_nat n)) rest"
proof (induction n arbitrary: rest rule: show_nat.induct)
  case (1 n)
  show ?case
  proof (cases "n < 10")
    case True
    with 1(2,3) show ?thesis by (auto simp: show_nat.simps [of n] split: option.splits)
  next
    case False
    with 1(3) have len: "Suc (length (show_nat (n div 10))) \<le> m" if "mx = Some m" for m
      using that by (simp add: show_nat.simps [of n])
    then have "length (show_nat (n div 10)) \<le> m" if "mx = Some m" for m
      using that by (simp add: Suc_leD)
    from 1(1) [OF False _ this, of "dec_digit (n mod 10) # rest"] 1(2) False len show ?thesis
      by (auto simp: show_nat.simps [of n] split: option.splits)
  qed
qed

lemma read_digits_show_hex:
  "n < bound \<Longrightarrow> (\<And>m. mx = Some m \<Longrightarrow> length (show_hex n) \<le> m) \<Longrightarrow>
   read_digits 16 bound mx 0 0 (show_hex n @ rest) = read_digits 16 bound mx n (length (show_hex n)) rest"
proof (induction n arbitrary: rest rule: show_hex.induct)
  case (1 n)
  show ?case
  proof (cases "n < 16")
    case True
    with 1(2,3) show ?thesis by (auto simp: show_hex.simps [of n] split: option.splits)
  next
    case False
    with 1(3) have len: "Suc (length (show_hex (n div 16))) \<le> m" if "mx = Some m" for m
      using that by (simp add: show_hex.simps [of n])
    then have "length (show_hex (n div 16)) \<le> m" if "mx = Some m" for m
      using that by (simp add: Suc_leD)
    from 1(1) [OF False _ this, of "hex_digit (n mod 16) # rest"] 1(2) False len show ?thesis
      by (auto simp: show_hex.simps [of n] split: option.splits)
  qed
qed

lemma length_show_nat: "n < 10 ^ k \<Longrightarrow> 0 < k \<Longrightarrow> length (show_nat n) \<le> k"
proof (induction n arbitrary: k rule: show_nat.induct)
  case (1 n)
  show ?case
  proof (cases "n < 10")
    case False
    with 1(2,3) obtain j where "k = Suc j" "0 < j" by (cases k; cases "k = 1") auto
    with 1(1) [OF False, of j] 1(2) False show ?thesis by (simp add: show_nat.simps [of n])
  qed (use 1(3) in \<open>simp add: show_nat.simps [of n]\<close>)
qed

lemma length_show_hex: "n < 16 ^ k \<Longrightarrow> 0 < k \<Longrightarrow> length (show_hex n) \<le> k"
proof (induction n arbitrary: k rule: show_hex.induct)
  case (1 n)
  show ?case
  proof (cases "n < 16")
    case False
    with 1(2,3) obtain j where "k = Suc j" "0 < j" by (cases k; cases "k = 1") auto
    with 1(1) [OF False, of j] 1(2) False show ?thesis by (simp add: show_hex.simps [of n])
  qed (use 1(3) in \<open>simp add: show_hex.simps [of n]\<close>)
qed

lemma show_hex_not_Nil [simp]: "show_hex n \<noteq> []"
  by (subst show_hex.simps) simp

lemma dec_digit_zero: "d < 10 \<Longrightarrow> dec_digit d = CHR ''0'' \<Longrightarrow> d = 0"
  using to_digit_dec_digit [of d] by (simp add: to_digit_def)

lemma hd_show_nat: "0 < n \<Longrightarrow> hd (show_nat n) \<noteq> CHR ''0''"
proof (induction n rule: show_nat.induct)
  case (1 n)
  then show ?case
    using dec_digit_zero [of n] by (cases "n < 10") (auto simp: show_nat.simps [of n])
qed

lemma read_number_show_nat:
  assumes "n < bound" "\<And>m. mx = Some m \<Longrightarrow> length (show_nat n) \<le> m" "no_digit 10 rest"
  shows "read_number 10 bound mx allow (show_nat n @ rest) = Some (n, rest)"
proof -
  have "length (show_nat n) \<le> 1" if "hd (show_nat n @ rest) = CHR ''0''"
    using that hd_show_nat [of n] by (cases "n = 0") (auto simp: show_nat.simps [of 0])
  then show ?thesis
    using read_digits_show_nat [OF assms(1,2), of mx rest] read_digits_end [OF assms(3)]
    by (auto simp: read_number_def read_then_def Let_def)
qed

lemma read_number_show_hex:
  assumes "n < 65536" "no_digit 16 rest"
  shows "read_number 16 65536 (Some 4) True (show_hex n @ rest) = Some (n, rest)"
  using read_digits_show_hex [of n 65536 "Some 4" rest] length_show_hex [of n 4] read_digits_end [OF assms(2)] assms(1)
  by (auto simp: read_number_def read_then_def Let_def)

section \<open>Reading IPv4 addresses back\<close>

lemma no_digit_char [simp]:
  "no_digit 10 (CHR ''.'' # s)" "no_digit 10 (CHR '':'' # s)" "no_digit 10 (CHR '']'' # s)" "no_digit 10 []"
  "no_digit 16 (CHR '':'' # s)" "no_digit 16 (CHR '']'' # s)" "no_digit 16 (CHR ''%'' # s)" "no_digit 16 []"
  by (simp_all add: no_digit_def to_digit_def)

lemma read_octet_show:
  assumes "no_digit 10 rest"
  shows "read_octet 0 (show_nat (unat a) @ rest) = Some (a, rest)"
    and "0 < i \<Longrightarrow> read_octet i (CHR ''.'' # show_nat (unat a) @ rest) = Some (a, rest)"
proof -
  have "unat a < 256" using unsigned_less [of a] by simp
  then have "length (show_nat (unat a)) \<le> 3" by (intro length_show_nat) simp_all
  with \<open>unat a < 256\<close> have "read_number 10 256 (Some 3) False (show_nat (unat a) @ rest) = Some (unat a, rest)"
    using assms by (intro read_number_show_nat) auto
  then show "read_octet 0 (show_nat (unat a) @ rest) = Some (a, rest)"
    "0 < i \<Longrightarrow> read_octet i (CHR ''.'' # show_nat (unat a) @ rest) = Some (a, rest)"
    by (simp_all add: read_octet_def read_separator_def read_then_def read_return_def)
qed

lemma read_ipv4_show:
  assumes "no_digit 10 rest"
  shows "read_ipv4_addr (show_ipv4 ip @ rest) = Some (ip, rest)"
  using assms by (cases ip) (simp add: read_ipv4_addr_def read_then_def read_return_def read_octet_show)

lemma read_port_show: "read_port (CHR '':'' # show_nat (unat (p :: u16))) = Some (p, [])"
proof -
  have "unat p < 65536" using unsigned_less [of p] by simp
  then show ?thesis
    using read_number_show_nat [of "unat p" 65536 None "[]" True] by (simp add: read_port_def read_then_def read_return_def)
qed

lemma parse_show_v4: "parse_socket_addr (show_addr (V4 ip port)) = Some (V4 ip port)"
proof -
  have "read_ipv4_addr (show_ipv4 ip @ CHR '':'' # show_nat (unat port)) = Some (ip, CHR '':'' # show_nat (unat port))"
    by (rule read_ipv4_show) simp
  then show ?thesis
    by (simp add: parse_socket_addr_def read_socket_addr_v4_def read_then_def read_port_show read_return_def)
qed

section \<open>Reading IPv6 addresses back\<close>

text \<open>A hexadecimal group is not taken for the start of an embedded IPv4 address.\<close>

lemma read_digits_rest:
  "read_digits radix bound mx r k s = Some (p, rest) \<Longrightarrow> rest = dropWhile (\<lambda>c. to_digit radix c \<noteq> None) s"
  by (induction radix bound mx r k s rule: read_digits.induct) (auto split: option.splits if_splits)

lemma show_hex_digits: "c \<in> set (show_hex n) \<Longrightarrow> \<exists>d < 16. c = hex_digit d"
proof (induction n rule: show_hex.induct)
  case (1 n)
  then show ?case
    by (subst (asm) (2) show_hex.simps) (auto split: if_splits intro: exI [of _ "n mod 16"])
qed

lemma no_dot_in_hex: "CHR ''.'' \<notin> set (show_hex n)"
proof
  assume "CHR ''.'' \<in> set (show_hex n)"
  then obtain d where "d < 16" "hex_digit d = CHR ''.''" using show_hex_digits by metis
  with to_digit_hex_digit [of d] show False by (simp add: to_digit_def)
qed

lemma read_ipv4_hex:
  assumes "rest = [] \<or> hd rest \<noteq> CHR ''.''" "no_digit 10 rest"
  shows "read_ipv4_addr (show_hex n @ rest) = None"
proof (cases "read_octet 0 (show_hex n @ rest)")
  case None
  then show ?thesis by (simp add: read_ipv4_addr_def read_then_def)
next
  case (Some x)
  then obtain a s where "read_octet 0 (show_hex n @ rest) = Some (a, s)" by (cases x) auto
  then have s: "s = dropWhile (\<lambda>c. to_digit 10 c \<noteq> None) (show_hex n @ rest)"
    by (auto simp: read_octet_def read_separator_def read_number_def read_then_def read_return_def Let_def
        dest: read_digits_rest split: option.splits if_splits)
  have "s = [] \<or> hd s \<noteq> CHR ''.''"
  proof (cases "\<forall>c \<in> set (show_hex n). to_digit 10 c \<noteq> None")
    case True
    then have "s = dropWhile (\<lambda>c. to_digit 10 c \<noteq> None) rest" using s by (simp add: dropWhile_append2)
    with assms show ?thesis by (cases rest) (auto simp: no_digit_def)
  next
    case False
    then obtain c where c: "c \<in> set (show_hex n)" "to_digit 10 c = None" by auto
    then have "s = dropWhile (\<lambda>c. to_digit 10 c \<noteq> None) (show_hex n) @ rest"
      using s dropWhile_append1 [of c "show_hex n" "\<lambda>c. to_digit 10 c \<noteq> None" rest] by simp
    moreover have "dropWhile (\<lambda>c. to_digit 10 c \<noteq> None) (show_hex n) \<noteq> []" using c by auto
    ultimately have "hd s \<in> set (show_hex n)"
      by (metis hd_append2 hd_in_set set_dropWhileD)
    with no_dot_in_hex [of n] show ?thesis by auto
  qed
  then have "read_octet 1 s = None"
    by (cases s) (auto simp: read_octet_def read_separator_def read_then_def)
  with \<open>read_octet 0 (show_hex n @ rest) = Some (a, s)\<close> show ?thesis
    by (simp add: read_ipv4_addr_def read_then_def)
qed

text \<open>What follows a group: another one, the gap, or the end of the address.\<close>

definition group_end :: "string \<Rightarrow> bool" where
  "group_end s \<longleftrightarrow> s \<noteq> [] \<and> hd s \<in> {CHR '':'', CHR '']'', CHR ''%''}"

definition groups_end :: "string \<Rightarrow> bool" where
  "groups_end s \<longleftrightarrow> s \<noteq> [] \<and> (hd s \<in> {CHR '']'', CHR ''%''} \<or> (\<exists>t. s = CHR '':'' # CHR '':'' # t))"

lemma groups_end_group: "groups_end s \<Longrightarrow> group_end s"
  by (auto simp: groups_end_def group_end_def)

lemma group_end_digits:
  assumes "group_end s"
  shows "no_digit 10 s" "no_digit 16 s" "hd s \<noteq> CHR ''.''"
  using assms by (auto simp: group_end_def no_digit_def to_digit_def)

lemma number_fails: "no_digit radix s \<Longrightarrow> read_number radix bound mx allow s = None"
  by (simp add: read_number_def read_then_def read_digits_end Let_def)

lemma ipv4_fails: "no_digit 10 s \<Longrightarrow> read_ipv4_addr s = None"
  by (simp add: read_ipv4_addr_def read_octet_def read_separator_def read_then_def number_fails)

lemma read_groups_stop:
  assumes "groups_end s"
  shows "read_groups limit i s = (([], False), s)"
proof -
  note d = group_end_digits [OF groups_end_group [OF assms]]
  show ?thesis
  proof (cases "\<exists>t. s = CHR '':'' # CHR '':'' # t")
    case True
    with d show ?thesis
      by (auto simp: read_groups.simps [of limit i] read_separator_def read_then_def number_fails ipv4_fails)
  next
    case False
    with assms obtain c t where "s = c # t" "c \<noteq> CHR '':''" by (cases s) (auto simp: groups_end_def)
    with d show ?thesis
      by (auto simp: read_groups.simps [of limit i] read_separator_def read_then_def number_fails ipv4_fails)
  qed
qed

lemma read_groups_show:
  assumes "i + length (x # xs) \<le> limit" "group_end rest"
  shows "read_groups limit i ((if i = 0 then [] else '':'') @ show_segments (x # xs) @ rest) =
    (case read_groups limit (i + length (x # xs)) rest of ((gs, v4), s) \<Rightarrow> ((x # xs @ gs, v4), s))"
  using assms(1)
proof (induction xs arbitrary: i x)
  case (Cons y ys)
  have ih: "read_groups limit (Suc i) (CHR '':'' # show_segments (y # ys) @ rest) =
      (case read_groups limit (Suc i + length (y # ys)) rest of ((gs, v4), s) \<Rightarrow> ((y # ys @ gs, v4), s))"
    using Cons.IH [of "Suc i" y] Cons.prems by simp
  have lt: "unat x < 65536" using unsigned_less [of x] by simp
  have *: "show_segments (x # y # ys) @ rest = show_hex (unat x) @ CHR '':'' # show_segments (y # ys) @ rest"
    by (simp add: show_segments_def)
  have "read_ipv4_addr (show_segments (x # y # ys) @ rest) = None"
    "read_number 16 65536 (Some 4) True (show_segments (x # y # ys) @ rest) =
       Some (unat x, CHR '':'' # show_segments (y # ys) @ rest)"
    unfolding * using lt by (simp_all add: read_ipv4_hex read_number_show_hex)
  with ih Cons.prems show ?case
    by (subst read_groups.simps) (auto simp: read_separator_def read_then_def split: prod.splits)
next
  case Nil
  have lt: "unat x < 65536" using unsigned_less [of x] by simp
  have *: "show_segments [x] @ rest = show_hex (unat x) @ rest" by (simp add: show_segments_def)
  have "read_ipv4_addr (show_segments [x] @ rest) = None"
    "read_number 16 65536 (Some 4) True (show_segments [x] @ rest) = Some (unat x, rest)"
    unfolding * using lt group_end_digits [OF assms(2)] by (simp_all add: read_ipv4_hex read_number_show_hex)
  with Nil show ?case
    by (subst read_groups.simps) (auto simp: read_separator_def read_then_def split: prod.splits)
qed

text \<open>So reading the groups of a part of an address gives that part.\<close>

lemma read_groups_part:
  assumes "length ss \<le> limit" "groups_end rest"
  shows "read_groups limit 0 (show_segments ss @ rest) = ((ss, False), rest)"
proof (cases ss)
  case Nil
  with read_groups_stop [OF assms(2)] show ?thesis by (simp add: show_segments_def)
next
  case (Cons x xs)
  with read_groups_show [of 0 x xs limit rest] assms read_groups_stop [OF assms(2)] groups_end_group show ?thesis
    by simp
qed

text \<open>The run of zeros that printing leaves out.\<close>

lemma longest_zeros_sound:
  assumes "longest_zeros (length pre) cur best ss = (st, len)"
    and "snd cur \<le> length pre \<and> (snd cur > 0 \<longrightarrow> fst cur + snd cur = length pre \<and>
           (\<forall>j. fst cur \<le> j \<and> j < length pre \<longrightarrow> pre ! j = 0))"
    and "fst best + snd best \<le> length pre \<and> (\<forall>j. fst best \<le> j \<and> j < fst best + snd best \<longrightarrow> pre ! j = 0)"
  shows "st + len \<le> length (pre @ ss) \<and> (\<forall>j. st \<le> j \<and> j < st + len \<longrightarrow> (pre @ ss) ! j = 0)"
  using assms
proof (induction "length pre" cur best ss arbitrary: pre rule: longest_zeros.induct)
  case (1 cur best)
  then show ?case by auto
next
  case (2 cur best s ss)
  show ?case
  proof (cases "s = 0")
    case True
    let ?cur = "((if snd cur = 0 then length pre else fst cur), Suc (snd cur))"
    let ?best = "if snd ?cur > snd best then ?cur else best"
    have run: "longest_zeros (length (pre @ [s])) ?cur ?best ss = (st, len)"
      using 2(3) True by (simp add: Let_def)
    have cur: "snd ?cur \<le> length (pre @ [s]) \<and> (snd ?cur > 0 \<longrightarrow> fst ?cur + snd ?cur = length (pre @ [s]) \<and>
           (\<forall>j. fst ?cur \<le> j \<and> j < length (pre @ [s]) \<longrightarrow> (pre @ [s]) ! j = 0))"
      using 2(4) True by (auto simp: nth_append less_Suc_eq)
    have "fst ?best + snd ?best \<le> length (pre @ [s]) \<and>
        (\<forall>j. fst ?best \<le> j \<and> j < fst ?best + snd ?best \<longrightarrow> (pre @ [s]) ! j = 0)"
      using 2(5) cur by (auto simp: nth_append)
    from 2(1) [OF True refl _ run cur this] show ?thesis by simp
  next
    case False
    have run: "longest_zeros (length (pre @ [s])) (0, 0) best ss = (st, len)" using 2(3) False by simp
    have "fst best + snd best \<le> length (pre @ [s]) \<and>
        (\<forall>j. fst best \<le> j \<and> j < fst best + snd best \<longrightarrow> (pre @ [s]) ! j = 0)"
      using 2(5) by (auto simp: nth_append)
    from 2(2) [OF False _ run _ this] show ?thesis by simp
  qed
qed

lemma zeros_between:
  assumes "st + len \<le> length ss" "\<forall>j. st \<le> j \<and> j < st + len \<longrightarrow> ss ! j = 0"
  shows "take st ss @ replicate len 0 @ drop (st + len) ss = ss"
proof -
  have "take len (drop st ss) = replicate len 0"
    using assms by (intro nth_equalityI) auto
  then show ?thesis
    by (metis append_take_drop_id drop_drop add.commute)
qed

lemma from_segments_segments [simp]: "from_segments (segments ip) = ip"
  by (cases ip) simp

lemma length_segments [simp]: "length (segments ip) = 8"
  by (cases ip) simp

lemma u16_from_be_split: "u16_from_be (ucast (drop_bit 8 g)) (ucast g) = g"
proof (rule unsigned_word_eqI)
  have g: "unat g < 65536" using unsigned_less [of g] by simp
  then have "unat (drop_bit 8 g) = unat g div 256" "unat g div 256 < 256"
    by (auto simp: drop_bit_eq_div unat_div)
  with g show "unat (u16_from_be (ucast (drop_bit 8 g)) (ucast g)) = unat g"
    by (simp add: u16_from_be_def unat_word_ariths unsigned_ucast_eq take_bit_eq_mod)
qed

lemma read_ipv6_mapped:
  assumes "no_digit 10 rest"
  shows "read_ipv6_addr (''::ffff:'' @ show_ipv4 (Ipv4 a b c d) @ rest) =
    Some (Ipv6 0 0 0 0 0 0xffff (u16_from_be a b) (u16_from_be c d), rest)"
proof -
  let ?v4 = "show_ipv4 (Ipv4 a b c d) @ rest"
  have stop: "read_groups 8 0 (CHR '':'' # CHR '':'' # s) = (([], False), CHR '':'' # CHR '':'' # s)" for s
    by (rule read_groups_stop) (simp add: groups_end_def)
  have "hex_digit 15 = CHR ''f''" by code_simp
  then have ffff: "show_hex 65535 = ''ffff''"
    by (simp add: show_hex.simps [of 65535] show_hex.simps [of 4095] show_hex.simps [of 255] show_hex.simps [of 15])
  have "read_groups 7 0 (show_segments [0xffff] @ CHR '':'' # ?v4) =
      (case read_groups 7 1 (CHR '':'' # ?v4) of ((gs, v4), s) \<Rightarrow> ((0xffff # gs, v4), s))"
    using read_groups_show [of 0 "0xffff" "[]" 7 "CHR '':'' # ?v4"] by (simp add: group_end_def)
  moreover have "read_groups 7 1 (CHR '':'' # ?v4) = (([u16_from_be a b, u16_from_be c d], True), rest)"
    using read_ipv4_show [OF assms, of "Ipv4 a b c d"]
    by (simp add: read_groups.simps [of 7 "Suc 0"] read_separator_def read_then_def)
  ultimately have tail: "read_groups 7 0 (''ffff:'' @ ?v4) = ((0xffff # [u16_from_be a b, u16_from_be c d], True), rest)"
    by (simp add: show_segments_def ffff)
  have "read_ipv6_addr (''::'' @ ''ffff:'' @ ?v4) =
      Some (Ipv6 0 0 0 0 0 0xffff (u16_from_be a b) (u16_from_be c d), rest)"
    using stop [of "''ffff:'' @ ?v4"] tail
    by (simp add: read_ipv6_addr_def read_then_def numeral_eq_Suc)
  then show ?thesis by simp
qed

lemma read_ipv6_gap:
  assumes "st + len \<le> length (segments ip)" "1 < len" "\<forall>j. st \<le> j \<and> j < st + len \<longrightarrow> segments ip ! j = 0"
    "groups_end rest"
  shows "read_ipv6_addr (show_segments (take st (segments ip)) @ ''::'' @ show_segments (drop (st + len) (segments ip)) @ rest) =
    Some (ip, rest)"
proof -
  let ?ss = "segments ip" and ?tail = "show_segments (drop (st + len) (segments ip)) @ rest"
  have "read_groups 8 0 (show_segments (take st ?ss) @ ''::'' @ ?tail) = ((take st ?ss, False), ''::'' @ ?tail)"
    by (rule read_groups_part) (use assms(1) in \<open>simp_all add: groups_end_def\<close>)
  moreover have "read_groups (8 - (st + 1)) 0 ?tail = ((drop (st + len) ?ss, False), rest)"
    by (rule read_groups_part) (use assms in simp_all)
  moreover have "take st ?ss @ replicate (8 - st - (8 - (st + len))) 0 @ drop (st + len) ?ss = ?ss"
    using zeros_between [OF assms(1,3)] assms(1) by simp
  ultimately show ?thesis
    using assms(1,2) by (simp add: read_ipv6_addr_def read_then_def min_absorb2)
qed

lemma read_ipv6_show:
  assumes "groups_end rest" "hd rest \<noteq> CHR '':''"
  shows "read_ipv6_addr (show_ipv6 ip @ rest) = Some (ip, rest)"
proof (cases "take 6 (segments ip) = [0, 0, 0, 0, 0, 0xffff]")
  case True
  then obtain g h where ip: "ip = Ipv6 0 0 0 0 0 0xffff g h" by (cases ip) (auto simp: numeral_eq_Suc)
  have "no_digit 10 rest" by (rule group_end_digits(1) [OF groups_end_group [OF assms(1)]])
  from read_ipv6_mapped [OF this] show ?thesis
    by (simp add: ip show_ipv6_def Let_def u16_from_be_split)
next
  case False
  obtain st len where z: "longest_zeros 0 (0, 0) (0, 0) (segments ip) = (st, len)" by fastforce
  from longest_zeros_sound [of "[]" "(0, 0)" "(0, 0)" "segments ip" st len] z
  have gap: "st + len \<le> length (segments ip)" "\<forall>j. st \<le> j \<and> j < st + len \<longrightarrow> segments ip ! j = 0" by simp_all
  show ?thesis
  proof (cases "1 < len")
    case True
    with read_ipv6_gap [OF gap(1) True gap(2) assms(1)] False z show ?thesis by (simp add: show_ipv6_def Let_def)
  next
    case full: False
    have "read_groups 8 0 (show_segments (segments ip) @ rest) = ((segments ip, False), rest)"
      by (rule read_groups_part [OF _ assms(1)]) simp
    with False z full show ?thesis by (simp add: show_ipv6_def Let_def read_ipv6_addr_def)
  qed
qed

section \<open>Reading socket addresses back\<close>

text \<open>The flow label of an IPv6 address is not printed.\<close>

fun without_flow :: "SocketAddr \<Rightarrow> SocketAddr" where
  "without_flow (V4 ip port) = V4 ip port"
| "without_flow (V6 ip port flow scope) = V6 ip port 0 scope"

lemma read_scope_show:
  "read_scope_id (CHR ''%'' # show_nat (unat scope) @ CHR '']'' # s) = Some (scope, CHR '']'' # s)"
proof -
  have "unat scope < 2 ^ 32" using unsigned_less [of scope] by simp
  then have "read_number 10 (2 ^ 32) None True (show_nat (unat scope) @ CHR '']'' # s) = Some (unat scope, CHR '']'' # s)"
    by (intro read_number_show_nat) auto
  then show ?thesis by (simp add: read_scope_id_def read_then_def read_return_def)
qed

lemma parse_show_addr: "parse_socket_addr (show_addr a) = Some (without_flow a)"
proof (cases a)
  case (V4 ip port)
  with parse_show_v4 show ?thesis by simp
next
  case (V6 ip port flow scope)
  let ?tail = "CHR '']'' # CHR '':'' # show_nat (unat port)"
  let ?scope = "if scope = 0 then [] else ''%'' @ show_nat (unat scope)"
  have "no_digit 10 (CHR ''['' # s)" for s by (simp add: no_digit_def to_digit_def)
  then have "read_socket_addr_v4 (CHR ''['' # s) = None" for s
    by (simp add: read_socket_addr_v4_def read_then_def ipv4_fails)
  moreover have "read_socket_addr_v6 (CHR ''['' # show_ipv6 ip @ ?scope @ ?tail) = Some (V6 ip port 0 scope, [])"
  proof -
    have "read_ipv6_addr (show_ipv6 ip @ ?scope @ ?tail) = Some (ip, ?scope @ ?tail)"
      by (rule read_ipv6_show) (simp_all add: groups_end_def)
    moreover have "(case read_scope_id (?scope @ ?tail) of None \<Rightarrow> (0, ?scope @ ?tail) | Some r \<Rightarrow> r) = (scope, ?tail)"
      using read_scope_show [of scope "CHR '':'' # show_nat (unat port)"] by (simp add: read_scope_id_def read_then_def)
    moreover have "read_port (CHR '':'' # show_nat (unat port)) = Some (port, [])" by (rule read_port_show)
    ultimately show ?thesis
      unfolding read_socket_addr_v6_def read_then_def by (simp only: read_given_char.simps option.case prod.case) (simp add: read_return_def)
  qed
  moreover have "show_addr a = CHR ''['' # show_ipv6 ip @ ?scope @ ?tail" by (simp add: V6)
  ultimately show ?thesis unfolding parse_socket_addr_def by (simp add: V6)
qed

end
