(* ===== verification/Node.thy ===== *)
theory Node
  imports Endpoint Addr_Parse
begin

text \<open>
  The example node (\<open>examples/p2p_node.rs\<close>): it sends \<open>marco\<close> to the peers named on its command
  line, and then serves the connections that come in, answering \<open>marco\<close> with \<open>polo\<close>.

  The state is that of the program's environment together with the lines printed so far. What
  is not in the sources is a parameter: \<open>color_eyre::install\<close> and the \<open>Debug\<close> text of \<open>Bytes\<close>.
\<close>

section \<open>Errors and output\<close>

typedecl eyre_InstallError

text \<open>\<open>eyre::Report\<close>, with the errors that \<open>?\<close> turns into one.\<close>

datatype Report =
    R_Install eyre_InstallError
  | R_Endpoint EndpointError
  | R_Connection ConnectionError
  | R_Send SendError
  | R_Recv RecvError
  | R_AddrParse

type_synonym ('w, 'a) node_io = "('w \<times> string list, Report failure, 'a) io"

definition println :: "string \<Rightarrow> ('w \<times> string list, 'e, unit) io" where
  "println line = io_do (\<lambda>(w, out). (w, out @ [line]))"

definition with_net :: "('e \<Rightarrow> Report) \<Rightarrow> ('w, 'e, 'a) io \<Rightarrow> ('w, 'a) node_io" where
  "with_net report m x =
     (case m (fst x) of
        (Inl e, w') \<Rightarrow> (Inl (Failed (report e)), (w', snd x))
      | (Inr r, w') \<Rightarrow> (Inr r, (w', snd x)))"

fun report_failure :: "EndpointError failure \<Rightarrow> Report failure" where
  "report_failure Panicked = Panicked"
| "report_failure (Failed e) = Failed (R_Endpoint e)"

section \<open>Greeting the peers\<close>

definition MSG_MARCO :: string where
  "MSG_MARCO = ''marco''"

definition MSG_POLO :: string where
  "MSG_POLO = ''polo''"

text \<open>\<open>arg.parse().expect(..)\<close>\<close>

definition parse_peer :: "string \<Rightarrow> Report failure + SocketAddr" where
  "parse_peer arg = (case parse_socket_addr arg of None \<Rightarrow> Inl Panicked | Some peer \<Rightarrow> Inr peer)"

definition greet_peer ::
  "'w env \<Rightarrow> (bytes \<Rightarrow> string) \<Rightarrow> Endpoint \<Rightarrow> string \<Rightarrow> ('w, unit) node_io" where
  "greet_peer E show_bytes node arg =
     io_bind (io_of (parse_peer arg)) (\<lambda>peer.
     let msg = into_bytes MSG_MARCO in
     io_bind (println (''Sending to '' @ show_addr peer @ '' --> '' @ show_bytes msg @ [CHR 0x0A])) (\<lambda>_.
     io_bind (with_net R_Connection (connect_to E node peer)) (\<lambda>(connection, _).
       with_net R_Send (send E connection msg))))"

fun greet_all :: "'w env \<Rightarrow> (bytes \<Rightarrow> string) \<Rightarrow> Endpoint \<Rightarrow> string list \<Rightarrow> ('w, unit) node_io" where
  "greet_all E show_bytes node [] = io_ret ()"
| "greet_all E show_bytes node (arg # args) =
     io_bind (greet_peer E show_bytes node arg) (\<lambda>_. greet_all E show_bytes node args)"

section \<open>Starting\<close>

text \<open>\<open>args\<close> starts with the name of the program.\<close>

definition node_config :: Config where
  "node_config = Config_default\<lparr>cfg_idle_timeout := Some (from_secs (60 * 60))\<rparr>"

definition create_peer ::
  "'w env \<Rightarrow> tls \<Rightarrow> SocketAddr \<Rightarrow> SocketAddr list \<Rightarrow> Config
   \<Rightarrow> ('w, Endpoint \<times> IncomingConnections \<times> (Connection \<times> ConnectionIncoming) option) node_io" where
  "create_peer E T local_addr contacts config x =
     (case new_peer E T local_addr contacts config (fst x) of
        (r, w') \<Rightarrow> (map_sum report_failure id r, (w', snd x)))"

definition start_node ::
  "'w env \<Rightarrow> tls \<Rightarrow> ('w, eyre_InstallError, unit) io \<Rightarrow> (bytes \<Rightarrow> string) \<Rightarrow> string list
   \<Rightarrow> ('w, Endpoint \<times> IncomingConnections) node_io" where
  "start_node E T install show_bytes args =
     io_bind (with_net R_Install install) (\<lambda>_.
     io_bind (create_peer E T (V4 (Ipv4 127 0 0 1) 0) [] node_config) (\<lambda>(node, incoming_conns, contact).
     io_bind (if length args > 1
              then io_bind (greet_all E show_bytes node (drop 1 args)) (\<lambda>_. println ''Done sending'')
              else io_ret ()) (\<lambda>_.
     io_bind (println (CHR 0x0A # ''---'')) (\<lambda>_.
     io_bind (println (''Listening on: '' @ show_addr (Endpoint_public_addr node))) (\<lambda>_.
     io_bind (println (''---'' @ [CHR 0x0A])) (\<lambda>_.
     io_ret (node, incoming_conns)))))))"

section \<open>Serving\<close>

text \<open>One round of the loop over the messages of a connection: whether there was a message.\<close>

definition serve_message ::
  "'w env \<Rightarrow> (bytes \<Rightarrow> string) \<Rightarrow> Connection \<Rightarrow> ConnectionIncoming \<Rightarrow> SocketAddr \<Rightarrow> ('w, bool) node_io" where
  "serve_message E show_bytes connection incoming_messages src =
     io_bind (with_net R_Recv (ConnectionIncoming_next E incoming_messages)) (\<lambda>res.
       case res of
         None \<Rightarrow> io_ret False
       | Some msg \<Rightarrow>
           io_bind (println (''Received from '' @ show_addr src @ '' --> '' @ show_bytes msg)) (\<lambda>_.
           io_bind (if msg = into_bytes MSG_MARCO then
                      let reply = into_bytes MSG_POLO in
                      io_bind (with_net R_Send (send E connection reply)) (\<lambda>_.
                        println (''Replied to '' @ show_addr src @ '' --> '' @ show_bytes reply))
                    else io_ret ()) (\<lambda>_.
           io_bind (println []) (\<lambda>_. io_ret True))))"

text \<open>\<open>None\<close>: the loop runs forever.\<close>

partial_function (option) serve_connection ::
  "'w env \<Rightarrow> (bytes \<Rightarrow> string) \<Rightarrow> Connection \<Rightarrow> ConnectionIncoming \<Rightarrow> SocketAddr \<Rightarrow> 'w \<Rightarrow> string list
   \<Rightarrow> ((Report failure + unit) \<times> ('w \<times> string list)) option" where
  "serve_connection E show_bytes connection incoming_messages src w out =
     (case serve_message E show_bytes connection incoming_messages src (w, out) of
        (Inl e, y) \<Rightarrow> Some (Inl e, y)
      | (Inr more_messages, y) \<Rightarrow>
          if more_messages then serve_connection E show_bytes connection incoming_messages src (fst y) (snd y)
          else Some (Inr (), y))"

partial_function (option) serve_node ::
  "'w env \<Rightarrow> (bytes \<Rightarrow> string) \<Rightarrow> IncomingConnections \<Rightarrow> 'w \<Rightarrow> string list
   \<Rightarrow> ((Report failure + unit) \<times> ('w \<times> string list)) option" where
  "serve_node E show_bytes incoming_conns w out =
     (case IncomingConnections_next E incoming_conns w of
        (None, w1) \<Rightarrow> Some (Inr (), (w1, out))
      | (Some (connection, incoming_messages), w1) \<Rightarrow>
          Option.bind (serve_connection E show_bytes connection incoming_messages
                         (remote_address E connection w1) w1 out) (\<lambda>(res, y).
            case res of
              Inl e \<Rightarrow> Some (Inl e, y)
            | Inr _ \<Rightarrow> serve_node E show_bytes incoming_conns (fst y) (snd y)))"

definition node_main ::
  "'w env \<Rightarrow> tls \<Rightarrow> ('w, eyre_InstallError, unit) io \<Rightarrow> (bytes \<Rightarrow> string) \<Rightarrow> string list
   \<Rightarrow> 'w \<Rightarrow> ((Report failure + unit) \<times> ('w \<times> string list)) option" where
  "node_main E T install show_bytes args w =
     (case start_node E T install show_bytes args (w, []) of
        (Inl e, y) \<Rightarrow> Some (Inl e, y)
      | (Inr (node, incoming_conns), y) \<Rightarrow> serve_node E show_bytes incoming_conns (fst y) (snd y))"

end
