(* ===== verification/Loopback.thy ===== *)
theory Loopback
  imports Runtime
begin

text \<open>
  Concrete values for the parameters of the model, used to show that the laws the crate
  relies on can hold and to run the definitions on concrete inputs: the documented default
  format of \<open>bincode\<close> 1.x for \<open>WireMsg\<close> (little-endian fixed-width integers, a 32-bit
  variant index, a 64-bit length before a byte string), and a transport held in memory.
  Nothing in the model of the crate depends on this theory.
\<close>

section \<open>Little-endian integers\<close>

primrec le_bytes :: "nat \<Rightarrow> nat \<Rightarrow> bytes" where
  "le_bytes 0 n = []"
| "le_bytes (Suc k) n = of_nat (n mod 256) # le_bytes k (n div 256)"

primrec le_val :: "bytes \<Rightarrow> nat" where
  "le_val [] = 0"
| "le_val (b # bs) = unat b + 256 * le_val bs"

lemma length_le_bytes [simp]: "length (le_bytes k n) = k"
  by (induction k arbitrary: n) simp_all

lemma le_val_le_bytes: "le_val (le_bytes k n) = n mod 256 ^ k"
proof (induction k arbitrary: n)
  case (Suc k)
  have "le_val (le_bytes (Suc k) n) = n mod 256 + 256 * (n div 256 mod 256 ^ k)"
    by (simp add: Suc.IH unat_of_nat take_bit_eq_mod)
  also have "\<dots> = n mod (256 * 256 ^ k)"
    by (simp add: mod_mult2_eq)
  finally show ?case by simp
qed simp

lemma le_val_u16 [simp]: "of_nat (le_val (le_bytes 2 (unat p))) = (p :: u16)"
proof -
  have "unat p < 2 ^ LENGTH(16)" by (rule unsigned_less)
  then show ?thesis by (simp add: le_val_le_bytes)
qed

section \<open>The bincode format\<close>

fun bc_ip :: "IpAddr \<Rightarrow> bytes" where
  "bc_ip (IpV4 (Ipv4 a b c d)) = [a, b, c, d]"
| "bc_ip (IpV6 ip) = concat (map (\<lambda>s. rev (le_bytes 2 (unat s))) (segments ip))"

fun bc_addr :: "SocketAddr \<Rightarrow> bytes" where
  "bc_addr (V4 ip port) = le_bytes 4 0 @ bc_ip (IpV4 ip) @ le_bytes 2 (unat port)"
| "bc_addr (V6 ip port flow scope) = le_bytes 4 1 @ bc_ip (IpV6 ip) @ le_bytes 2 (unat port)"

fun bc_serialize :: "WireMsg \<Rightarrow> bincode_Error + bytes" where
  "bc_serialize EndpointEchoReq = Inr (le_bytes 4 0)"
| "bc_serialize (EndpointEchoResp addr) = Inr (le_bytes 4 1 @ bc_addr addr)"
| "bc_serialize (EndpointVerificationReq addr) = Inr (le_bytes 4 2 @ bc_addr addr)"
| "bc_serialize (EndpointVerificationResp valid) = Inr (le_bytes 4 3 @ [if valid then 1 else 0])"
| "bc_serialize (UserMsg m) =
     (if length m < 256 ^ 8 then Inr (le_bytes 4 4 @ le_bytes 8 (length m) @ m)
      else Inl (Custom ''length overflow''))"

definition bc_seg :: "bytes \<Rightarrow> nat \<Rightarrow> u16" where
  "bc_seg bs i = of_nat (le_val [bs ! (2 * i + 1), bs ! (2 * i)])"

definition bc_read_addr :: "bytes \<Rightarrow> SocketAddr option" where
  "bc_read_addr bs =
     (let tag = le_val (take 4 bs); body = drop 4 bs in
      if length bs < 4 then None
      else if tag = 0 then
        (if length body < 6 then None
         else Some (V4 (Ipv4 (body ! 0) (body ! 1) (body ! 2) (body ! 3))
                       (of_nat (le_val (take 2 (drop 4 body))))))
      else if tag = 1 then
        (if length body < 18 then None
         else Some (V6 (Ipv6 (bc_seg body 0) (bc_seg body 1) (bc_seg body 2) (bc_seg body 3)
                             (bc_seg body 4) (bc_seg body 5) (bc_seg body 6) (bc_seg body 7))
                       (of_nat (le_val (take 2 (drop 16 body)))) 0 0))
      else None)"

definition bc_fail :: "bincode_Error + WireMsg" where
  "bc_fail = Inl (Custom ''invalid encoding'')"

definition bc_body :: "nat \<Rightarrow> bytes \<Rightarrow> bincode_Error + WireMsg" where
  "bc_body tag body =
     (if tag = 0 then Inr EndpointEchoReq
      else if tag = 1 then
        (case bc_read_addr body of None \<Rightarrow> bc_fail | Some a \<Rightarrow> Inr (EndpointEchoResp a))
      else if tag = 2 then
        (case bc_read_addr body of None \<Rightarrow> bc_fail | Some a \<Rightarrow> Inr (EndpointVerificationReq a))
      else if tag = 3 then
        (if body = [] then bc_fail
         else if hd body = 0 then Inr (EndpointVerificationResp False)
         else if hd body = 1 then Inr (EndpointVerificationResp True) else bc_fail)
      else if tag = 4 then
        (let n = le_val (take 8 body) in
         if length body < 8 \<or> length (drop 8 body) < n then bc_fail
         else Inr (UserMsg (take n (drop 8 body))))
      else bc_fail)"

text \<open>Bytes behind the value are ignored.\<close>

definition bc_deserialize :: "bytes \<Rightarrow> bincode_Error + WireMsg" where
  "bc_deserialize bs =
     (if length bs < 4 then bc_fail else bc_body (le_val (take 4 bs)) (drop 4 bs))"

lemma le_bytes_2: "le_bytes 2 n = [of_nat (n mod 256), of_nat (n div 256 mod 256)]"
  by (simp add: numeral_2_eq_2)

lemma le_bytes_4_small:
  assumes "t < 256"
  shows "le_bytes 4 t = [of_nat t, 0, 0, 0]"
proof -
  have "(4::nat) = Suc (Suc (Suc (Suc 0)))" by simp
  then show ?thesis using assms by (simp only: le_bytes.simps) simp
qed

lemma le_u16_split:
  obtains lo hi :: "u16 \<Rightarrow> u8" where "\<And>p. le_bytes 2 (unat p) = [lo p, hi p]"
    "\<And>p. of_nat (le_val [lo p, hi p]) = p"
proof
  show "le_bytes 2 (unat p) = [of_nat (unat p mod 256), of_nat (unat p div 256 mod 256)]" for p :: u16
    by (rule le_bytes_2)
  show "of_nat (le_val [of_nat (unat p mod 256), of_nat (unat p div 256 mod 256)]) = p" for p :: u16
    using le_val_u16 [of p] by (simp only: le_bytes_2)
qed

lemma le_val_tags:
  "le_val [0, 0, 0, 0] = 0" "le_val [1, 0, 0, 0] = 1" "le_val [2, 0, 0, 0] = 2"
  "le_val [3, 0, 0, 0] = 3" "le_val [4, 0, 0, 0] = 4"
  by simp_all

lemmas bc_tag_simps = le_bytes_4_small le_val_tags

lemma bc_read_addr_bc_addr: "canonical_addr a \<Longrightarrow> bc_read_addr (bc_addr a) = Some a"
proof -
  assume can: "canonical_addr a"
  obtain lo hi :: "u16 \<Rightarrow> u8" where u16: "\<And>p. le_bytes 2 (unat p) = [lo p, hi p]"
    "\<And>p. of_nat (le_val [lo p, hi p]) = p"
    using le_u16_split by blast
  show ?thesis
  proof (cases a)
    case (V4 ip port)
    then show ?thesis
      by (cases ip) (simp add: bc_read_addr_def Let_def bc_tag_simps u16 del: le_val.simps)
  next
    case (V6 ip port flow scope)
    with can show ?thesis
      by (cases ip)
        (simp add: bc_read_addr_def bc_seg_def Let_def bc_tag_simps u16 del: le_val.simps)
  qed
qed

lemma length_bc_addr: "4 \<le> length (bc_addr a)"
  by (cases a) simp_all

lemma bc_deserialize_tagged: "t < 256 \<Longrightarrow> bc_deserialize (le_bytes 4 t @ b) = bc_body t b"
  by (simp add: bc_deserialize_def le_val_le_bytes)

lemma bc_deserialize_serialize:
  assumes "bc_serialize m = Inr bs" "canonical_msg m"
  shows "bc_deserialize bs = Inr m"
proof (cases m)
  case EndpointEchoReq
  with assms show ?thesis
    using bc_deserialize_tagged [of 0 "[]"] by (simp add: bc_body_def)
next
  case (EndpointEchoResp addr)
  with assms show ?thesis
    by (auto simp: bc_deserialize_tagged bc_body_def bc_read_addr_bc_addr)
next
  case (EndpointVerificationReq addr)
  with assms show ?thesis
    by (auto simp: bc_deserialize_tagged bc_body_def bc_read_addr_bc_addr)
next
  case (EndpointVerificationResp valid)
  with assms show ?thesis
    by (cases valid) (auto simp: bc_deserialize_tagged bc_body_def)
next
  case (UserMsg d)
  with assms have "bs = le_bytes 4 4 @ le_bytes 8 (length d) @ d" "length d < 256 ^ 8"
    by (simp_all split: if_splits)
  with UserMsg show ?thesis
    by (simp add: bc_deserialize_tagged bc_body_def Let_def le_val_le_bytes)
qed

lemma bc_serialize_nonempty: "bc_serialize m = Inr bs \<Longrightarrow> bs \<noteq> []"
proof -
  have "le_bytes 4 n \<noteq> []" for n
    by (metis length_le_bytes list.size(3) zero_neq_numeral)
  then show "bc_serialize m = Inr bs \<Longrightarrow> bs \<noteq> []"
    by (cases m) (auto split: if_splits)
qed

section \<open>A transport in memory\<close>

text \<open>
  The bytes a receive stream will deliver come in chunks, whose borders a single read does
  not cross; a write stream may be given a limit after which writing fails; dialling an
  address gives the scripted result; a bidirectional stream opened on a connection answers
  with the scripted reply.
\<close>

record net =
  n_rx :: "recv_id \<Rightarrow> bytes list \<times> stream_end"
  n_tx :: "send_id \<Rightarrow> bytes"
  n_tx_limit :: "send_id \<Rightarrow> (nat \<times> quinn_WriteError) option"
  n_log :: "chan_id \<Rightarrow> msg_item list"
  n_taken :: "chan_id \<Rightarrow> nat"
  n_rx_open :: "chan_id \<Rightarrow> bool"
  n_next :: nat
  n_lost :: "conn_id \<Rightarrow> quinn_ConnectionError option"
  n_peer :: "conn_id \<Rightarrow> SocketAddr"
  n_reply :: "conn_id \<Rightarrow> recv_id \<Rightarrow> bytes list \<times> stream_end"
  n_dial :: "SocketAddr \<Rightarrow> quinn_ConnectError + (quinn_ConnectionError + conn_id)"
  n_dialling :: "connecting_id \<Rightarrow> quinn_ConnectionError + conn_id"
  n_in_uni :: "conn_id \<Rightarrow> (quinn_ConnectionError + recv_id) list"
  n_in_bi :: "conn_id \<Rightarrow> (quinn_ConnectionError + send_id \<times> recv_id) list"
  n_slow :: bool
  n_tasks :: "task list"
  n_closed :: "(conn_id \<times> u64 \<times> bytes) list"
  n_local :: SocketAddr
  n_arrivals :: "endpoint_id \<Rightarrow> connecting_id list"
  n_accepted :: "chan_id \<Rightarrow> (Connection \<times> ConnectionIncoming) list"
  n_terminated :: "term_id \<Rightarrow> bool"
  n_mapped :: "(u16 \<times> (Ipv4Addr \<times> u16) \<times> u32) list"

fun settle :: "stream_end \<Rightarrow> stream_end" where
  "settle (Broken e fin) = (if is_lost e then Broken e fin else fin)"
| "settle Finished = Finished"

fun read_chunks :: "nat \<Rightarrow> bytes list \<Rightarrow> (bytes \<times> bytes list) option" where
  "read_chunks n [] = None"
| "read_chunks n ([] # cs) = read_chunks n cs"
| "read_chunks n ((b # bs) # cs) = Some (take n (b # bs), drop n (b # bs) # cs)"

definition net_read :: "recv_id \<Rightarrow> nat \<Rightarrow> (net, quinn_ReadError, bytes option) io" where
  "net_read r n w =
     (case n_rx w r of (cs, fin) \<Rightarrow>
        (case read_chunks n cs of
           Some (data, cs') \<Rightarrow> (Inr (Some data), w\<lparr>n_rx := (n_rx w)(r := (cs', fin))\<rparr>)
         | None \<Rightarrow> ((case fin of Finished \<Rightarrow> Inr None | Broken e _ \<Rightarrow> Inl e),
                   w\<lparr>n_rx := (n_rx w)(r := ([], settle fin))\<rparr>)))"

definition net_read_exact :: "recv_id \<Rightarrow> nat \<Rightarrow> (net, quinn_ReadExactError, bytes) io" where
  "net_read_exact r n w =
     (case n_rx w r of (cs, fin) \<Rightarrow>
        (if n \<le> length (concat cs) then
           (Inr (take n (concat cs)), w\<lparr>n_rx := (n_rx w)(r := ([drop n (concat cs)], fin))\<rparr>)
         else ((case fin of Finished \<Rightarrow> Inl QX_FinishedEarly | Broken e _ \<Rightarrow> Inl (QX_ReadError e)),
               w\<lparr>n_rx := (n_rx w)(r := ([], settle fin))\<rparr>)))"

definition net_write_all :: "send_id \<Rightarrow> bytes \<Rightarrow> (net, quinn_WriteError, unit) io" where
  "net_write_all s bs w =
     (let old = n_tx w s in
      case n_tx_limit w s of
        None \<Rightarrow> (Inr (), w\<lparr>n_tx := (n_tx w)(s := old @ bs)\<rparr>)
      | Some (n, e) \<Rightarrow>
          if length old + length bs \<le> n then (Inr (), w\<lparr>n_tx := (n_tx w)(s := old @ bs)\<rparr>)
          else (Inl e, w\<lparr>n_tx := (n_tx w)(s := old @ take (n - length old) bs)\<rparr>))"

definition net_finish :: "send_id \<Rightarrow> (net, quinn_WriteError, unit) io" where
  "net_finish s w =
     (case n_tx_limit w s of
        Some (n, e) \<Rightarrow> (if n \<le> length (n_tx w s) then (Inl e, w) else (Inr (), w))
      | None \<Rightarrow> (Inr (), w))"

definition net_open_uni :: "conn_id \<Rightarrow> (net, quinn_ConnectionError, send_id) io" where
  "net_open_uni c w =
     (case n_lost w c of
        Some e \<Rightarrow> (Inl e, w)
      | None \<Rightarrow> (Inr (n_next w), w\<lparr>n_tx := (n_tx w)(n_next w := []), n_next := Suc (n_next w)\<rparr>))"

definition net_open_bi :: "conn_id \<Rightarrow> (net, quinn_ConnectionError, send_id \<times> recv_id) io" where
  "net_open_bi c w =
     (case n_lost w c of
        Some e \<Rightarrow> (Inl e, w)
      | None \<Rightarrow> (Inr (n_next w, n_next w),
          w\<lparr>n_tx := (n_tx w)(n_next w := []), n_rx := (n_rx w)(n_next w := n_reply w c (n_next w)),
            n_next := Suc (n_next w)\<rparr>))"

definition net_connect ::
  "endpoint_id \<Rightarrow> SocketAddr \<Rightarrow> string \<Rightarrow> (net, quinn_ConnectError, connecting_id) io" where
  "net_connect ep addr name w =
     (case n_dial w addr of
        Inl e \<Rightarrow> (Inl e, w)
      | Inr r \<Rightarrow> (Inr (n_next w),
          w\<lparr>n_dialling := (n_dialling w)(n_next w := r), n_next := Suc (n_next w)\<rparr>))"

definition net_connecting :: "connecting_id \<Rightarrow> (net, quinn_ConnectionError, conn_id) io" where
  "net_connecting i w = (n_dialling w i, w)"

definition pop :: "'a list \<Rightarrow> 'a option" where
  "pop xs = (case xs of [] \<Rightarrow> None | x # _ \<Rightarrow> Some x)"

definition net_msg_channel :: "nat \<Rightarrow> net \<Rightarrow> chan_id \<times> net" where
  "net_msg_channel cap w =
     (n_next w, w\<lparr>n_log := (n_log w)(n_next w := []), n_taken := (n_taken w)(n_next w := 0),
                  n_rx_open := (n_rx_open w)(n_next w := True), n_next := Suc (n_next w)\<rparr>)"

definition net_msg_send :: "chan_id \<Rightarrow> msg_item \<Rightarrow> (net, unit, unit) io" where
  "net_msg_send c item w =
     (if n_rx_open w c then (Inr (), w\<lparr>n_log := (n_log w)(c := n_log w c @ [item])\<rparr>)
      else (Inl (), w))"

definition net_msg_recv :: "chan_id \<Rightarrow> net \<Rightarrow> msg_item option \<times> net" where
  "net_msg_recv c w =
     (if n_taken w c < length (n_log w c)
      then (Some (n_log w c ! n_taken w c), w\<lparr>n_taken := (n_taken w)(c := Suc (n_taken w c))\<rparr>)
      else (None, w))"

definition net_fresh :: "net \<Rightarrow> nat \<times> net" where
  "net_fresh w = (n_next w, w\<lparr>n_next := Suc (n_next w)\<rparr>)"

definition net_accepted :: "chan_id \<Rightarrow> net \<Rightarrow> (Connection \<times> ConnectionIncoming) option \<times> net" where
  "net_accepted c w = (pop (n_accepted w c), w\<lparr>n_accepted := (n_accepted w)(c := tl (n_accepted w c))\<rparr>)"

text \<open>A schedule in which each future runs to its end before the next one starts.\<close>

fun net_select_ok :: "('w, 'e, 'a) io list \<Rightarrow> ('w, 'e, 'a) io" where
  "net_select_ok [] w = undefined"
| "net_select_ok [f] w = f w"
| "net_select_ok (f # g # fs) w =
     (case f w of (Inr x, w') \<Rightarrow> (Inr x, w') | (Inl e, w') \<Rightarrow> net_select_ok (g # fs) w')"

text \<open>Retrying a number of times that the configured time allows for.\<close>

fun retry_upto :: "nat \<Rightarrow> ('w, 'e backoff_Error, 'a) io \<Rightarrow> ('w, 'e, 'a) io" where
  "retry_upto 0 op w =
     (case op w of
        (Inr x, w') \<Rightarrow> (Inr x, w')
      | (Inl (Permanent e), w') \<Rightarrow> (Inl e, w')
      | (Inl (Transient e), w') \<Rightarrow> (Inl e, w'))"
| "retry_upto (Suc n) op w =
     (case op w of
        (Inr x, w') \<Rightarrow> (Inr x, w')
      | (Inl (Permanent e), w') \<Rightarrow> (Inl e, w')
      | (Inl (Transient e), w') \<Rightarrow> retry_upto n op w')"

definition retries :: "ExponentialBackoff \<Rightarrow> nat" where
  "retries b =
     (case max_elapsed_time b of
        None \<Rightarrow> 0 | Some t \<Rightarrow> if initial_interval b = 0 then 0 else t div initial_interval b)"

definition net_env :: "net env" where
  "net_env =
     \<lparr>bincode_serialize = bc_serialize, bincode_deserialize = bc_deserialize,
      q_read = net_read, q_read_exact = net_read_exact, q_write_all = net_write_all,
      q_finish = net_finish, q_set_priority = (\<lambda>s prio. io_ret ()),
      q_stable_id = (\<lambda>c w. c), q_remote_address = (\<lambda>c w. n_peer w c),
      q_open_uni = net_open_uni, q_open_bi = net_open_bi,
      q_close = (\<lambda>c code reason w. w\<lparr>n_lost := (n_lost w)(c := Some Q_LocallyClosed),
                                    n_closed := n_closed w @ [(c, code, reason)]\<rparr>),
      q_next_uni = (\<lambda>c w. (pop (n_in_uni w c), w\<lparr>n_in_uni := (n_in_uni w)(c := tl (n_in_uni w c))\<rparr>)),
      q_next_bi = (\<lambda>c w. (pop (n_in_bi w c), w\<lparr>n_in_bi := (n_in_bi w)(c := tl (n_in_bi w c))\<rparr>)),
      q_connect = net_connect, q_connecting = net_connecting,
      q_server = (\<lambda>cfg addr w. (Inr (fst (net_fresh w)), snd (net_fresh w))),
      q_client = (\<lambda>addr w. (Inr (fst (net_fresh w)), snd (net_fresh w))),
      q_local_addr = (\<lambda>ep w. (Inr (n_local w), w)),
      q_set_default_client_config = (\<lambda>ep cfg w. w),
      q_endpoint_close = (\<lambda>ep code reason w. w\<lparr>n_closed := n_closed w @ [(ep, code, reason)]\<rparr>),
      q_next_incoming = (\<lambda>ep w. (pop (n_arrivals w ep),
                                 w\<lparr>n_arrivals := (n_arrivals w)(ep := tl (n_arrivals w ep))\<rparr>)),
      t_spawn = (\<lambda>t w. w\<lparr>n_tasks := n_tasks w @ [t]\<rparr>),
      t_watch_channel = net_fresh, t_select = (\<lambda>a w. LeftFirst),
      t_msg_channel = net_msg_channel, t_msg_send = net_msg_send, t_msg_recv = net_msg_recv,
      t_conn_channel = (\<lambda>cap. net_fresh),
      t_conn_send = (\<lambda>c x w. (Inr (), w\<lparr>n_accepted := (n_accepted w)(c := n_accepted w c @ [x])\<rparr>)),
      t_conn_recv = net_accepted,
      t_conn_try_recv = (\<lambda>c w. case net_accepted c w of
                                (Some x, w') \<Rightarrow> (Inr x, w') | (None, w') \<Rightarrow> (Inl MPSC_Empty, w')),
      t_broadcast_channel = (\<lambda>cap. net_fresh),
      t_broadcast_send = (\<lambda>t w. w\<lparr>n_terminated := (n_terminated w)(t := True)\<rparr>),
      t_broadcast_try_recv = (\<lambda>t w. (if n_terminated w t then Inr () else Inl BC_Empty, w)),
      t_expired = (\<lambda>d w. n_slow w), t_elapse = (\<lambda>d f w. w),
      t_interval_at = (\<lambda>start period w. (if period = 0 then None else Some period, w)),
      t_tick = (\<lambda>t w. w),
      b_retry_send = (\<lambda>b op. retry_upto (retries b) op),
      b_retry_connect = (\<lambda>b op. retry_upto (retries b) op),
      f_select_ok = net_select_ok,
      i_search_gateway = (\<lambda>w. (Inr 0, w)),
      i_add_port = (\<lambda>gw proto ext addr lease name w.
                      (Inr (), w\<lparr>n_mapped := n_mapped w @ [(ext, addr, lease)]\<rparr>))\<rparr>"

definition net_ghost :: "net ghost" where
  "net_ghost =
     \<lparr>g_avail = (\<lambda>w r. concat (fst (n_rx w r))), g_fate = (\<lambda>w r. snd (n_rx w r)),
      g_sent = n_tx, g_log = n_log, g_taken = n_taken, g_rx_open = n_rx_open,
      g_uni = n_in_uni, g_bi = n_in_bi,
      g_live_rx = (\<lambda>w. {..< n_next w}), g_live_tx = (\<lambda>w. {..< n_next w}),
      g_live_ch = (\<lambda>w. {..< n_next w}), g_live_conn = (\<lambda>w. {..< n_next w})\<rparr>"

text \<open>A network in which nothing has happened yet.\<close>

definition net_init :: net where
  "net_init =
     \<lparr>n_rx = (\<lambda>r. ([], Finished)), n_tx = (\<lambda>s. []), n_tx_limit = (\<lambda>s. None),
      n_log = (\<lambda>c. []), n_taken = (\<lambda>c. 0), n_rx_open = (\<lambda>c. True), n_next = 10, n_lost = (\<lambda>c. None),
      n_peer = (\<lambda>c. V4 (Ipv4 127 0 0 1) 5000), n_reply = (\<lambda>c r. ([], Finished)),
      n_dial = (\<lambda>a. Inl (Q_InvalidRemoteAddress a)), n_dialling = (\<lambda>i. Inl Q_TimedOut),
      n_in_uni = (\<lambda>c. []), n_in_bi = (\<lambda>c. []),
      n_slow = False, n_tasks = [], n_closed = [], n_local = V4 (Ipv4 192 168 0 7) 4000,
      n_arrivals = (\<lambda>ep. []), n_accepted = (\<lambda>c. []), n_terminated = (\<lambda>t. False), n_mapped = []\<rparr>"

section \<open>The laws hold\<close>

lemma net_env_simps [simp]:
  "bincode_serialize net_env = bc_serialize" "bincode_deserialize net_env = bc_deserialize"
  "q_read net_env = net_read" "q_read_exact net_env = net_read_exact"
  "q_write_all net_env = net_write_all" "q_finish net_env = net_finish"
  "q_set_priority net_env = (\<lambda>s prio. io_ret ())" "q_stable_id net_env = (\<lambda>c w. c)"
  "q_remote_address net_env = (\<lambda>c w. n_peer w c)"
  "q_open_uni net_env = net_open_uni" "q_open_bi net_env = net_open_bi"
  "q_next_uni net_env =
     (\<lambda>c w. (pop (n_in_uni w c), w\<lparr>n_in_uni := (n_in_uni w)(c := tl (n_in_uni w c))\<rparr>))"
  "q_next_bi net_env =
     (\<lambda>c w. (pop (n_in_bi w c), w\<lparr>n_in_bi := (n_in_bi w)(c := tl (n_in_bi w c))\<rparr>))"
  "q_connect net_env = net_connect" "q_connecting net_env = net_connecting"
  "t_msg_channel net_env = net_msg_channel" "t_msg_send net_env = net_msg_send"
  "t_msg_recv net_env = net_msg_recv" "t_watch_channel net_env = net_fresh"
  "t_spawn net_env = (\<lambda>t w. w\<lparr>n_tasks := n_tasks w @ [t]\<rparr>)"
  "t_select net_env = (\<lambda>a w. LeftFirst)"
  "t_expired net_env = (\<lambda>d w. n_slow w)" "t_elapse net_env = (\<lambda>d f w. w)"
  "b_retry_send net_env = (\<lambda>b op. retry_upto (retries b) op)"
  "b_retry_connect net_env = (\<lambda>b op. retry_upto (retries b) op)"
  "f_select_ok net_env = net_select_ok"
  "q_server net_env = (\<lambda>cfg addr w. (Inr (fst (net_fresh w)), snd (net_fresh w)))"
  "q_client net_env = (\<lambda>addr w. (Inr (fst (net_fresh w)), snd (net_fresh w)))"
  "q_local_addr net_env = (\<lambda>ep w. (Inr (n_local w), w))"
  "q_set_default_client_config net_env = (\<lambda>ep cfg w. w)"
  "q_endpoint_close net_env = (\<lambda>ep code reason w. w\<lparr>n_closed := n_closed w @ [(ep, code, reason)]\<rparr>)"
  "q_next_incoming net_env = (\<lambda>ep w. (pop (n_arrivals w ep),
     w\<lparr>n_arrivals := (n_arrivals w)(ep := tl (n_arrivals w ep))\<rparr>))"
  "t_conn_channel net_env = (\<lambda>cap. net_fresh)"
  "t_conn_send net_env =
     (\<lambda>c x w. (Inr (), w\<lparr>n_accepted := (n_accepted w)(c := n_accepted w c @ [x])\<rparr>))"
  "t_broadcast_channel net_env = (\<lambda>cap. net_fresh)"
  "t_broadcast_send net_env = (\<lambda>t w. w\<lparr>n_terminated := (n_terminated w)(t := True)\<rparr>)"
  "t_broadcast_try_recv net_env = (\<lambda>t w. (if n_terminated w t then Inr () else Inl BC_Empty, w))"
  "t_interval_at net_env = (\<lambda>start period w. (if period = 0 then None else Some period, w))"
  "t_tick net_env = (\<lambda>t w. w)"
  "i_search_gateway net_env = (\<lambda>w. (Inr 0, w))"
  "i_add_port net_env = (\<lambda>gw proto ext addr lease name w.
     (Inr (), w\<lparr>n_mapped := n_mapped w @ [(ext, addr, lease)]\<rparr>))"
  by (simp_all add: net_env_def)

lemma net_ghost_simps [simp]:
  "g_avail net_ghost = (\<lambda>w r. concat (fst (n_rx w r)))" "g_fate net_ghost = (\<lambda>w r. snd (n_rx w r))"
  "g_sent net_ghost = n_tx" "g_log net_ghost = n_log" "g_taken net_ghost = n_taken"
  "g_rx_open net_ghost = n_rx_open" "g_uni net_ghost = n_in_uni" "g_bi net_ghost = n_in_bi"
  "g_live_rx net_ghost = (\<lambda>w. {..< n_next w})" "g_live_tx net_ghost = (\<lambda>w. {..< n_next w})"
  "g_live_ch net_ghost = (\<lambda>w. {..< n_next w})" "g_live_conn net_ghost = (\<lambda>w. {..< n_next w})"
  by (simp_all add: net_ghost_def)

interpretation net_bincode: bincode_laws net_env
  by unfold_locales (simp_all add: bc_deserialize_serialize bc_serialize_nonempty)

lemma read_chunks_None: "concat cs = [] \<Longrightarrow> read_chunks n cs = None"
  by (induction n cs rule: read_chunks.induct) auto

lemma net_read_data:
  "concat cs \<noteq> [] \<Longrightarrow> 0 < n \<Longrightarrow> \<exists>data cs'. read_chunks n cs = Some (data, cs') \<and> data \<noteq> []
     \<and> length data \<le> n \<and> concat cs = data @ concat cs'"
  by (induction n cs rule: read_chunks.induct) auto

interpretation net_recv: recv_stream_laws net_env "g_avail net_ghost" "g_fate net_ghost"
proof unfold_locales
  fix w r and n :: nat
  assume "g_avail net_ghost w r \<noteq> []" "0 < n"
  with net_read_data [of "fst (n_rx w r)" n] obtain data cs' where
    d: "read_chunks n (fst (n_rx w r)) = Some (data, cs')" "data \<noteq> []" "length data \<le> n"
      "concat (fst (n_rx w r)) = data @ concat cs'"
    by auto
  then show "\<exists>k w'. 0 < k \<and> k \<le> n \<and> k \<le> length (g_avail net_ghost w r)
       \<and> q_read net_env r n w = (Inr (Some (take k (g_avail net_ghost w r))), w')
       \<and> g_avail net_ghost w' r = drop k (g_avail net_ghost w r)
       \<and> g_fate net_ghost w' r = g_fate net_ghost w r"
    by (intro exI [of _ "length data"]) (simp add: net_read_def case_prod_beta)
qed (auto simp: net_read_def net_read_exact_def read_chunks_None
      split: prod.splits option.splits stream_end.splits if_splits)

interpretation net_send: send_stream_laws net_env "g_sent net_ghost"
proof unfold_locales
  fix s bs w e w'
  assume "q_write_all net_env s bs w = (Inl e, w')"
  then obtain n where "w' = w\<lparr>n_tx := (n_tx w)(s := n_tx w s @ take (n - length (n_tx w s)) bs)\<rparr>"
    "\<not> length (n_tx w s) + length bs \<le> n"
    by (auto simp: net_write_all_def Let_def split: option.splits if_splits prod.splits)
  then show "\<exists>k\<le>length bs. g_sent net_ghost w' s = g_sent net_ghost w s @ take k bs"
    by (intro exI [of _ "n - length (n_tx w s)"]) auto
qed (auto simp: net_write_all_def Let_def split: option.splits if_splits prod.splits)

lemma net_unchangedI:
  assumes "\<And>r. r < n_next w \<Longrightarrow> r \<notin> R \<Longrightarrow> n_rx w' r = n_rx w r"
    and "\<And>s. s < n_next w \<Longrightarrow> s \<notin> S \<Longrightarrow> n_tx w' s = n_tx w s"
    and "\<And>c. c < n_next w \<Longrightarrow> c \<notin> C \<Longrightarrow> n_log w' c = n_log w c \<and> n_taken w' c = n_taken w c"
    and "\<And>c. c < n_next w \<Longrightarrow> n_rx_open w' c = n_rx_open w c"
    and "n_in_uni w' = n_in_uni w" and "n_in_bi w' = n_in_bi w" and "n_next w \<le> n_next w'"
  shows "unchanged net_ghost R S C w w'"
  using assms by (auto simp: unchanged_def same_streams_def)

lemmas net_op_defs = net_read_def net_read_exact_def net_write_all_def net_finish_def
  net_open_uni_def net_open_bi_def net_connect_def net_connecting_def
  net_msg_channel_def net_msg_send_def net_msg_recv_def net_fresh_def

lemma net_keeps:
  "keeps net_ghost {r} {} {} (net_read r n)" "keeps net_ghost {r} {} {} (net_read_exact r n)"
  "keeps net_ghost {} {s} {} (net_write_all s bs)" "keeps net_ghost {} {} {} (net_finish s)"
  "keeps net_ghost {} {} {} (net_open_uni c)" "keeps net_ghost {} {} {} (net_open_bi c)"
  "keeps net_ghost {} {} {} (net_connect ep addr name)" "keeps net_ghost {} {} {} (net_connecting i)"
  "keeps net_ghost {} {} {} (net_msg_channel cap)" "keeps net_ghost {} {} {ch} (net_msg_send ch item)"
  "keeps net_ghost {} {} {ch} (net_msg_recv ch)" "keeps net_ghost {} {} {} net_fresh"
  unfolding keeps_def
  by (intro allI net_unchangedI; simp add: net_op_defs Let_def
      split: prod.splits option.splits sum.splits)+

interpretation net_transport: transport_laws net_env net_ghost
proof unfold_locales
  show "q_open_uni net_env c w = (Inr s, w') \<Longrightarrow> s \<notin> g_live_tx net_ghost w
      \<and> s \<in> g_live_tx net_ghost w' \<and> g_sent net_ghost w' s = []" for c w s w'
    by (auto simp: net_open_uni_def split: option.splits)
  show "q_open_bi net_env c w = (Inr (s, r), w') \<Longrightarrow> s \<notin> g_live_tx net_ghost w
      \<and> s \<in> g_live_tx net_ghost w' \<and> g_sent net_ghost w' s = []
      \<and> r \<notin> g_live_rx net_ghost w \<and> r \<in> g_live_rx net_ghost w'" for c w s r w'
    by (auto simp: net_open_bi_def split: option.splits)
qed (simp_all add: net_keeps keeps_ret pop_def same_streams_def unchanged_def fun_upd_idem_iff)

interpretation net_channel: channel_laws net_env net_ghost
  by unfold_locales
    (auto simp: net_keeps net_msg_channel_def net_msg_send_def net_msg_recv_def
      unchanged_def same_streams_def split: if_splits)

interpretation net_runtime: runtime_laws net_env net_ghost
  by unfold_locales

lemma retry_upto_success: "op w = (Inr x, w') \<Longrightarrow> retry_upto n op w = (Inr x, w')"
  by (cases n) simp_all

lemma retry_upto_permanent: "op w = (Inl (Permanent e), w') \<Longrightarrow> retry_upto n op w = (Inl e, w')"
  by (cases n) simp_all

lemma retry_upto_run: "retry_run (unchanged G {} {} {}) op w (retry_upto n op w)"
proof (induction n arbitrary: w)
  case 0
  show ?case
    by (cases "op w" rule: prod.exhaust; cases "fst (op w)")
      (auto split: backoff_Error.splits intro: retry_run.intros)
next
  case (Suc n)
  show ?case
    by (cases "op w" rule: prod.exhaust; cases "fst (op w)")
      (auto split: backoff_Error.splits intro: retry_run.intros retry_run.again [OF _ unchanged_refl Suc.IH])
qed

interpretation net_backoff: backoff_laws net_env net_ghost
  by unfold_locales (simp_all add: retry_upto_run)

lemma net_select_ok_run: "fs \<noteq> [] \<Longrightarrow> select_run (unchanged G {} {} {}) fs w (net_select_ok fs w)"
proof (induction fs w rule: net_select_ok.induct)
  case (2 f w)
  obtain res w' where f: "f w = (res, w')" by fastforce
  then show ?case
    by (cases res) (auto intro: select_run.first [of _ w w f] select_run.last [of _ w w f])
next
  case (3 f g fs w)
  obtain res w' where f: "f w = (res, w')" by fastforce
  show ?case
  proof (cases res)
    case (Inl e)
    with 3 f have "select_run (unchanged G {} {} {}) ([] @ g # fs) w' (net_select_ok (g # fs) w')" by auto
    from select_run.failed [OF _ _ _ this, of w w f e] f Inl show ?thesis by simp
  next
    case (Inr x)
    with f show ?thesis by (auto intro: select_run.first [of _ w w f])
  qed
qed simp

interpretation net_select: select_run_laws net_env net_ghost
  by unfold_locales (simp add: net_select_ok_run)

section \<open>Certificates\<close>

text \<open>A TLS library in which every call succeeds, with an idle timeout in milliseconds.\<close>

definition net_tls :: tls where
  "net_tls =
     \<lparr>idle_timeout_try_from = (\<lambda>d. Inr (d div 1000000)),
      transport_default = \<lparr>tc_max_idle_timeout = Some 10000, tc_keep_alive_interval = None\<rparr>,
      generate_simple_self_signed = (\<lambda>names. Inr (length names)),
      serialize_private_key_der = (\<lambda>cert. [1, of_nat cert]),
      serialize_der = (\<lambda>cert. Inr [2, of_nat cert]),
      roots_empty = 0, roots_add = (\<lambda>roots cert. Inr (Suc roots)),
      server_with_single_cert = (\<lambda>certs key. Inr \<lparr>sc_certs = certs, sc_key = key,
        sc_transport = \<lparr>tc_max_idle_timeout = None, tc_keep_alive_interval = None\<rparr>\<rparr>),
      client_new = (\<lambda>crypto. \<lparr>cc_crypto = crypto,
        cc_transport = \<lparr>tc_max_idle_timeout = None, tc_keep_alive_interval = None\<rparr>\<rparr>)\<rparr>"

end
