(* ===== verification/Wire_Props.thy ===== *)
theory Wire_Props
  imports Wire_Msg Loopback
begin

text \<open>
  The properties of the framing, over any transport that obeys the stream laws, each with an
  instance on the in-memory transport.
\<close>

section \<open>Sequences of messages\<close>

text \<open>Writing messages one after the other, and reading a number of times.\<close>

fun write_msgs :: "'w env \<Rightarrow> WireMsg list \<Rightarrow> send_id \<Rightarrow> ('w, SendError, unit) io" where
  "write_msgs E [] s = io_ret ()"
| "write_msgs E (m # ms) s = io_bind (write_to_stream E m s) (\<lambda>_. write_msgs E ms s)"

fun read_msgs :: "'w env \<Rightarrow> recv_id \<Rightarrow> nat \<Rightarrow> 'w \<Rightarrow> (RecvError + WireMsg option) list \<times> 'w" where
  "read_msgs E r 0 w = ([], w)"
| "read_msgs E r (Suc n) w =
     (case read_from_stream E r w of (res, w1) \<Rightarrow>
        (case read_msgs E r n w1 of (ress, w2) \<Rightarrow> (res # ress, w2)))"

definition encode_frames :: "'w env \<Rightarrow> WireMsg list \<Rightarrow> bytes" where
  "encode_frames E ms = concat (map (\<lambda>m. case encode_frame E m of Inr bs \<Rightarrow> bs | Inl e \<Rightarrow> []) ms)"

definition sendable :: "WireMsg \<Rightarrow> bool" where
  "sendable m \<longleftrightarrow> canonical_msg m \<and> m \<noteq> UserMsg []"

lemma read_msgs_add:
  "read_msgs E r (m + n) w =
     (case read_msgs E r m w of (as, w1) \<Rightarrow> case read_msgs E r n w1 of (bs, w2) \<Rightarrow> (as @ bs, w2))"
  by (induction m arbitrary: w) (auto split: prod.splits)

context send_stream_laws
begin

lemma write_msgs_sent:
  "write_msgs E ms s w = (Inr (), w') \<Longrightarrow>
     sent w' s = sent w s @ encode_frames E ms \<and> (\<forall>m \<in> set ms. \<exists>bs. encode_frame E m = Inr bs)"
proof (induction ms arbitrary: w)
  case Nil
  then show ?case by (simp add: encode_frames_def)
next
  case (Cons m ms)
  then obtain w1 where w1: "write_to_stream E m s w = (Inr (), w1)" "write_msgs E ms s w1 = (Inr (), w')"
    by (auto simp: io_inv)
  from write_refines [OF w1(1)] obtain bs where
    "encode_frame E m = Inr bs" "sent w1 s = sent w s @ bs" .
  with Cons.IH [OF w1(2)] show ?case by (simp add: encode_frames_def)
qed

end

text \<open>A receive stream together with the serialisation format: what a reader of frames relies on.\<close>

locale framed_stream_laws = recv_stream_laws E avail fate + bincode_laws E
  for E :: "'w env" and avail :: "'w \<Rightarrow> recv_id \<Rightarrow> bytes" and fate :: "'w \<Rightarrow> recv_id \<Rightarrow> stream_end"
begin

lemma read_frame:
  assumes "encode_frame E m = Inr bs" "sendable m" "avail w r = bs @ rest"
  obtains w' where "read_from_stream E r w = (Inr (Some m), w')" "avail w' r = rest"
    "fate w' r = fate w r"
proof -
  have "decode_frame E (bs @ rest) (fate w r) = (Inr (Some m), rest)" "frame_complete (bs @ rest)"
    using assms(1,2) by (auto simp: sendable_def intro: decode_encode)
  with read_refines [of r w] assms(3) that show ?thesis by auto
qed

lemma read_msgs_frames:
  assumes "\<forall>m \<in> set ms. sendable m \<and> (\<exists>bs. encode_frame E m = Inr bs)"
    and "avail w r = encode_frames E ms @ rest"
  shows "\<exists>w'. read_msgs E r (length ms) w = (map (\<lambda>m. Inr (Some m)) ms, w')
           \<and> avail w' r = rest \<and> fate w' r = fate w r"
  using assms
proof (induction ms arbitrary: w)
  case Nil
  then show ?case by (simp add: encode_frames_def)
next
  case (Cons m ms)
  then obtain bs where m: "encode_frame E m = Inr bs" "sendable m" by auto
  with Cons.prems(2) have "avail w r = bs @ encode_frames E ms @ rest"
    by (simp add: encode_frames_def)
  from read_frame [OF m this] obtain w1 where
    "read_from_stream E r w = (Inr (Some m), w1)" "avail w1 r = encode_frames E ms @ rest"
    "fate w1 r = fate w r" .
  with Cons.IH [of w1] Cons.prems(1) show ?case by auto
qed

end

interpretation net_framed: framed_stream_laws net_env "g_avail net_ghost" "g_fate net_ghost"
  by unfold_locales

section \<open>Properties\<close>

text \<open>
  C5. Reading a message refines the framing specification: whatever chunks the bytes arrive
  in, the result and the bytes left over are those \<open>decode_frame\<close> computes from the bytes the
  stream still has to deliver and the way it ends.
\<close>

theorem read_from_stream_refines:
  assumes "recv_stream_laws E avail fate"
  shows "\<exists>w'. read_from_stream E r w = (fst (decode_frame E (avail w r) (fate w r)), w')
           \<and> avail w' r = snd (decode_frame E (avail w r) (fate w r))"
  using recv_stream_laws.read_refines [OF assms] by blast

text \<open>Three chunks, cut inside the header and inside the payload, and more bytes behind.\<close>

definition hello_world :: net where
  "hello_world =
     net_init\<lparr>n_rx := (\<lambda>r. ([[0, 1, 0, 0], [0, 5, 0, 0, 0, 104, 101], [108, 108, 111, 7, 7]], Finished))\<rparr>"

lemma decode_hello:
  "decode_frame net_env [0, 1, 0, 0, 0, 5, 0, 0, 0, 104, 101, 108, 108, 111, 7, 7] Finished
     = (Inr (Some (UserMsg [104, 101, 108, 108, 111])), [7, 7])"
  by (simp add: decode_frame_def MSG_HEADER_LEN_def MsgHeader_from_bytes_def u32_from_be_bytes_def
      decode_payload_def USER_MSG_FLAG_def)

theorem read_from_stream_refines_witness:
  "\<exists>w'. read_from_stream net_env 3 hello_world = (Inr (Some (UserMsg [104, 101, 108, 108, 111])), w')
     \<and> g_avail net_ghost w' 3 = [7, 7]"
  using read_from_stream_refines [OF net_recv.recv_stream_laws_axioms, of 3 hello_world]
  by (simp add: hello_world_def decode_hello)

text \<open>
  Round trip: a message written without error is read back as it was, with whatever
  follows it on the stream left in place, when its addresses are canonical and it is not an
  empty user message. The reader's stream delivers the bytes the writer sent.
\<close>

theorem write_read_roundtrip:
  assumes "send_stream_laws E sent" and "framed_stream_laws E avail fate"
    and "write_to_stream E m s w = (Inr (), w1)" and "sent w1 s = sent w s @ bs"
    and "avail w2 r = bs @ rest"
    and "canonical_msg m" and "m \<noteq> UserMsg []"
  shows "\<exists>w3. read_from_stream E r w2 = (Inr (Some m), w3) \<and> avail w3 r = rest"
proof -
  from send_stream_laws.write_refines [OF assms(1,3)] assms(4) have "encode_frame E m = Inr bs"
    by auto
  from framed_stream_laws.read_frame [OF assms(2) this, of w2 r rest] assms(5-7) show ?thesis
    by (auto simp: sendable_def)
qed

definition ping :: WireMsg where
  "ping = EndpointVerificationReq (V4 (Ipv4 192 168 0 7) 12000)"

theorem write_read_roundtrip_witness:
  "\<exists>w1 bs. write_to_stream net_env ping 4 net_init = (Inr (), w1) \<and> bs = n_tx w1 4
     \<and> (\<exists>w3. read_from_stream net_env 6 (net_init\<lparr>n_rx := (\<lambda>_. ([bs, [9]], Finished))\<rparr>)
           = (Inr (Some ping), w3) \<and> g_avail net_ghost w3 6 = [9])"
proof -
  obtain w1 where w1: "write_to_stream net_env ping 4 net_init = (Inr (), w1)"
    by (simp add: write_to_stream_def ping_def MsgHeader_new_def net_write_all_def net_init_def)
  from write_read_roundtrip [OF net_send.send_stream_laws_axioms net_framed.framed_stream_laws_axioms w1,
      of "n_tx w1 4" "net_init\<lparr>n_rx := (\<lambda>_. ([n_tx w1 4, [9]], Finished))\<rparr>" 6 "[9]"] w1
  show ?thesis by (simp add: ping_def net_init_def)
qed

text \<open>
  C14. Ordering: messages written one after the other to a stream are read back in the order
  they were sent, none lost and none added, and the reader then sees the end of the stream.
\<close>

theorem messages_arrive_in_order:
  assumes "send_stream_laws E sent" and "framed_stream_laws E avail fate"
    and "write_msgs E ms s w = (Inr (), w1)" and "sent w s = []"
    and "\<forall>m \<in> set ms. sendable m"
    and "avail w2 r = sent w1 s" and "fate w2 r = Finished"
  shows "fst (read_msgs E r (Suc (length ms)) w2) = map (\<lambda>m. Inr (Some m)) ms @ [Inr None]"
proof -
  from send_stream_laws.write_msgs_sent [OF assms(1,3)] assms(4-6) have
    fr: "avail w2 r = encode_frames E ms @ []"
      "\<forall>m \<in> set ms. sendable m \<and> (\<exists>bs. encode_frame E m = Inr bs)"
    by auto
  from framed_stream_laws.read_msgs_frames [OF assms(2) fr(2,1)] obtain w3 where
    w3: "read_msgs E r (length ms) w2 = (map (\<lambda>m. Inr (Some m)) ms, w3)"
      "avail w3 r = []" "fate w3 r = Finished"
    using assms(7) by auto
  have "recv_stream_laws E avail fate"
    using assms(2) by (simp add: framed_stream_laws_def)
  from recv_stream_laws.read_refines [OF this, of r w3] w3(2,3) have
    "fst (read_from_stream E r w3) = Inr None"
    by (auto simp: decode_frame_def)
  with w3(1) show ?thesis
    using read_msgs_add [of E r "length ms" 1 w2] by (simp split: prod.splits)
qed

text \<open>Two user messages with a control message between them.\<close>

definition chat :: "WireMsg list" where
  "chat = [UserMsg [1, 2, 3], EndpointEchoReq, UserMsg [4]]"

theorem messages_arrive_in_order_witness:
  "\<exists>w1. write_msgs net_env chat 4 net_init = (Inr (), w1)
     \<and> fst (read_msgs net_env 6 4 (net_init\<lparr>n_rx := (\<lambda>_. ([n_tx w1 4], Finished))\<rparr>))
         = [Inr (Some (UserMsg [1, 2, 3])), Inr (Some EndpointEchoReq), Inr (Some (UserMsg [4])), Inr None]"
proof -
  obtain w1 where w1: "write_msgs net_env chat 4 net_init = (Inr (), w1)"
    by (simp add: chat_def write_to_stream_def MsgHeader_new_def net_write_all_def net_init_def)
  have "fst (read_msgs net_env 6 (Suc (length chat)) (net_init\<lparr>n_rx := (\<lambda>_. ([n_tx w1 4], Finished))\<rparr>))
      = map (\<lambda>m. Inr (Some m)) chat @ [Inr None]"
    by (rule messages_arrive_in_order [OF net_send.send_stream_laws_axioms
          net_framed.framed_stream_laws_axioms w1]) (simp_all add: chat_def sendable_def net_init_def)
  moreover have "Suc (length chat) = 4" by (simp add: chat_def)
  moreover have "map (\<lambda>m. Inr (Some m)) chat @ [Inr None] = [Inr (Some (UserMsg [1, 2, 3])),
      Inr (Some EndpointEchoReq), Inr (Some (UserMsg [4])), Inr None]"
    by (simp add: chat_def)
  ultimately have r: "fst (read_msgs net_env 6 4 (net_init\<lparr>n_rx := (\<lambda>_. ([n_tx w1 4], Finished))\<rparr>))
      = [Inr (Some (UserMsg [1, 2, 3])), Inr (Some EndpointEchoReq), Inr (Some (UserMsg [4])), Inr None]"
    by (simp only:)
  show ?thesis by (rule exI [of _ w1], rule conjI [OF w1 r])
qed

lemma frame_incomplete:
  assumes "encode_frame E m = Inr bs" "k < length bs"
  shows "\<not> frame_complete (take k bs)"
proof -
  from assms(1) obtain payload flag h where p: "msg_payload E m = Inr (payload, flag)"
    "MsgHeader_new payload flag = Inr h" "bs = MsgHeader_to_bytes h @ payload"
    by (rule encode_frame_Inr)
  from p(2) have n: "unat (data_len h) = length payload" and res: "reserved h = (0, 0)"
    by (auto simp: MsgHeader_new_Inr unat_of_nat take_bit_eq_mod)
  show ?thesis
  proof (cases "MSG_HEADER_LEN \<le> k")
    case True
    then have "take MSG_HEADER_LEN (take k bs) = MsgHeader_to_bytes h"
      by (simp add: p(3) min_absorb1 header.enc_width)
    with True n res assms(2) show ?thesis
      by (simp add: frame_complete_def header.dec_enc p(3) header.enc_width)
  qed (use assms(2) in \<open>simp add: frame_complete_def\<close>)
qed

lemma decode_frame_version: "decode_frame E (a # b # bs) fin = decode_frame E (c # d # bs) fin"
proof (cases "MSG_HEADER_LEN \<le> length (a # b # bs)")
  case True
  then have "take MSG_HEADER_LEN (x # y # bs) = x # y # take 7 bs" "7 \<le> length bs" for x y
    by (simp_all add: MSG_HEADER_LEN_def eval_nat_numeral)
  then show ?thesis
    by (simp add: decode_frame_def MsgHeader_from_bytes_def MSG_HEADER_LEN_def Let_def)
qed (simp add: decode_frame_def)

text \<open>
  C28. A frame that is cut short is never delivered: when a stream ends inside a frame, the read
  fails with the error of the way it ended, however much of the frame arrived.
\<close>

theorem truncated_frame_fails:
  assumes "recv_stream_laws E avail fate"
    and "encode_frame E m = Inr bs" and "avail w r = take k bs" and "0 < k" and "k < length bs"
  shows "fst (read_from_stream E r w) = Inl (cut_short (fate w r))"
proof -
  from assms(4,5) have "take k bs \<noteq> []" by auto
  with recv_stream_laws.read_refines [OF assms(1), of r w] frame_incomplete [OF assms(2,5)] assms(3)
  show ?thesis by (auto simp: decode_frame_incomplete)
qed

theorem truncated_frame_fails_witness:
  "fst (read_from_stream net_env 3 (net_init\<lparr>n_rx := (\<lambda>_. ([[0, 1, 0], [0, 0, 3, 0, 0, 0, 9, 8]], Finished))\<rparr>))
     = Inl (RecvError.Serialization (SerializationError_new ''Received too few bytes for message''))"
proof -
  let ?w = "net_init\<lparr>n_rx := (\<lambda>_. ([[0, 1, 0], [0, 0, 3, 0, 0, 0, 9, 8]], Finished))\<rparr>"
  have "encode_frame net_env (UserMsg [9, 8, 7]) = Inr [0, 1, 0, 0, 0, 3, 0, 0, 0, 9, 8, 7]"
    by (simp add: encode_frame_def MsgHeader_new_def MsgHeader_to_bytes_def u16_to_be_bytes_def
        u32_to_be_bytes_def MSG_PROTOCOL_VERSION_def USER_MSG_FLAG_def)
  from truncated_frame_fails [OF net_recv.recv_stream_laws_axioms this, of ?w 3 11] show ?thesis by simp
qed

text \<open>
  The loss of the connection while a message is read: before its first byte a benign loss is
  the end of the stream and any other loss is reported; inside a frame every loss is reported.
\<close>

theorem connection_loss_while_reading:
  assumes "recv_stream_laws E avail fate" and "fate w r = Broken (QR_ConnectionLost e) fin"
  shows "(avail w r = [] \<longrightarrow> fst (read_from_stream E r w) =
        (if is_benign (ConnectionError_from_quinn e) then Inr None
         else Inl (RecvError.ConnectionLost (ConnectionError_from_quinn e))))
    \<and> (avail w r \<noteq> [] \<and> \<not> frame_complete (avail w r) \<longrightarrow>
        fst (read_from_stream E r w) = Inl (RecvError.ConnectionLost (ConnectionError_from_quinn e)))"
proof -
  from recv_stream_laws.read_refines [OF assms(1), of r w] have
    "fst (read_from_stream E r w) = fst (decode_frame E (avail w r) (fate w r))" by auto
  moreover have "\<not> frame_complete []" by (simp add: frame_complete_def MSG_HEADER_LEN_def)
  ultimately show ?thesis using assms(2) by (auto simp: decode_frame_incomplete)
qed

theorem connection_loss_while_reading_witness:
  "fst (read_from_stream net_env 3 (net_init\<lparr>n_rx := (\<lambda>_. ([], Broken (QR_ConnectionLost Q_TimedOut) Finished))\<rparr>))
     = Inr None
   \<and> fst (read_from_stream net_env 3
         (net_init\<lparr>n_rx := (\<lambda>_. ([[0, 1, 0]], Broken (QR_ConnectionLost Q_TimedOut) Finished))\<rparr>))
     = Inl (RecvError.ConnectionLost ConnectionError.TimedOut)"
proof -
  let ?w = "\<lambda>cs. net_init\<lparr>n_rx := (\<lambda>_. (cs, Broken (QR_ConnectionLost Q_TimedOut) Finished))\<rparr>"
  have "\<not> frame_complete [0, 1, 0]" by (simp add: frame_complete_def MSG_HEADER_LEN_def)
  with connection_loss_while_reading [OF net_recv.recv_stream_laws_axioms, of "?w []" 3 Q_TimedOut]
    connection_loss_while_reading [OF net_recv.recv_stream_laws_axioms, of "?w [[0, 1, 0]]" 3 Q_TimedOut]
  show ?thesis by simp
qed

text \<open>
  A write that fails leaves the stream with a prefix of the frame behind what was there, or
  untouched when the message has no frame, and no other stream is touched.
\<close>

theorem failed_write_leaves_prefix:
  assumes "send_stream_laws E sent" and "write_to_stream E m s w = (Inl e, w')"
  shows "(encode_frame E m = Inl e \<and> w' = w
      \<or> (\<exists>bs k. encode_frame E m = Inr bs \<and> sent w' s = sent w s @ take k bs))
    \<and> (\<forall>s'. s' \<noteq> s \<longrightarrow> sent w' s' = sent w s')"
proof (cases "encode_frame E m")
  case (Inl e')
  with assms(2) show ?thesis by (simp add: write_encode_error)
next
  case (Inr bs)
  with send_stream_laws.write_prefix [OF assms] send_stream_laws.write_to_stream_other [OF assms]
  show ?thesis by blast
qed

theorem failed_write_leaves_prefix_witness:
  "\<exists>w' k. write_to_stream net_env (UserMsg [5, 6, 7]) 4
       (net_init\<lparr>n_tx_limit := (\<lambda>_. Some (10, QW_Stopped 2))\<rparr>)
         = (Inl (SendError.StreamLost (StreamError.Stopped 2)), w')
     \<and> n_tx w' 4 = take k [0, 1, 0, 0, 0, 3, 0, 0, 0, 5, 6, 7] \<and> n_tx w' 5 = []"
proof -
  let ?w = "net_init\<lparr>n_tx_limit := (\<lambda>_. Some (10, QW_Stopped 2))\<rparr>"
  obtain w' where w': "write_to_stream net_env (UserMsg [5, 6, 7]) 4 ?w
      = (Inl (SendError.StreamLost (StreamError.Stopped 2)), w')"
    by (simp add: write_to_stream_def MsgHeader_new_def MsgHeader_to_bytes_def Let_def
        net_write_all_def net_init_def)
  have "encode_frame net_env (UserMsg [5, 6, 7]) = Inr [0, 1, 0, 0, 0, 3, 0, 0, 0, 5, 6, 7]"
    by (simp add: encode_frame_def MsgHeader_new_def MsgHeader_to_bytes_def u16_to_be_bytes_def
        u32_to_be_bytes_def MSG_PROTOCOL_VERSION_def USER_MSG_FLAG_def)
  with failed_write_leaves_prefix [OF net_send.send_stream_laws_axioms w'] w' show ?thesis
    by (auto simp: net_init_def)
qed

text \<open>
  C29. A user message of 4 GiB or more is refused before anything is written: the 32-bit length
  field of the header never wraps around.
\<close>

theorem too_long_message_refused:
  assumes "2 ^ 32 \<le> length msg"
  shows "write_to_stream E (UserMsg msg) s w =
    (Inl (SendError.Serialization (SerializationError_new
       (''The serialized message is too long ('' @ show_nat (length msg) @ '' bytes, max: 4 GiB)''))), w)"
  using assms by (simp add: write_to_stream_def MsgHeader_new_def)

theorem too_long_message_refused_witness:
  "write_to_stream net_env (UserMsg (replicate (2 ^ 32) 0)) 4 net_init =
    (Inl (SendError.Serialization (SerializationError_new
       (''The serialized message is too long ('' @ show_nat (2 ^ 32) @ '' bytes, max: 4 GiB)''))), net_init)"
  using too_long_message_refused [of "replicate (2 ^ 32) 0" net_env 4 net_init]
  by (simp only: length_replicate order_refl)

text \<open>
  The header of a message: nine bytes that start with protocol version 1, hold the exact
  length of the payload, and are decoded back to the header whatever follows them.
\<close>

theorem header_round_trip:
  assumes "MsgHeader_new msg flag = Inr h"
  shows "length (MsgHeader_to_bytes h) = MSG_HEADER_LEN \<and> take 2 (MsgHeader_to_bytes h) = [0, 1]
    \<and> unat (data_len h) = length msg \<and> usr_msg_flag h = flag
    \<and> MsgHeader_from_bytes (take MSG_HEADER_LEN (MsgHeader_to_bytes h @ rest)) = h"
proof -
  from assms have h: "version h = 1" "reserved h = (0, 0)" "usr_msg_flag h = flag"
    "unat (data_len h) = length msg"
    by (auto simp: MsgHeader_new_Inr MSG_PROTOCOL_VERSION_def unat_of_nat take_bit_eq_mod)
  then have "take 2 (MsgHeader_to_bytes h) = [0, 1]"
    by (simp add: MsgHeader_to_bytes_def u16_to_be_bytes_def Let_def)
  with h header.enc_width [of h] header.dec_prefix [of h rest] show ?thesis by simp
qed

theorem header_round_trip_witness:
  "\<exists>h. MsgHeader_new [9, 8, 7] 1 = Inr h
     \<and> MsgHeader_from_bytes (take MSG_HEADER_LEN (MsgHeader_to_bytes h @ [4])) = h"
proof -
  obtain h where "MsgHeader_new [9, 8, 7] 1 = Inr h" by (simp add: MsgHeader_new_def)
  with header_round_trip [OF this, of "[4]"] show ?thesis by blast
qed

text \<open>
  The protocol version of a received header is not looked at: two streams that differ in
  those two bytes only are read alike.
\<close>

theorem version_not_checked:
  assumes "recv_stream_laws E avail fate"
    and "avail w r = a # b # bs" and "avail w2 r = c # d # bs" and "fate w2 r = fate w r"
  shows "fst (read_from_stream E r w) = fst (read_from_stream E r w2)"
  using recv_stream_laws.read_refines [OF assms(1), of r w]
    recv_stream_laws.read_refines [OF assms(1), of r w2] assms(2-4) decode_frame_version [of E a b bs _ c d]
  by auto

theorem version_not_checked_witness:
  "fst (read_from_stream net_env 3 hello_world)
     = fst (read_from_stream net_env 3
         (net_init\<lparr>n_rx := (\<lambda>_. ([[9, 9, 0, 0, 0, 5, 0, 0, 0, 104, 101, 108, 108, 111, 7, 7]], Finished))\<rparr>))"
  by (rule version_not_checked [OF net_recv.recv_stream_laws_axioms]) (simp_all add: hello_world_def)

end
