(* ===== verification/Uni_Listener.thy ===== *)
theory Uni_Listener
  imports Listeners
begin

text \<open>
  The listener for unidirectional streams refines its specification: for every sequence of
  streams a peer opens it stops, and it has put on the channel, in order, the results that
  the bytes of the streams specify.
\<close>

section \<open>What a unidirectional stream delivers\<close>

lemma at_end_not_Some: "at_end fin \<noteq> Inr (Some m)"
  by (cases fin rule: at_end.cases) auto

lemma decode_frame_Some:
  assumes "decode_frame E bs fin = (Inr (Some m), rest)"
  shows "frame_complete bs" and "length rest < length bs"
proof -
  have "bs \<noteq> []" using assms by (auto simp: decode_frame_def at_end_not_Some)
  with decode_frame_shorter [of bs E fin] assms show "length rest < length bs" by simp
  show "frame_complete bs"
    using assms \<open>bs \<noteq> []\<close> by (auto simp: decode_frame_incomplete intro: ccontr)
qed

text \<open>
  The specification of the listener: the results it gets out of the bytes of one stream, and
  out of the streams of a connection.
\<close>

function uni_items :: "'w env \<Rightarrow> bytes \<Rightarrow> stream_end \<Rightarrow> (RecvError + bytes) list" where
  "uni_items E bs fin =
     (case decode_frame E bs fin of
        (Inr (Some (UserMsg m)), rest) \<Rightarrow> Inr m # uni_items E rest fin
      | (Inr None, rest) \<Rightarrow> []
      | (Inr msg, rest) \<Rightarrow> [Inl (RecvError.Serialization (SerializationError_unexpected msg))]
      | (Inl e, rest) \<Rightarrow> [Inl e])"
  by pat_completeness auto
termination
  by (relation "measure (\<lambda>(E, bs, fin). length bs)") (auto dest!: sym [of "(_, _)"] decode_frame_Some(2))

declare uni_items.simps [simp del]

fun lost_result :: "RecvError + 'a \<Rightarrow> bool" where
  "lost_result (Inl e) = is_connection_lost e"
| "lost_result (Inr x) = False"

fun uni_results ::
  "'w env \<Rightarrow> (recv_id \<Rightarrow> bytes) \<Rightarrow> (recv_id \<Rightarrow> stream_end) \<Rightarrow> (quinn_ConnectionError + recv_id) list
   \<Rightarrow> (RecvError + bytes) list" where
  "uni_results E avail fate [] = []"
| "uni_results E avail fate (Inl e # xs) =
     (if is_benign (ConnectionError_from_quinn e) then []
      else [Inl (RecvError.ConnectionLost (ConnectionError_from_quinn e))])"
| "uni_results E avail fate (Inr r # xs) =
     (if \<exists>x \<in> set (uni_items E (avail r) (fate r)). lost_result x
      then uni_items E (avail r) (fate r)
      else uni_items E (avail r) (fate r) @ uni_results E avail fate xs)"

definition uni_item :: "RecvError + bytes \<Rightarrow> msg_item" where
  "uni_item = map_sum id (\<lambda>b. (b, None))"

lemma uni_results_cong:
  "(\<And>r. r \<in> set (rights xs) \<Longrightarrow> avail r = avail' r \<and> fate r = fate' r) \<Longrightarrow>
     uni_results E avail fate xs = uni_results E avail' fate' xs"
  by (induction E avail fate xs rule: uni_results.induct) auto

context runtime_laws
begin

lemma uni_forward_open:
  assumes "g_rx_open G w ch"
  obtains w' where "uni_forward E ch res w = (lost_result res, w')"
    "g_log G w' ch = g_log G w ch @ [uni_item res]" "unchanged G {} {} {ch} w w'"
proof -
  from msg_send_open [OF assms] obtain w' where w': "t_msg_send E ch (uni_item res) w = (Inr (), w')"
    "g_log G w' ch = g_log G w ch @ [uni_item res]" by blast
  with keepsD [OF msg_send_keeps w'(1)] that show ?thesis
    by (cases res) (auto simp: uni_forward_def uni_item_def)
qed

end

text \<open>What polling the current stream gives, by the frame at its head.\<close>

lemma uni_poll_decode:
  assumes "decode_frame E bs fin = (res, rest)" and "read_from_stream E r w = (res, w1)"
  obtains (item) b where "res = Inr (Some (UserMsg b))" "uni_items E bs fin = Inr b # uni_items E rest fin"
      "uni_poll E c (Some r) w = (U_Item (Inr b), Some r, w1)"
  | (over) "uni_items E bs fin = []" "uni_poll E c (Some r) w = (U_More, None, w1)"
  | (error) e where "uni_items E bs fin = [Inl e]" "uni_poll E c (Some r) w = (U_Item (Inl e), None, w1)"
proof (cases res)
  case (Inl e)
  with assms that(3) show ?thesis by (simp add: uni_items.simps [of E bs] uni_poll_def)
next
  case (Inr m)
  show ?thesis
  proof (cases m)
    case None
    with Inr assms that(2) show ?thesis by (simp add: uni_items.simps [of E bs] uni_poll_def)
  next
    case (Some msg)
    with Inr assms that(1,3) show ?thesis by (cases msg) (simp_all add: uni_items.simps [of E bs] uni_poll_def)
  qed
qed

text \<open>Nothing resolves the \<open>alive\<close> future: a handle of the connection is held.\<close>

definition handles_held :: "'w env \<Rightarrow> alive_id \<Rightarrow> bool" where
  "handles_held E alive \<longleftrightarrow> (\<forall>w. t_select E alive w = LeftReady \<or> t_select E alive w = LeftFirst)"

lemma uni_step_held:
  assumes "handles_held E alive"
  shows "uni_step E c alive ch (U_Select cur False) w =
     uni_advance E c ch (\<lambda>x. U_Select x False) False cur w"
  using assms [unfolded handles_held_def, THEN spec, of w] by auto

lemma uni_loop_advance:
  assumes "handles_held E alive"
    and "uni_advance E c ch (\<lambda>x. U_Select x False) False cur w = (st, w')"
  shows "uni_loop E c alive ch (U_Select cur False) w = uni_loop E c alive ch st w'"
  using assms by (subst uni_loop.simps) (simp add: uni_step_held del: uni_step.simps)

lemma uni_loop_stopped: "uni_loop E c alive ch U_Stopped w = Some (U_Stopped, w)"
  by (subst uni_loop.simps) simp

context runtime_laws
begin

text \<open>Reading a message leaves the channel as it was.\<close>

lemma read_step:
  assumes "ch \<in> g_live_ch G w" "g_rx_open G w ch" "r \<in> g_live_rx G w"
  obtains res rest w1 where "decode_frame E (g_avail G w r) (g_fate G w r) = (res, rest)"
    "read_from_stream E r w = (res, w1)" "g_avail G w1 r = rest"
    "frame_complete (g_avail G w r) \<longrightarrow> g_fate G w1 r = g_fate G w r"
    "\<not> frame_complete (g_avail G w r) \<longrightarrow> \<not> ends_lost (g_fate G w r) \<longrightarrow> g_fate G w1 r = after_end (g_fate G w r)"
    "unchanged G {r} {} {} w w1" "ch \<in> g_live_ch G w1" "g_rx_open G w1 ch"
    "g_log G w1 ch = g_log G w ch" "r \<in> g_live_rx G w1"
proof -
  obtain res rest where dec: "decode_frame E (g_avail G w r) (g_fate G w r) = (res, rest)" by fastforce
  with read_refines [of r w] obtain w1 where
    rd: "read_from_stream E r w = (res, w1)" "g_avail G w1 r = rest"
      "frame_complete (g_avail G w r) \<longrightarrow> g_fate G w1 r = g_fate G w r"
      "\<not> frame_complete (g_avail G w r) \<longrightarrow> \<not> ends_lost (g_fate G w r) \<longrightarrow> g_fate G w1 r = after_end (g_fate G w r)"
    by auto
  note u = keepsD [OF read_from_stream_keeps rd(1)]
  with assms have "ch \<in> g_live_ch G w1" "g_rx_open G w1 ch" "g_log G w1 ch = g_log G w ch"
    "r \<in> g_live_rx G w1"
    by (auto simp: unchangedD)
  with dec rd u show ?thesis by (rule that)
qed

text \<open>A result is forwarded, and the loop goes on unless it was the loss of the connection.\<close>

lemma uni_loop_item:
  assumes "handles_held E alive" "uni_poll E c cur w = (U_Item res, cur', w1)" "g_rx_open G w1 ch"
  obtains w2 where "g_log G w2 ch = g_log G w1 ch @ [uni_item res]" "unchanged G {} {} {ch} w1 w2"
    "uni_loop E c alive ch (U_Select cur False) w =
       (if lost_result res then Some (U_Stopped, w2) else uni_loop E c alive ch (U_Select cur' False) w2)"
proof -
  from uni_forward_open [OF assms(3), of res] obtain w2 where
    w2: "uni_forward E ch res w1 = (lost_result res, w2)"
      "g_log G w2 ch = g_log G w1 ch @ [uni_item res]" "unchanged G {} {} {ch} w1 w2" .
  from assms(2) w2(1) have "uni_loop E c alive ch (U_Select cur False) w =
      (if lost_result res then Some (U_Stopped, w2) else uni_loop E c alive ch (U_Select cur' False) w2)"
    by (auto simp: uni_loop_advance [OF assms(1)] uni_advance_def uni_loop_stopped)
  with w2(2,3) that show ?thesis by blast
qed

text \<open>
  One round on the current stream: a message is forwarded and the rest of the stream remains,
  or the stream is over, or an error is forwarded and the stream is left.
\<close>

lemma uni_stream_step:
  assumes held: "handles_held E alive"
    and "ch \<in> g_live_ch G w" "g_rx_open G w ch" "r \<in> g_live_rx G w"
  obtains (item) b w2 where
      "uni_items E (g_avail G w r) (g_fate G w r) = Inr b # uni_items E (g_avail G w2 r) (g_fate G w2 r)"
      "length (g_avail G w2 r) < length (g_avail G w r)" "unchanged G {r} {} {ch} w w2"
      "g_log G w2 ch = g_log G w ch @ [uni_item (Inr b)]"
      "uni_loop E c alive ch (U_Select (Some r) False) w = uni_loop E c alive ch (U_Select (Some r) False) w2"
  | (left) res w2 where
      "uni_items E (g_avail G w r) (g_fate G w r) = res" "res = [] \<or> (\<exists>e. res = [Inl e])"
      "unchanged G {r} {} {ch} w w2" "g_log G w2 ch = g_log G w ch @ map uni_item res"
      "uni_loop E c alive ch (U_Select (Some r) False) w =
         (if \<exists>x \<in> set res. lost_result x then Some (U_Stopped, w2)
          else uni_loop E c alive ch (U_Select None False) w2)"
proof -
  let ?bs = "g_avail G w r" and ?fin = "g_fate G w r"
  obtain res rest w1 where
    dec: "decode_frame E ?bs ?fin = (res, rest)" and rd: "read_from_stream E r w = (res, w1)"
      "g_avail G w1 r = rest" "frame_complete ?bs \<longrightarrow> g_fate G w1 r = ?fin"
      "\<not> frame_complete ?bs \<longrightarrow> \<not> ends_lost ?fin \<longrightarrow> g_fate G w1 r = after_end ?fin" and
    u1: "unchanged G {r} {} {} w w1" and ch1: "ch \<in> g_live_ch G w1" "g_rx_open G w1 ch"
      "g_log G w1 ch = g_log G w ch" "r \<in> g_live_rx G w1"
    by (rule read_step [OF assms(2-)])
  have frame: "unchanged G {r} {} {ch} w w2" if "unchanged G {} {} {ch} w1 w2" for w2
    by (rule unchanged_trans [OF unchanged_mono [OF u1] unchanged_mono [OF that]]) auto
  from dec rd(1) show thesis
  proof (cases rule: uni_poll_decode [where c = c])
    case (item b)
    from dec item(1) have complete: "frame_complete ?bs" "length rest < length ?bs"
      by (auto dest: decode_frame_Some)
    from uni_loop_item [OF held item(3) ch1(2)] obtain w2 where
      w2: "g_log G w2 ch = g_log G w1 ch @ [uni_item (Inr b)]" "unchanged G {} {} {ch} w1 w2"
        "uni_loop E c alive ch (U_Select (Some r) False) w =
           (if lost_result (Inr b :: RecvError + bytes) then Some (U_Stopped, w2)
            else uni_loop E c alive ch (U_Select (Some r) False) w2)" .
    from unchangedD(1,2) [OF w2(2)] ch1(4) rd(2,3) complete(1) have "g_avail G w2 r = rest" "g_fate G w2 r = ?fin"
      by auto
    with that(1) [of b w2] frame [OF w2(2)] w2 item(2) complete(2) ch1(3) show ?thesis by simp
  next
    case over
    then have "uni_loop E c alive ch (U_Select (Some r) False) w = uni_loop E c alive ch (U_Select None False) w1"
      by (simp add: uni_loop_advance [OF held] uni_advance_def)
    with that(2) [of "[]" w1] over(1) frame [OF unchanged_refl] ch1(3) show ?thesis by simp
  next
    case (error e)
    from uni_loop_item [OF held error(2) ch1(2)] obtain w2 where
      "g_log G w2 ch = g_log G w1 ch @ [uni_item (Inl e)]" "unchanged G {} {} {ch} w1 w2"
      "uni_loop E c alive ch (U_Select (Some r) False) w =
         (if lost_result (Inl e :: RecvError + bytes) then Some (U_Stopped, w2)
          else uni_loop E c alive ch (U_Select None False) w2)" .
    with that(2) [of "[Inl e]" w2] error(1) ch1(3) frame show ?thesis by simp
  qed
qed

text \<open>The listener reads a stream to its end and forwards what it specifies, in order.\<close>

lemma uni_stream:
  assumes held: "handles_held E alive"
    and "ch \<in> g_live_ch G w" "g_rx_open G w ch" "r \<in> g_live_rx G w"
  shows "\<exists>w'. unchanged G {r} {} {ch} w w'
    \<and> g_log G w' ch = g_log G w ch @ map uni_item (uni_items E (g_avail G w r) (g_fate G w r))
    \<and> uni_loop E c alive ch (U_Select (Some r) False) w =
        (if \<exists>x \<in> set (uni_items E (g_avail G w r) (g_fate G w r)). lost_result x
         then Some (U_Stopped, w') else uni_loop E c alive ch (U_Select None False) w')"
  using assms(2-)
proof (induction "length (g_avail G w r)" arbitrary: w rule: less_induct)
  case (less w)
  from held less.prems show ?case
  proof (cases rule: uni_stream_step [where c = c])
    case (item b w2)
    from unchangedD(6,7,9) [OF item(3)] less.prems have "ch \<in> g_live_ch G w2" "g_rx_open G w2 ch" "r \<in> g_live_rx G w2"
      by auto
    from less.hyps [OF item(2) this] obtain w3 where w3: "unchanged G {r} {} {ch} w2 w3"
      "g_log G w3 ch = g_log G w2 ch @ map uni_item (uni_items E (g_avail G w2 r) (g_fate G w2 r))"
      "uni_loop E c alive ch (U_Select (Some r) False) w2 =
         (if \<exists>x \<in> set (uni_items E (g_avail G w2 r) (g_fate G w2 r)). lost_result x
          then Some (U_Stopped, w3) else uni_loop E c alive ch (U_Select None False) w3)"
      by blast
    with unchanged_trans [OF item(3) w3(1)] item(1,4,5) show ?thesis by (intro exI [of _ w3]) simp
  next
    case (left res w2)
    then show ?thesis by (intro exI [of _ w2]) simp
  qed
qed

text \<open>Accepting fails: a benign close ends the listener quietly, any other error is its last item.\<close>

lemma uni_loop_refused:
  assumes held: "handles_held E alive" and "q_next_uni E c w = (Some (Inl e), w1)" and "g_rx_open G w1 ch"
  shows "\<exists>w2. uni_loop E c alive ch (U_Select None False) w = Some (U_Stopped, w2)
    \<and> g_log G w2 ch = g_log G w1 ch @
        (if is_benign (ConnectionError_from_quinn e) then []
         else [uni_item (Inl (RecvError.ConnectionLost (ConnectionError_from_quinn e)))])"
proof (cases "is_benign (ConnectionError_from_quinn e)")
  case True
  with assms(2) show ?thesis
    by (auto simp: uni_loop_advance [OF held] uni_advance_def uni_poll_def filter_benign_close_def
        uni_loop_stopped)
next
  case False
  with assms(2) have "uni_poll E c None w =
      (U_Item (Inl (RecvError.ConnectionLost (ConnectionError_from_quinn e))), None, w1)"
    by (simp add: uni_poll_def filter_benign_close_def)
  from uni_loop_item [OF held this assms(3)] obtain w2 where
    "g_log G w2 ch = g_log G w1 ch @ [uni_item (Inl (RecvError.ConnectionLost (ConnectionError_from_quinn e)))]"
    "uni_loop E c alive ch (U_Select None False) w = Some (U_Stopped, w2)"
    by auto
  with False show ?thesis by simp
qed

text \<open>Reading one stream leaves the streams that are still to come as they were.\<close>

lemma uni_rest:
  assumes "same_streams G {} {} {} w w1" and "unchanged G {r} {} {ch} w1 w2"
    and "r \<notin> set (rights xs)" and "set (rights xs) \<subseteq> g_live_rx G w"
  shows "set (rights xs) \<subseteq> g_live_rx G w2"
    and "uni_results E (g_avail G w2) (g_fate G w2) xs = uni_results E (g_avail G w) (g_fate G w) xs"
proof -
  have streams: "g_avail G w2 q = g_avail G w q \<and> g_fate G w2 q = g_fate G w q \<and> q \<in> g_live_rx G w2"
    if "q \<in> set (rights xs)" for q
  proof -
    from that assms(3,4) have "q \<in> g_live_rx G w" "q \<noteq> r" by auto
    with unchangedD(1,2,7) [OF assms(2), of q] same_streamsD(1,2,7) [OF assms(1), of q] show ?thesis by auto
  qed
  then show "set (rights xs) \<subseteq> g_live_rx G w2" by blast
  show "uni_results E (g_avail G w2) (g_fate G w2) xs = uni_results E (g_avail G w) (g_fate G w) xs"
    by (rule uni_results_cong) (simp add: streams)
qed

lemma uni_loop_accepted:
  "handles_held E alive \<Longrightarrow> q_next_uni E c w = (Some (Inr r), w1) \<Longrightarrow>
   uni_loop E c alive ch (U_Select None False) w = uni_loop E c alive ch (U_Select (Some r) False) w1"
  by (simp add: uni_loop_advance uni_advance_def uni_poll_def filter_benign_close_def)

lemma uni_connection:
  assumes held: "handles_held E alive"
    and "ch \<in> g_live_ch G w" "g_rx_open G w ch" "c \<in> g_live_conn G w"
    and "distinct (rights (g_uni G w c))" "set (rights (g_uni G w c)) \<subseteq> g_live_rx G w"
  shows "\<exists>w'. uni_loop E c alive ch (U_Select None False) w = Some (U_Stopped, w')
    \<and> g_log G w' ch = g_log G w ch @ map uni_item (uni_results E (g_avail G w) (g_fate G w) (g_uni G w c))"
  using assms(2-)
proof (induction "g_uni G w c" arbitrary: w)
  case Nil
  from next_uni_end [OF Nil(1) [symmetric]] obtain w' where
    "q_next_uni E c w = (None, w')" "unchanged G {} {} {} w w'" by blast
  with Nil show ?case
    by (auto simp: uni_loop_advance [OF held] uni_advance_def uni_poll_def filter_benign_close_def
        uni_loop_stopped unchangedD)
next
  case (Cons x xs)
  from next_uni [OF Cons(2) [symmetric]] obtain w1 where w1: "q_next_uni E c w = (Some x, w1)"
    "g_uni G w1 c = xs" "same_streams G {} {} {} w w1" by blast
  note s1 = same_streamsD [OF w1(3)]
  from Cons.prems s1 have ch1: "ch \<in> g_live_ch G w1" "g_rx_open G w1 ch" "g_log G w1 ch = g_log G w ch"
    "c \<in> g_live_conn G w1"
    by auto
  show ?case
  proof (cases x)
    case (Inl e)
    with uni_loop_refused [OF held, of c w e w1 ch] w1(1) ch1(2,3) show ?thesis
      by (auto simp flip: Cons(2))
  next
    case (Inr r)
    from Cons.prems Inr Cons(2) have r: "r \<in> g_live_rx G w" "r \<notin> set (rights xs)"
      "distinct (rights xs)" "set (rights xs) \<subseteq> g_live_rx G w"
      by (auto simp flip: Cons(2))
    have start: "uni_loop E c alive ch (U_Select None False) w =
        uni_loop E c alive ch (U_Select (Some r) False) w1"
      using uni_loop_accepted [OF held] w1(1) Inr by simp
    let ?items = "uni_items E (g_avail G w r) (g_fate G w r)"
    from uni_stream [OF held ch1(1,2), of r c] s1(1,2,7) [of r] r(1) obtain w2 where
      w2: "unchanged G {r} {} {ch} w1 w2" "g_log G w2 ch = g_log G w ch @ map uni_item ?items"
        "uni_loop E c alive ch (U_Select (Some r) False) w1 =
          (if \<exists>x \<in> set ?items. lost_result x
           then Some (U_Stopped, w2) else uni_loop E c alive ch (U_Select None False) w2)"
      using ch1(3) by auto
    show ?thesis
    proof (cases "\<exists>x \<in> set ?items. lost_result x")
      case True
      with start w2 Inr show ?thesis by (auto simp flip: Cons(2))
    next
      case False
      have g: "g_uni G w2 c = xs" using unchanged_incoming(1) [OF w2(1) ch1(4)] w1(2) by simp
      note rest = uni_rest [OF w1(3) w2(1) r(2,4)]
      from Cons(1) [OF g [symmetric]] g r(3) rest(1) unchangedD(6,9,10) [OF w2(1)] ch1 obtain w3 where
        "uni_loop E c alive ch (U_Select None False) w2 = Some (U_Stopped, w3)"
        "g_log G w3 ch = g_log G w2 ch @ map uni_item (uni_results E (g_avail G w2) (g_fate G w2) xs)"
        by auto
      with rest(2) show ?thesis using start w2(2,3) False Inr by (auto simp flip: Cons(2))
    qed
  qed
qed

end

end
