(* ===== verification/Bi_Listener.thy ===== *)
theory Bi_Listener
  imports Uni_Listener "HOL-Library.Sublist"
begin

text \<open>
  The listener for bidirectional streams: the loop that serves one stream ends and delivers
  the items of the stream in order; with any number of streams served concurrently, in every
  interleaving, the items of each stream keep their order, and every step uses up some of a
  finite amount of work.
\<close>

section \<open>What a bidirectional stream delivers\<close>

text \<open>
  The specification of the loop that serves a stream: the items it puts on the channel. After
  a frame that cannot be decoded the loop reads on, and so it does after an error of the stream
  other than the loss of the connection: it forwards every error the stream reports.
\<close>

function bi_items :: "'w env \<Rightarrow> send_id \<Rightarrow> bytes \<Rightarrow> stream_end \<Rightarrow> msg_item list" where
  "bi_items E s bs fin =
     (case decode_frame E bs fin of
        (Inl e, rest) \<Rightarrow>
          Inl e # (if frame_complete bs then bi_items E s rest fin
                   else if ends_lost fin then [] else bi_items E s rest (after_end fin))
      | (Inr None, rest) \<Rightarrow> []
      | (Inr (Some (UserMsg m)), rest) \<Rightarrow> Inr (m, Some s) # bi_items E s rest fin
      | (Inr (Some msg), rest) \<Rightarrow> bi_items E s rest fin)"
  by pat_completeness auto

lemma frame_complete_not_Nil: "frame_complete bs \<Longrightarrow> bs \<noteq> []"
  by (auto simp: frame_complete_def MSG_HEADER_LEN_def)

lemma decode_frame_complete_shorter:
  "frame_complete bs \<Longrightarrow> decode_frame E bs fin = (res, rest) \<Longrightarrow> length rest < length bs"
  using decode_frame_shorter [of bs E fin] frame_complete_not_Nil by fastforce

lemma decode_frame_cut_short:
  assumes "\<not> frame_complete bs" "decode_frame E bs fin = (Inl e, rest)"
  shows "rest = []" "length rest + errors_left (after_end fin) < length bs + errors_left fin"
  using assms by (cases fin; force simp: decode_frame_incomplete split: if_splits)+

termination bi_items
  by (relation "measure (\<lambda>(E, s, bs, fin). length bs + errors_left fin)")
    (auto dest!: sym [of "(_, _)"] decode_frame_Some(2) decode_frame_complete_shorter
      intro: decode_frame_cut_short(2))

declare bi_items.simps [simp del]

lemma decode_payload_not_lost: "decode_payload E flag data = Inl e \<Longrightarrow> \<not> is_connection_lost e"
  by (auto simp: decode_payload_def RecvError_from_bincode_def split: if_splits sum.splits)

lemma cut_short_lost: "is_connection_lost (cut_short fin) \<longleftrightarrow> ends_lost fin"
proof (cases fin)
  case (Broken e f)
  then show ?thesis by (cases e) simp_all
qed simp

lemma at_end_lost: "at_end fin = Inl e \<Longrightarrow> is_connection_lost e \<longleftrightarrow> ends_lost fin"
  by (cases fin rule: at_end.cases) (auto split: if_splits)

text \<open>An error is the loss of the connection exactly when the stream broke off with it.\<close>

lemma decode_frame_error:
  assumes "decode_frame E bs fin = (Inl e, rest)"
  shows "is_connection_lost e \<longleftrightarrow> \<not> frame_complete bs \<and> ends_lost fin"
proof (cases "frame_complete bs")
  case True
  with assms show ?thesis
    by (auto simp: decode_frame_complete Let_def dest: decode_payload_not_lost)
next
  case False
  with assms show ?thesis
    by (auto simp: decode_frame_incomplete cut_short_lost at_end_lost split: if_splits)
qed

text \<open>How much of a stream is left to read, its end included.\<close>

definition left_to_read :: "'w ghost \<Rightarrow> 'w \<Rightarrow> recv_id \<Rightarrow> nat" where
  "left_to_read G w r = length (g_avail G w r) + errors_left (g_fate G w r)"

text \<open>
  What an iteration achieves: it goes on, with some of the items forwarded and less left to
  read, or it stops with all of them forwarded.
\<close>

definition bi_progress ::
  "'w env \<Rightarrow> 'w ghost \<Rightarrow> chan_id \<Rightarrow> send_id \<Rightarrow> recv_id \<Rightarrow> 'w \<Rightarrow> bool \<times> 'w \<Rightarrow> bool" where
  "bi_progress E G ch s r w out \<longleftrightarrow>
     (case out of (go, w') \<Rightarrow>
        unchanged G {r} {s} {ch} w w'
        \<and> (if go then left_to_read G w' r < left_to_read G w r
             \<and> (\<exists>items. g_log G w' ch = g_log G w ch @ items
                  \<and> bi_items E s (g_avail G w r) (g_fate G w r)
                      = items @ bi_items E s (g_avail G w' r) (g_fate G w' r))
           else g_log G w' ch = g_log G w ch @ bi_items E s (g_avail G w r) (g_fate G w r)))"

text \<open>The state after a read, as \<open>read_step\<close> describes it.\<close>

definition read_to ::
  "'w env \<Rightarrow> 'w ghost \<Rightarrow> chan_id \<Rightarrow> recv_id \<Rightarrow> 'w \<Rightarrow> RecvError + WireMsg option \<Rightarrow> 'w \<Rightarrow> bool" where
  "read_to E G ch r w res w1 \<longleftrightarrow>
     decode_frame E (g_avail G w r) (g_fate G w r) = (res, g_avail G w1 r)
     \<and> g_fate G w1 r = (if frame_complete (g_avail G w r) then g_fate G w r
                        else if ends_lost (g_fate G w r) then g_fate G w1 r else after_end (g_fate G w r))
     \<and> unchanged G {r} {} {} w w1 \<and> ch \<in> g_live_ch G w1 \<and> g_rx_open G w1 ch
     \<and> g_log G w1 ch = g_log G w ch \<and> r \<in> g_live_rx G w1"

lemma read_to_frame:
  assumes "read_to E G ch r w res w1" "unchanged G {} {s} {ch} w1 w2"
  shows "unchanged G {r} {s} {ch} w w2" "g_avail G w2 r = g_avail G w1 r" "g_fate G w2 r = g_fate G w1 r"
proof -
  from assms(1) have u1: "unchanged G {r} {} {} w w1" and "r \<in> g_live_rx G w1"
    by (auto simp: read_to_def)
  then show "unchanged G {r} {s} {ch} w w2"
    by - (rule unchanged_trans [OF unchanged_mono [OF u1] unchanged_mono [OF assms(2)]], auto)
  show "g_avail G w2 r = g_avail G w1 r" "g_fate G w2 r = g_fate G w1 r"
    using unchangedD(1,2) [OF assms(2)] \<open>r \<in> g_live_rx G w1\<close> by auto
qed

text \<open>A whole frame was read, and what followed forwarded its items.\<close>

lemma bi_progress_frame:
  assumes "read_to E G ch r w res w1" "frame_complete (g_avail G w r)" "unchanged G {} {s} {ch} w1 w2"
    "g_log G w2 ch = g_log G w1 ch @ items"
    "bi_items E s (g_avail G w r) (g_fate G w r) = items @ bi_items E s (g_avail G w1 r) (g_fate G w r)"
  shows "bi_progress E G ch s r w (True, w2)"
  using assms read_to_frame [OF assms(1,3)]
    decode_frame_complete_shorter [OF assms(2), of E "g_fate G w r" res "g_avail G w1 r"]
  by (auto simp: bi_progress_def read_to_def left_to_read_def)

lemma bi_progress_cut_short:
  assumes rd: "read_to E G ch r w (Inl e) w1" and fc: "\<not> frame_complete (g_avail G w r)"
    and u: "unchanged G {} {s} {ch} w1 w2" and log: "g_log G w2 ch = g_log G w1 ch @ [Inl e]"
  shows "bi_progress E G ch s r w (\<not> is_connection_lost e, w2)"
proof -
  let ?bs = "g_avail G w r" and ?fin = "g_fate G w r"
  from rd have dec: "decode_frame E ?bs ?fin = (Inl e, g_avail G w1 r)" by (simp add: read_to_def)
  note cut = decode_frame_cut_short [OF fc dec]
  from dec fc have items: "bi_items E s ?bs ?fin =
      Inl e # (if ends_lost ?fin then [] else bi_items E s [] (after_end ?fin))"
    by (simp add: bi_items.simps [of E s ?bs] cut(1))
  from decode_frame_error [OF dec] fc have lost: "is_connection_lost e \<longleftrightarrow> ends_lost ?fin" by simp
  from rd fc log lost items cut read_to_frame [OF rd u] show ?thesis
    by (auto simp: bi_progress_def read_to_def left_to_read_def)
qed

context runtime_laws
begin

lemma handle_endpoint_echo_keeps: "keeps G {} {s} {} (handle_endpoint_echo E s peer)"
  unfolding handle_endpoint_echo_def by (rule write_to_stream_keeps)

lemma verify_endpoint_keeps: "keeps G {} {} {} (verify_endpoint E ep addr)"
  unfolding verify_endpoint_def
  by (intro keeps_intros connect_keeps connecting_keeps keeps_open_bi)
    (auto intro!: keeps_intros keeps_mono [OF write_to_stream_keeps] keeps_mono [OF read_from_stream_keeps]
      split: option.splits WireMsg.splits)

lemma handle_endpoint_verification_keeps: "keeps G {} {s} {} (handle_endpoint_verification E ep s addr)"
  unfolding handle_endpoint_verification_def Let_def
  by (intro keeps_intros write_to_stream_keeps with_timeout_keeps keeps_mono [OF verify_endpoint_keeps]) auto

lemma msg_send_step:
  assumes "g_rx_open G w ch"
  obtains w' where "t_msg_send E ch item w = (Inr (), w')" "g_log G w' ch = g_log G w ch @ [item]"
    "unchanged G {} {} {ch} w w'"
  using msg_send_open [OF assms, of item] keepsD [OF msg_send_keeps] by blast

lemma bi_iteration_read_to:
  assumes "ch \<in> g_live_ch G w" "g_rx_open G w ch" "r \<in> g_live_rx G w"
  obtains res w1 where "read_from_stream E r w = (res, w1)" "read_to E G ch r w res w1"
  by (rule read_step [OF assms], rule that) (auto simp: read_to_def)

lemma bi_iteration_error:
  assumes "read_from_stream E r w = (Inl e, w1)" and rd: "read_to E G ch r w (Inl e) w1"
  shows "bi_progress E G ch s r w (bi_iteration E ep peer ch s r w)"
proof -
  from rd have "g_rx_open G w1 ch" and dec: "decode_frame E (g_avail G w r) (g_fate G w r) = (Inl e, g_avail G w1 r)"
    by (auto simp: read_to_def)
  from msg_send_step [OF this(1)] obtain w2 where w2: "t_msg_send E ch (Inl e) w1 = (Inr (), w2)"
    "g_log G w2 ch = g_log G w1 ch @ [Inl e]" "unchanged G {} {} {ch} w1 w2" .
  have it: "bi_iteration E ep peer ch s r w = (\<not> is_connection_lost e, w2)"
    using assms(1) w2(1) by (simp add: bi_iteration_def)
  have u: "unchanged G {} {s} {ch} w1 w2" by (rule unchanged_mono [OF w2(3)]) auto
  show ?thesis
  proof (cases "frame_complete (g_avail G w r)")
    case True
    with bi_progress_frame [OF rd True u w2(2)] it dec decode_frame_error [OF dec] show ?thesis
      by (simp add: bi_items.simps [of E s "g_avail G w r"])
  next
    case False
    with bi_progress_cut_short [OF rd False u w2(2)] it show ?thesis by simp
  qed
qed

lemma bi_iteration_message:
  assumes "read_from_stream E r w = (Inr (Some msg), w1)" and rd: "read_to E G ch r w (Inr (Some msg)) w1"
  shows "bi_progress E G ch s r w (bi_iteration E ep peer ch s r w)"
proof -
  from rd have open1: "g_rx_open G w1 ch" "ch \<in> g_live_ch G w1" and
    dec: "decode_frame E (g_avail G w r) (g_fate G w r) = (Inr (Some msg), g_avail G w1 r)"
    by (auto simp: read_to_def)
  note progress = bi_progress_frame [OF rd decode_frame_Some(1) [OF dec]]
  have act: "bi_progress E G ch s r w (True, snd (f w1))"
    if "keeps G {} {s} {} f" "\<nexists>b. msg = UserMsg b" for f :: "'w \<Rightarrow> (SendError + unit) \<times> 'w"
  proof (rule progress [of s _ "[]"])
    from that(1) have u: "unchanged G {} {s} {} w1 (snd (f w1))" by (simp add: keeps_def)
    then show "unchanged G {} {s} {ch} w1 (snd (f w1))" by (rule unchanged_mono) auto
    from unchangedD(4) [OF u open1(2)] show "g_log G (snd (f w1)) ch = g_log G w1 ch @ []" by simp
  qed (use dec that(2) in \<open>cases msg; simp add: bi_items.simps [of E s "g_avail G w r"]\<close>)
  show ?thesis
  proof (cases msg)
    case (UserMsg b)
    from msg_send_step [OF open1(1)] obtain w2 where
      w2: "t_msg_send E ch (Inr (b, Some s)) w1 = (Inr (), w2)"
        "g_log G w2 ch = g_log G w1 ch @ [Inr (b, Some s)]" "unchanged G {} {} {ch} w1 w2" .
    with progress [OF unchanged_mono [OF w2(3)] w2(2)] UserMsg dec assms(1) show ?thesis
      by (simp add: bi_iteration_def bi_items.simps [of E s "g_avail G w r"])
  qed (use act [OF handle_endpoint_echo_keeps] act [OF handle_endpoint_verification_keeps]
        act [OF keeps_ret, of "()"] assms(1) in \<open>simp_all add: bi_iteration_def\<close>)
qed

lemma bi_iteration_progress:
  assumes "ch \<in> g_live_ch G w" "g_rx_open G w ch" "r \<in> g_live_rx G w"
  shows "bi_progress E G ch s r w (bi_iteration E ep peer ch s r w)"
proof -
  obtain res w1 where rd: "read_from_stream E r w = (res, w1)" "read_to E G ch r w res w1"
    by (rule bi_iteration_read_to [OF assms])
  show ?thesis
  proof (cases res)
    case (Inl e)
    with rd bi_iteration_error show ?thesis by blast
  next
    case (Inr m)
    show ?thesis
    proof (cases m)
      case None
      with Inr rd read_to_frame(1) [OF rd(2) unchanged_refl, of s] show ?thesis
        by (auto simp: bi_iteration_def bi_progress_def read_to_def bi_items.simps [of E s "g_avail G w r"])
    next
      case (Some msg)
      with Inr rd bi_iteration_message show ?thesis by blast
    qed
  qed
qed

text \<open>The loop ends, whatever the peer sends, with every item of the stream on the channel in order.\<close>

lemma bi_loop_items:
  assumes "ch \<in> g_live_ch G w" "g_rx_open G w ch" "r \<in> g_live_rx G w"
  shows "\<exists>w'. bi_loop E ep peer ch s r w = Some w' \<and> unchanged G {r} {s} {ch} w w'
    \<and> g_log G w' ch = g_log G w ch @ bi_items E s (g_avail G w r) (g_fate G w r)"
  using assms
proof (induction "left_to_read G w r" arbitrary: w rule: less_induct)
  case (less w)
  obtain go w' where it: "bi_iteration E ep peer ch s r w = (go, w')" by fastforce
  with bi_iteration_progress [OF less.prems, of s ep peer] have u: "unchanged G {r} {s} {ch} w w'"
    and p: "bi_progress E G ch s r w (go, w')"
    by (auto simp: bi_progress_def)
  show ?case
  proof (cases go)
    case True
    with p obtain items where lt: "left_to_read G w' r < left_to_read G w r"
      "g_log G w' ch = g_log G w ch @ items" "bi_items E s (g_avail G w r) (g_fate G w r)
         = items @ bi_items E s (g_avail G w' r) (g_fate G w' r)"
      by (auto simp: bi_progress_def)
    from unchangedD(6,7,9) [OF u] less.prems have live: "ch \<in> g_live_ch G w'" "g_rx_open G w' ch"
      "r \<in> g_live_rx G w'" by auto
    from less.hyps [OF lt(1) live] obtain w2 where "bi_loop E ep peer ch s r w' = Some w2"
      "unchanged G {r} {s} {ch} w' w2"
      "g_log G w2 ch = g_log G w' ch @ bi_items E s (g_avail G w' r) (g_fate G w' r)" by blast
    with it True lt u show ?thesis by (subst bi_loop.simps) (auto intro: unchanged_trans)
  next
    case False
    with it p u show ?thesis by (subst bi_loop.simps) (auto simp: bi_progress_def)
  qed
qed

end

section \<open>Streams served concurrently\<close>

text \<open>
  Where an item of a channel came from: the listener for unidirectional streams, or the task
  that serves a bidirectional one. A history is the items of a channel, each with its origin.
\<close>

datatype origin = From_Uni | From_Bi "send_id \<times> recv_id"

type_synonym history = "(origin \<times> msg_item) list"

definition sent_by :: "origin \<Rightarrow> history \<Rightarrow> msg_item list" where
  "sent_by k h = map snd (filter (\<lambda>x. fst x = k) h)"

lemma sent_by_Nil [simp]: "sent_by k [] = []"
  by (simp add: sent_by_def)

lemma sent_by_append [simp]: "sent_by k (h @ h') = sent_by k h @ sent_by k h'"
  by (simp add: sent_by_def)

lemma sent_by_tagged [simp]: "sent_by k (map (Pair j) items) = (if j = k then items else [])"
  by (induction items) (auto simp: sent_by_def)

text \<open>
  The streams that are waiting to be accepted or being served are streams of the connection,
  each of them once.
\<close>

definition bi_ready :: "'w ghost \<Rightarrow> conn_id \<Rightarrow> chan_id \<Rightarrow> (send_id \<times> recv_id) list \<Rightarrow> 'w \<Rightarrow> bool" where
  "bi_ready G c ch streams w \<longleftrightarrow> ch \<in> g_live_ch G w \<and> g_rx_open G w ch \<and> c \<in> g_live_conn G w
     \<and> distinct (map snd streams) \<and> snd ` set streams \<subseteq> g_live_rx G w"

definition bi_open ::
  "'w ghost \<Rightarrow> conn_id \<Rightarrow> chan_id \<Rightarrow> (send_id \<times> recv_id) list \<Rightarrow> (send_id \<times> recv_id) list \<Rightarrow> 'w \<Rightarrow> bool" where
  "bi_open G c ch streams running w \<longleftrightarrow> bi_ready G c ch streams w
     \<and> set (running @ rights (g_bi G w c)) \<subseteq> set streams \<and> distinct (running @ rights (g_bi G w c))"

text \<open>
  The invariant of the listener, relative to the state it was started in: a stream that is
  waiting to be accepted or being served has the rest of its items ahead of it, one that is
  done has all of them in the history.
\<close>

definition bi_inv ::
  "'w env \<Rightarrow> 'w ghost \<Rightarrow> conn_id \<Rightarrow> chan_id \<Rightarrow> 'w \<Rightarrow> history \<Rightarrow> (send_id \<times> recv_id) list \<Rightarrow> 'w \<Rightarrow> bool" where
  "bi_inv E G c ch w0 h running w \<longleftrightarrow>
     bi_open G c ch (rights (g_bi G w0 c)) running w
     \<and> (\<forall>(s, r) \<in> set (rights (g_bi G w0 c)).
          bi_items E s (g_avail G w0 r) (g_fate G w0 r) = sent_by (From_Bi (s, r)) h
            @ (if (s, r) \<in> set (running @ rights (g_bi G w c))
               then bi_items E s (g_avail G w r) (g_fate G w r) else []))"

lemma bi_ready_same:
  assumes "bi_ready G c ch streams w" "same_streams G R S C w w'"
  shows "bi_ready G c ch streams w'"
  using assms by (auto simp: bi_ready_def same_streams_def)

lemma bi_ready_live:
  assumes "bi_ready G c ch streams w" "(s, r) \<in> set streams"
  shows "r \<in> g_live_rx G w"
proof -
  from assms(2) have "snd (s, r) \<in> snd ` set streams" by (rule imageI)
  with assms(1) show ?thesis by (auto simp: bi_ready_def)
qed

lemma bi_open_live:
  assumes "bi_open G c ch streams running w"
  shows "ch \<in> g_live_ch G w" "g_rx_open G w ch" "c \<in> g_live_conn G w"
    and "(s, r) \<in> set running \<Longrightarrow> r \<in> g_live_rx G w"
    and "(s, r) \<in> set (rights (g_bi G w c)) \<Longrightarrow> r \<in> g_live_rx G w"
proof -
  from assms have ready: "bi_ready G c ch streams w" by (simp add: bi_open_def)
  then show "ch \<in> g_live_ch G w" "g_rx_open G w ch" "c \<in> g_live_conn G w" by (simp_all add: bi_ready_def)
  show "(s, r) \<in> set running \<Longrightarrow> r \<in> g_live_rx G w" "(s, r) \<in> set (rights (g_bi G w c)) \<Longrightarrow> r \<in> g_live_rx G w"
    using assms bi_ready_live [OF ready, of s r] by (auto simp: bi_open_def)
qed

lemma bi_open_disjoint:
  assumes "bi_open G c ch streams (before @ (s, r) # after) w"
    and "(t, q) \<in> set (before @ after @ rights (g_bi G w c))"
  shows "q \<noteq> r"
proof
  assume "q = r"
  from assms(1) have d: "distinct (before @ (s, r) # after @ rights (g_bi G w c))"
    "set (before @ (s, r) # after @ rights (g_bi G w c)) \<subseteq> set streams" and inj: "inj_on snd (set streams)"
    by (simp_all add: bi_open_def bi_ready_def distinct_map)
  from d assms(2) have "(t, q) \<noteq> (s, r)" "(t, q) \<in> set streams" "(s, r) \<in> set streams" by auto
  with \<open>q = r\<close> inj_onD [OF inj, of "(t, q)" "(s, r)"] show False by simp
qed

text \<open>
  A step that leaves the connection's bidirectional streams alone, or only accepts some, loses
  nothing, whatever it adds to the history on behalf of others.
\<close>

lemma bi_inv_frame:
  assumes inv: "bi_inv E G c ch w0 h running w" and same: "same_streams G R S C w w'"
    and R: "R \<inter> snd ` set (rights (g_bi G w0 c)) = {}"
    and hist: "\<And>p. sent_by (From_Bi p) h' = sent_by (From_Bi p) h"
    and perm: "set (running' @ rights (g_bi G w' c)) = set (running @ rights (g_bi G w c))"
      "distinct (running' @ rights (g_bi G w' c))"
  shows "bi_inv E G c ch w0 h' running' w'"
proof -
  from inv have ready: "bi_ready G c ch (rights (g_bi G w0 c)) w" by (simp add: bi_inv_def bi_open_def)
  have "g_avail G w' r = g_avail G w r" "g_fate G w' r = g_fate G w r"
    if "(s, r) \<in> set (rights (g_bi G w0 c))" for s r
  proof -
    from that have "r \<in> snd ` set (rights (g_bi G w0 c))" by (metis image_eqI snd_conv)
    with R have "r \<notin> R" by auto
    with same bi_ready_live [OF ready that] show "g_avail G w' r = g_avail G w r" "g_fate G w' r = g_fate G w r"
      by (simp_all add: same_streamsD)
  qed
  with inv perm bi_ready_same [OF ready same] hist show ?thesis
    by (fastforce simp: bi_inv_def bi_open_def)
qed

text \<open>An iteration on one stream moves its items and leaves those of the others alone.\<close>

lemma bi_inv_progress:
  assumes inv: "bi_inv E G c ch w0 h (before @ (s, r) # after) w" and p: "bi_progress E G ch s r w (go, w')"
  obtains items where "g_log G w' ch = g_log G w ch @ items" "(s, r) \<in> set (rights (g_bi G w0 c))"
    "bi_inv E G c ch w0 (h @ map (Pair (From_Bi (s, r))) items) (if go then before @ (s, r) # after else before @ after) w'"
proof -
  let ?streams = "rights (g_bi G w0 c)"
  from inv have ready: "bi_ready G c ch ?streams w" and sr: "(s, r) \<in> set ?streams"
    by (auto simp: bi_inv_def bi_open_def)
  from p obtain items where items: "g_log G w' ch = g_log G w ch @ items"
    "bi_items E s (g_avail G w r) (g_fate G w r) =
       items @ (if go then bi_items E s (g_avail G w' r) (g_fate G w' r) else [])"
    by (auto simp: bi_progress_def split: if_splits)
  from p have u: "unchanged G {r} {s} {ch} w w'" by (auto simp: bi_progress_def)
  have bi: "g_bi G w' c = g_bi G w c"
    using unchanged_incoming(2) [OF u] ready by (simp add: bi_ready_def)
  let ?now = "(if go then before @ (s, r) # after else before @ after) @ rights (g_bi G w' c)"
  from inv bi have now: "set ?now \<subseteq> set ?streams" "distinct ?now" "(s, r) \<in> set ?now \<longleftrightarrow> go"
    "\<And>x. x \<noteq> (s, r) \<Longrightarrow> x \<in> set ?now \<longleftrightarrow> x \<in> set ((before @ (s, r) # after) @ rights (g_bi G w c))"
    by (auto simp: bi_inv_def bi_open_def)
  have "bi_items E t (g_avail G w0 q) (g_fate G w0 q) =
      sent_by (From_Bi (t, q)) (h @ map (Pair (From_Bi (s, r))) items)
        @ (if (t, q) \<in> set ?now then bi_items E t (g_avail G w' q) (g_fate G w' q) else [])"
    if tq: "(t, q) \<in> set ?streams" for t q
  proof -
    from inv tq have old: "bi_items E t (g_avail G w0 q) (g_fate G w0 q) = sent_by (From_Bi (t, q)) h
        @ (if (t, q) \<in> set ((before @ (s, r) # after) @ rights (g_bi G w c))
           then bi_items E t (g_avail G w q) (g_fate G w q) else [])"
      unfolding bi_inv_def by fastforce
    show ?thesis
    proof (cases "(t, q) = (s, r)")
      case True
      with old now(3) items(2) show ?thesis by simp
    next
      case False
      from ready have "inj_on snd (set ?streams)" by (simp add: bi_ready_def distinct_map)
      from inj_onD [OF this _ tq sr] False have "q \<noteq> r" by auto
      with unchangedD(1,2) [OF u bi_ready_live [OF ready tq]]
      have "g_avail G w' q = g_avail G w q" "g_fate G w' q = g_fate G w q" by simp_all
      with False show ?thesis unfolding old now(4) [OF False] by auto
    qed
  qed
  with now(1,2) bi_ready_same [OF ready unchanged_same_streams [OF u]]
  have "bi_inv E G c ch w0 (h @ map (Pair (From_Bi (s, r))) items)
      (if go then before @ (s, r) # after else before @ after) w'"
    unfolding bi_inv_def bi_open_def by auto
  with items(1) sr that show thesis by blast
qed

lemma bi_inv_prefix:
  assumes "bi_inv E G c ch w0 h running w" "(s, r) \<in> set (rights (g_bi G w0 c))"
  shows "prefix (sent_by (From_Bi (s, r)) h) (bi_items E s (g_avail G w0 r) (g_fate G w0 r))"
  using assms by (fastforce simp: bi_inv_def)

lemma bi_inv_complete:
  assumes "bi_inv E G c ch w0 h [] w" "(s, r) \<in> set (rights (g_bi G w0 c))" "(s, r) \<notin> set (rights (g_bi G w c))"
  shows "sent_by (From_Bi (s, r)) h = bi_items E s (g_avail G w0 r) (g_fate G w0 r)"
  using assms by (fastforce simp: bi_inv_def)

lemma bi_inv_init:
  assumes "bi_ready G c ch (rights (g_bi G w c)) w"
  shows "bi_inv E G c ch w [] [] w"
  using assms by (auto simp: bi_inv_def bi_open_def bi_ready_def distinct_map)

section \<open>The steps of the listener\<close>

context runtime_laws
begin

lemma next_bi_cases:
  assumes "q_next_bi E c w = (x, w')" "c \<in> g_live_conn G w"
  shows "same_streams G {} {} {} w w'"
    and "x = None \<Longrightarrow> g_bi G w' c = [] \<and> g_bi G w c = []"
    and "x = Some y \<Longrightarrow> g_bi G w c = y # g_bi G w' c"
    and "d \<in> g_live_conn G w \<Longrightarrow> g_uni G w' d = g_uni G w d"
    and "d \<in> g_live_conn G w \<Longrightarrow> d \<noteq> c \<Longrightarrow> g_bi G w' d = g_bi G w d"
proof -
  have "same_streams G {} {} {} w w' \<and> (x = None \<longrightarrow> g_bi G w' c = [] \<and> g_bi G w c = [])
    \<and> (x = Some y \<longrightarrow> g_bi G w c = y # g_bi G w' c)
    \<and> (d \<in> g_live_conn G w \<longrightarrow> g_uni G w' d = g_uni G w d)
    \<and> (d \<in> g_live_conn G w \<longrightarrow> d \<noteq> c \<longrightarrow> g_bi G w' d = g_bi G w d)" for y d
  proof (cases "g_bi G w c")
    case Nil
    from next_bi_end [OF Nil] assms(1) have u: "x = None" "unchanged G {} {} {} w w'" by auto
    from unchanged_incoming [OF u(2)] unchanged_same_streams [OF u(2)] u(1) Nil assms(2) show ?thesis by auto
  next
    case (Cons z zs)
    from next_bi [OF Cons] assms(1) Cons show ?thesis by auto
  qed
  then show "same_streams G {} {} {} w w'"
    and "x = None \<Longrightarrow> g_bi G w' c = [] \<and> g_bi G w c = []"
    and "x = Some y \<Longrightarrow> g_bi G w c = y # g_bi G w' c"
    and "d \<in> g_live_conn G w \<Longrightarrow> g_uni G w' d = g_uni G w d"
    and "d \<in> g_live_conn G w \<Longrightarrow> d \<noteq> c \<Longrightarrow> g_bi G w' d = g_bi G w d" by blast+
qed

end

lemma filter_benign_close_inv:
  assumes "filter_benign_close f w = (x, w')"
  obtains z where "f w = (z, w')" "x = None \<longleftrightarrow> z = None \<or> (\<exists>e. z = Some (Inl e) \<and> is_benign (ConnectionError_from_quinn e))"
    "\<forall>y. x = Some (Inr y) \<longleftrightarrow> z = Some (Inr y)"
  using assms
  by (auto simp: filter_benign_close_def Let_def split: prod.splits option.splits sum.splits if_splits)

fun bi_stopped :: "bi_state \<Rightarrow> bool" where
  "bi_stopped (B_Serving acc running) = False"
| "bi_stopped _ = True"

text \<open>What the invariant says of each state of the listener.\<close>

fun bi_state_inv ::
  "'w env \<Rightarrow> 'w ghost \<Rightarrow> conn_id \<Rightarrow> chan_id \<Rightarrow> 'w \<Rightarrow> history \<Rightarrow> bi_state \<Rightarrow> 'w \<Rightarrow> bool" where
  "bi_state_inv E G c ch w0 h (B_Serving acc running) w = bi_inv E G c ch w0 h running w"
| "bi_state_inv E G c ch w0 h B_Ended w = bi_inv E G c ch w0 h [] w"
| "bi_state_inv E G c ch w0 h st w =
     (\<forall>(s, r) \<in> set (rights (g_bi G w0 c)).
        prefix (sent_by (From_Bi (s, r)) h) (bi_items E s (g_avail G w0 r) (g_fate G w0 r)))"

lemma bi_state_inv_prefix:
  assumes "bi_state_inv E G c ch w0 h st w" "(s, r) \<in> set (rights (g_bi G w0 c))"
  shows "prefix (sent_by (From_Bi (s, r)) h) (bi_items E s (g_avail G w0 r) (g_fate G w0 r))"
  using assms bi_inv_prefix [of E G c ch w0 h _ w s r] by (cases st) auto

lemma bi_state_inv_frame:
  assumes inv: "bi_state_inv E G c ch w0 h st w" and same: "same_streams G R S C w w'"
    and R: "R \<inter> snd ` set (rights (g_bi G w0 c)) = {}"
    and hist: "\<And>p. sent_by (From_Bi p) h' = sent_by (From_Bi p) h" and bi: "g_bi G w' c = g_bi G w c"
  shows "bi_state_inv E G c ch w0 h' st w'"
proof -
  have "bi_inv E G c ch w0 h' running w'" if "bi_inv E G c ch w0 h running w" for running
    using that bi by (intro bi_inv_frame [OF that same R hist]) (simp_all add: bi_inv_def bi_open_def)
  with inv hist show ?thesis by (cases st) auto
qed

text \<open>
  What a step of the listener does: it adds at most one item to the channel, on behalf of one of
  the streams, and touches nothing but the streams, the reply streams and the channel.
\<close>

definition bi_guarantee ::
  "'w ghost \<Rightarrow> conn_id \<Rightarrow> chan_id \<Rightarrow> (send_id \<times> recv_id) list \<Rightarrow> 'w \<Rightarrow> 'w \<Rightarrow> bool" where
  "bi_guarantee G c ch streams w w' \<longleftrightarrow>
     same_streams G (snd ` set streams) (fst ` set streams) {ch} w w'
     \<and> g_taken G w' ch = g_taken G w ch \<and> length (g_log G w' ch) \<le> Suc (length (g_log G w ch))
     \<and> (\<forall>d \<in> g_live_conn G w. g_uni G w' d = g_uni G w d \<and> (d \<noteq> c \<longrightarrow> g_bi G w' d = g_bi G w d))"

context runtime_laws
begin

lemma bi_iteration_channel:
  assumes "bi_iteration E ep peer ch s r w = (go, w')" "ch \<in> g_live_ch G w"
  shows "g_taken G w' ch = g_taken G w ch" "length (g_log G w' ch) \<le> Suc (length (g_log G w ch))"
proof -
  obtain res w1 where rd: "read_from_stream E r w = (res, w1)" by fastforce
  from unchangedD(4,5,9) [OF keepsD [OF read_from_stream_keeps rd], of ch] assms(2)
  have w1: "g_log G w1 ch = g_log G w ch" "g_taken G w1 ch = g_taken G w ch" "ch \<in> g_live_ch G w1" by auto
  have send: "g_taken G w2 ch = g_taken G w1 ch \<and> length (g_log G w2 ch) \<le> Suc (length (g_log G w1 ch))"
    if "t_msg_send E ch item w1 = (x, w2)" for item x w2
    using that msg_send_taken [OF that] msg_send_open [of w1 ch item] msg_send_closed [of w1 ch item]
    by (cases "g_rx_open G w1 ch") auto
  have keep: "g_taken G (snd (f w1)) ch = g_taken G w1 ch \<and> g_log G (snd (f w1)) ch = g_log G w1 ch"
    if "keeps G {} {s} {} f" for f :: "'w \<Rightarrow> (SendError + unit) \<times> 'w"
    using that w1(3) unchangedD(4,5) [of G "{}" "{s}" "{}" w1 "snd (f w1)" ch] by (simp add: keeps_def)
  have "g_taken G w' ch = g_taken G w1 ch \<and> length (g_log G w' ch) \<le> Suc (length (g_log G w1 ch))"
    using assms(1) rd keep [OF handle_endpoint_echo_keeps] keep [OF handle_endpoint_verification_keeps]
    by (auto simp: bi_iteration_def Let_def dest: send
        split: sum.splits option.splits WireMsg.splits prod.splits)
  with w1 show "g_taken G w' ch = g_taken G w ch" "length (g_log G w' ch) \<le> Suc (length (g_log G w ch))"
    by simp_all
qed

lemma bi_serve_guarantee:
  assumes "bi_iteration E ep peer ch s r w = (go, w')" "bi_progress E G ch s r w (go, w')"
    and "(s, r) \<in> set streams" "ch \<in> g_live_ch G w"
  shows "bi_guarantee G c ch streams w w'"
proof -
  from assms(2) have u: "unchanged G {r} {s} {ch} w w'" by (auto simp: bi_progress_def)
  from assms(3) have "r \<in> snd ` set streams" "s \<in> fst ` set streams" by force+
  then have "same_streams G (snd ` set streams) (fst ` set streams) {ch} w w'"
    by (intro same_streams_mono [OF unchanged_same_streams [OF u]]) auto
  with bi_iteration_channel [OF assms(1,4)] unchanged_incoming [OF u] show ?thesis by (simp add: bi_guarantee_def)
qed

lemma bi_accept_guarantee:
  assumes "q_next_bi E c w = (x, w')" "c \<in> g_live_conn G w" "ch \<in> g_live_ch G w"
  shows "bi_guarantee G c ch streams w w' \<and> g_log G w' ch = g_log G w ch"
proof -
  note n = next_bi_cases [OF assms(1,2)]
  have "same_streams G (snd ` set streams) (fst ` set streams) {ch} w w'"
    by (rule same_streams_mono [OF n(1)]) auto
  with n(4,5) same_streamsD(4,5) [OF n(1) assms(3)] show ?thesis by (simp add: bi_guarantee_def)
qed

text \<open>The invariant holds in every state the listener can reach, with its own items added to the history.\<close>

lemma bi_step_incoming:
  assumes inv: "bi_inv E G c ch w0 h running w" and "filter_benign_close (q_next_bi E c) w = (x, w')"
  shows "bi_guarantee G c ch (rights (g_bi G w0 c)) w w' \<and> g_log G w' ch = g_log G w ch"
    and "x = Some (Inr p) \<Longrightarrow> bi_inv E G c ch w0 h (running @ [p]) w'"
    and "x = None \<Longrightarrow> bi_inv E G c ch w0 h running w'"
proof -
  from inv have o: "bi_open G c ch (rights (g_bi G w0 c)) running w" by (simp add: bi_inv_def)
  obtain z where z: "q_next_bi E c w = (z, w')"
    "x = None \<longleftrightarrow> z = None \<or> (\<exists>e. z = Some (Inl e) \<and> is_benign (ConnectionError_from_quinn e))"
    "\<forall>y. x = Some (Inr y) \<longleftrightarrow> z = Some (Inr y)"
    by (rule filter_benign_close_inv [OF assms(2)])
  note n = next_bi_cases [OF z(1) bi_open_live(3) [OF o]]
  from bi_accept_guarantee [OF z(1) bi_open_live(3,1) [OF o]]
  show "bi_guarantee G c ch (rights (g_bi G w0 c)) w w' \<and> g_log G w' ch = g_log G w ch" .
  have d: "distinct (running @ rights (g_bi G w c))" using o by (simp add: bi_open_def)
  show "bi_inv E G c ch w0 h (running @ [p]) w'" if "x = Some (Inr p)"
  proof -
    have g: "g_bi G w c = Inr p # g_bi G w' c" using that z(3) n(3) by blast
    show ?thesis by (rule bi_inv_frame [OF inv n(1)]) (use g d in auto)
  qed
  show "bi_inv E G c ch w0 h running w'" if "x = None"
  proof -
    have g: "rights (g_bi G w' c) = rights (g_bi G w c)"
      using that z(2) n(2,3) by (cases z) fastforce+
    show ?thesis by (rule bi_inv_frame [OF inv n(1)]) (use g d in simp_all)
  qed
qed

lemma bi_step_serves:
  assumes inv: "bi_inv E G c ch w0 h (before @ (s, r) # after) w"
    and it: "bi_iteration E ep peer ch s r w = (go, w')"
  obtains items where "g_log G w' ch = g_log G w ch @ items" "(s, r) \<in> set (rights (g_bi G w0 c))"
    "bi_inv E G c ch w0 (h @ map (Pair (From_Bi (s, r))) items) (if go then before @ (s, r) # after else before @ after) w'"
    "bi_guarantee G c ch (rights (g_bi G w0 c)) w w'"
proof -
  from inv have o: "bi_open G c ch (rights (g_bi G w0 c)) (before @ (s, r) # after) w" by (simp add: bi_inv_def)
  from bi_iteration_progress [OF bi_open_live(1,2,4) [OF o], of s r s ep peer] it
  have p: "bi_progress E G ch s r w (go, w')" by simp
  from bi_inv_progress [OF inv p] obtain items where items: "g_log G w' ch = g_log G w ch @ items"
    "(s, r) \<in> set (rights (g_bi G w0 c))"
    "bi_inv E G c ch w0 (h @ map (Pair (From_Bi (s, r))) items) (if go then before @ (s, r) # after else before @ after) w'" .
  from that [OF items bi_serve_guarantee [OF it p items(2) bi_open_live(1) [OF o]]] show thesis .
qed

lemma bi_step_inv:
  assumes "bi_step E ep peer c alive ch (st, w) (st', w')" and "bi_state_inv E G c ch w0 h st w"
  shows "\<exists>p items. g_log G w' ch = g_log G w ch @ items \<and> (items \<noteq> [] \<longrightarrow> p \<in> set (rights (g_bi G w0 c)))
    \<and> bi_state_inv E G c ch w0 (h @ map (Pair (From_Bi p)) items) st' w'
    \<and> bi_guarantee G c ch (rights (g_bi G w0 c)) w w'"
  using assms(1)
proof cases
  case (accept s r running)
  with assms(2) bi_step_incoming [of c ch w0 h running w] show ?thesis
    by (intro exI [of _ "(s, r)"] exI [of _ "[]"]) simp
next
  case (no_more running)
  with assms(2) bi_step_incoming [of c ch w0 h running w] show ?thesis
    by (intro exI [of _ "undefined"] exI [of _ "[]"]) simp
next
  case (fail e running)
  with assms(2) have inv: "bi_inv E G c ch w0 h running w" by simp
  with fail bi_step_incoming(1) [OF inv fail(3)] show ?thesis
    by (intro exI [of _ "undefined"] exI [of _ "[]"]) (auto intro: bi_inv_prefix)
next
  case (serve s r acc before after)
  with assms(2) have "bi_inv E G c ch w0 h (before @ (s, r) # after) w" by simp
  from bi_step_serves [OF this serve(3)] obtain items where
    "g_log G w' ch = g_log G w ch @ items" "(s, r) \<in> set (rights (g_bi G w0 c))"
    "bi_inv E G c ch w0 (h @ map (Pair (From_Bi (s, r))) items) (before @ (s, r) # after) w'"
    "bi_guarantee G c ch (rights (g_bi G w0 c)) w w'" by auto
  with serve show ?thesis by (intro exI [of _ "(s, r)"] exI [of _ items]) simp
next
  case (finish s r acc before after)
  with assms(2) have "bi_inv E G c ch w0 h (before @ (s, r) # after) w" by simp
  from bi_step_serves [OF this finish(3)] obtain items where
    "g_log G w' ch = g_log G w ch @ items" "(s, r) \<in> set (rights (g_bi G w0 c))"
    "bi_inv E G c ch w0 (h @ map (Pair (From_Bi (s, r))) items) (before @ after) w'"
    "bi_guarantee G c ch (rights (g_bi G w0 c)) w w'" by auto
  with finish show ?thesis by (intro exI [of _ "(s, r)"] exI [of _ items]) simp
next
  case ended
  with assms(2) show ?thesis
    by (intro exI [of _ "undefined"] exI [of _ "[]"]) (simp add: bi_guarantee_def)
next
  case (dropped acc running)
  with assms(2) show ?thesis
    by (intro exI [of _ "undefined"] exI [of _ "[]"]) (auto simp: bi_guarantee_def intro: bi_inv_prefix)
qed

end

section \<open>Termination\<close>

text \<open>The steps a run can still take, at most.\<close>

definition bi_work :: "'w ghost \<Rightarrow> conn_id \<Rightarrow> bi_state \<Rightarrow> 'w \<Rightarrow> nat" where
  "bi_work G c st w =
     (case st of
        B_Serving acc running \<Rightarrow>
          sum_list (map (\<lambda>(s, r). left_to_read G w r + 1) running)
          + sum_list (map (\<lambda>(s, r). left_to_read G w r + 2) (rights (g_bi G w c)))
          + (if acc then 2 else 1)
      | _ \<Rightarrow> 0)"

lemma left_to_read_same:
  assumes "same_streams G R S C w w'" "r \<in> g_live_rx G w" "r \<notin> R"
  shows "left_to_read G w' r = left_to_read G w r"
  using same_streamsD(1,2) [OF assms(1,2,3)] by (simp add: left_to_read_def)

lemma sum_left_same:
  assumes "same_streams G R S C w w'" "\<And>s r. (s, r) \<in> set xs \<Longrightarrow> r \<in> g_live_rx G w \<and> r \<notin> R"
  shows "sum_list (map (\<lambda>(s, r). left_to_read G w' r + k) xs) = sum_list (map (\<lambda>(s, r). left_to_read G w r + k) xs)"
proof -
  have "map (\<lambda>(s, r). left_to_read G w' r + k) xs = map (\<lambda>(s, r). left_to_read G w r + k) xs"
    using assms left_to_read_same [OF assms(1)] by (auto intro!: map_cong)
  then show ?thesis by (rule arg_cong)
qed

text \<open>A step of somebody else leaves the work as it is.\<close>

lemma bi_work_frame:
  assumes "bi_state_inv E G c ch w0 h st w" and "same_streams G R S C w w'"
    and "R \<inter> snd ` set (rights (g_bi G w0 c)) = {}" and "g_bi G w' c = g_bi G w c"
  shows "bi_work G c st w' = bi_work G c st w"
proof (cases st)
  case (B_Serving acc running)
  with assms(1) have o: "bi_open G c ch (rights (g_bi G w0 c)) running w" by (simp add: bi_inv_def)
  have "r \<in> g_live_rx G w \<and> r \<notin> R" if "(s, r) \<in> set (running @ rights (g_bi G w c))" for s r
  proof -
    from that o have "(s, r) \<in> set (rights (g_bi G w0 c))" by (auto simp: bi_open_def)
    then have "r \<in> snd ` set (rights (g_bi G w0 c))" by (metis image_eqI snd_conv)
    with assms(3) bi_open_live(4,5) [OF o, of s r] that show ?thesis by auto
  qed
  then have "sum_list (map (\<lambda>(s, r). left_to_read G w' r + k) xs) = sum_list (map (\<lambda>(s, r). left_to_read G w r + k) xs)"
    if "set xs \<subseteq> set (running @ rights (g_bi G w c))" for k xs
    using that by (intro sum_left_same [OF assms(2)]) blast
  from this [of running 1] this [of "rights (g_bi G w c)" 2] assms(4) B_Serving show ?thesis
    by (simp add: bi_work_def)
qed (simp_all add: bi_work_def)

context runtime_laws
begin

lemma bi_work_serve:
  assumes o: "bi_open G c ch streams (before @ (s, r) # after) w"
    and it: "bi_iteration E ep peer ch s r w = (go, w')"
  shows "bi_work G c (B_Serving acc (if go then before @ (s, r) # after else before @ after)) w'
    < bi_work G c (B_Serving acc (before @ (s, r) # after)) w"
proof -
  note live = bi_open_live [OF o]
  from bi_iteration_progress [OF live(1,2) live(4), of s r s ep peer] it have
    p: "bi_progress E G ch s r w (go, w')" by simp
  then have u: "unchanged G {r} {s} {ch} w w'" and less: "go \<Longrightarrow> left_to_read G w' r < left_to_read G w r"
    by (auto simp: bi_progress_def)
  note sum = sum_left_same [OF unchanged_same_streams [OF u]]
  have "sum_list (map (\<lambda>(s, r). left_to_read G w' r + 1) (before @ after)) =
      sum_list (map (\<lambda>(s, r). left_to_read G w r + 1) (before @ after))"
    using live(4) bi_open_disjoint [OF o] by (intro sum) auto
  moreover have "sum_list (map (\<lambda>(s, r). left_to_read G w' r + 2) (rights (g_bi G w c))) =
      sum_list (map (\<lambda>(s, r). left_to_read G w r + 2) (rights (g_bi G w c)))"
    using live(5) bi_open_disjoint [OF o] by (intro sum) auto
  ultimately show ?thesis
    using less unchanged_incoming(2) [OF u live(3)] by (auto simp: bi_work_def)
qed

lemma bi_work_incoming:
  assumes o: "bi_open G c ch streams running w" and "filter_benign_close (q_next_bi E c) w = (x, w')"
  shows "x = Some (Inr p) \<Longrightarrow> bi_work G c (B_Serving True (running @ [p])) w' < bi_work G c (B_Serving True running) w"
    and "x = None \<Longrightarrow> bi_work G c (B_Serving False running) w' < bi_work G c (B_Serving True running) w"
proof -
  obtain z where z: "q_next_bi E c w = (z, w')"
    "x = None \<longleftrightarrow> z = None \<or> (\<exists>e. z = Some (Inl e) \<and> is_benign (ConnectionError_from_quinn e))"
    "\<forall>y. x = Some (Inr y) \<longleftrightarrow> z = Some (Inr y)"
    by (rule filter_benign_close_inv [OF assms(2)])
  note n = next_bi_cases [OF z(1) bi_open_live(3) [OF o]]
  have sum: "sum_list (map (\<lambda>(s, r). left_to_read G w' r + k) xs) = sum_list (map (\<lambda>(s, r). left_to_read G w r + k) xs)"
    if "set xs \<subseteq> set running \<union> set (rights (g_bi G w c))" for k xs
    using that bi_open_live(4,5) [OF o] by (intro sum_left_same [OF n(1)]) auto
  show "bi_work G c (B_Serving True (running @ [p])) w' < bi_work G c (B_Serving True running) w" if "x = Some (Inr p)"
  proof -
    have g: "g_bi G w c = Inr p # g_bi G w' c" using that z(3) n(3) by blast
    then have "set (running @ [p]) \<subseteq> set running \<union> set (rights (g_bi G w c))"
      "set (rights (g_bi G w' c)) \<subseteq> set running \<union> set (rights (g_bi G w c))" by auto
    from sum [OF this(1), of 1] sum [OF this(2), of 2] g show ?thesis
      by (cases p) (simp add: bi_work_def)
  qed
  show "bi_work G c (B_Serving False running) w' < bi_work G c (B_Serving True running) w" if "x = None"
  proof -
    have g: "rights (g_bi G w' c) = rights (g_bi G w c)" using that z(2) n(2,3) by (cases z) fastforce+
    with sum [of running 1] sum [of "rights (g_bi G w c)" 2] show ?thesis by (simp add: bi_work_def)
  qed
qed

lemma bi_step_work:
  assumes "bi_step E ep peer c alive ch (st, w) (st', w')" "bi_state_inv E G c ch w0 h st w"
  shows "bi_work G c st' w' < bi_work G c st w"
  using assms(1)
proof cases
  case (accept s r running)
  with assms(2) bi_work_incoming(1) [of c ch "rights (g_bi G w0 c)" running w] show ?thesis by (simp add: bi_inv_def)
next
  case (serve s r acc before after)
  with assms(2) bi_work_serve [of c ch "rights (g_bi G w0 c)" before s r after w ep peer True w' acc] show ?thesis
    by (simp add: bi_inv_def)
next
  case (finish s r acc before after)
  with assms(2) bi_work_serve [of c ch "rights (g_bi G w0 c)" before s r after w ep peer False w' acc] show ?thesis
    by (simp add: bi_inv_def)
next
  case (no_more running)
  with assms(2) bi_work_incoming(2) [of c ch "rights (g_bi G w0 c)" running w] show ?thesis by (simp add: bi_inv_def)
qed (simp_all add: bi_work_def)

text \<open>Until it has stopped, the listener can take a step.\<close>

lemma bi_step_progress:
  assumes "\<not> bi_stopped st"
  obtains st' w' where "bi_step E ep peer c alive ch (st, w) (st', w')"
proof -
  from assms obtain acc running where st: "st = B_Serving acc running" by (cases st) auto
  have "\<exists>y. bi_step E ep peer c alive ch (B_Serving acc running, w) y"
  proof (cases running)
    case Nil
    obtain z w' where z: "filter_benign_close (q_next_bi E c) w = (z, w')" by fastforce
    consider "z = None" | e where "z = Some (Inl e)" | s r where "z = Some (Inr (s, r))"
      by (metis obj_sumE option.exhaust surj_pair)
    then have "\<exists>y. bi_step E ep peer c alive ch (B_Serving True [], w) y"
      using z by cases (blast intro: bi_step.intros)+
    with Nil bi_step.ended [of E ep peer c alive ch w] show ?thesis by (cases acc) auto
  next
    case (Cons x xs)
    obtain s r where "x = (s, r)" by fastforce
    moreover obtain go w' where "bi_iteration E ep peer ch s r w = (go, w')" by fastforce
    ultimately show ?thesis
      using Cons bi_step.serve [of E ep peer ch s r w w' c alive acc "[]" xs]
        bi_step.finish [of E ep peer ch s r w w' c alive acc "[]" xs] by (cases go) auto
  qed
  with st that show thesis by auto
qed

end

end
