(* ===== verification/Connection_Props.thy ===== *)
theory Connection_Props
  imports Wire_Props Bi_Listener
begin

text \<open>
  The properties of connections and their listeners, over any transport, channels and retry
  library that obey their laws, each with an instance on the in-memory transport.
\<close>

section \<open>The in-memory transport\<close>

interpretation net_sending: sending_laws net_env net_ghost
  by unfold_locales

interpretation net_connection: connection_laws net_env net_ghost
  by unfold_locales

section \<open>Sending\<close>

text \<open>A connection with the default retry settings.\<close>

definition some_connection :: Connection where
  "some_connection =
     \<lparr>conn_inner = 1, default_retry_config = Some RetryConfig_default, conn_alive_tx = 2\<rparr>"

lemmas send_uni_net = send_uni_def open_uni_def some_connection_def net_open_uni_def net_init_def
  set_priority_def send_user_msg_def write_to_stream_def MsgHeader_new_def Let_def net_write_all_def
  finish_unless_stopped_def finish_def net_finish_def

text \<open>
  C13. When sending a message succeeds, after however many attempts, the whole frame of the
  message is on a stream that did not exist before, and nothing that existed before, no
  stream and no channel, has changed.
\<close>

theorem send_puts_frame_on_new_stream:
  assumes "sending_laws E G" and "send_with E self msg priority retry_config w = (Inr (), w')"
  shows "(\<exists>s. s \<notin> g_live_tx G w \<and> encode_frame E (UserMsg msg) = Inr (g_sent G w' s))
    \<and> unchanged G {} {} {} w w'"
  using sending_laws.send_with_frame [OF assms] by blast

theorem send_puts_frame_on_new_stream_witness:
  "\<exists>w' s. send net_env some_connection [1, 2, 3] net_init = (Inr (), w')
     \<and> n_tx w' s = [0, 1, 0, 0, 0, 3, 0, 0, 0, 1, 2, 3]"
proof -
  obtain w' where "send_uni net_env some_connection [1, 2, 3] 0 net_init = (Inr (), w')"
    by (simp add: send_uni_net)
  then have w': "send_with net_env some_connection [1, 2, 3] 0 None net_init = (Inr (), w')"
    by (simp add: send_with_def some_connection_def RetryConfig_retry_def retry_upto_success)
  have "encode_frame net_env (UserMsg [1, 2, 3]) = Inr [0, 1, 0, 0, 0, 3, 0, 0, 0, 1, 2, 3]"
    by (simp add: encode_frame_def MsgHeader_new_def MsgHeader_to_bytes_def u16_to_be_bytes_def
        u32_to_be_bytes_def MSG_PROTOCOL_VERSION_def USER_MSG_FLAG_def)
  with send_puts_frame_on_new_stream [OF net_sending.sending_laws_axioms w'] w'
  show ?thesis by (auto simp: send_def)
qed

text \<open>
  C23. A lost connection is not retried: when an attempt finds the connection lost, sending
  returns that error in the state the attempt left, whatever the retry settings.
\<close>

theorem no_retry_after_connection_loss:
  assumes "sending_laws E G"
    and "send_uni E self msg priority w = (Inl (SendError.ConnectionLost e), w')"
  shows "send_with E self msg priority retry_config w = (Inl (SendError.ConnectionLost e), w')"
  using assms by (rule sending_laws.send_with_lost)

theorem no_retry_after_connection_loss_witness:
  "send net_env some_connection [1, 2, 3] (net_init\<lparr>n_lost := (\<lambda>c. Some Q_TimedOut)\<rparr>)
     = (Inl (SendError.ConnectionLost ConnectionError.TimedOut), net_init\<lparr>n_lost := (\<lambda>c. Some Q_TimedOut)\<rparr>)"
  unfolding send_def
  by (rule no_retry_after_connection_loss [OF net_sending.sending_laws_axioms]) (simp add: send_uni_net)

section \<open>Receiving\<close>

text \<open>
  The receiving half gives the items of its channel in the order the listeners sent them,
  one per call, each message and each error exactly once.
\<close>

theorem received_in_order:
  assumes "channel_laws E G"
    and "g_taken G w (message_rx self) + n \<le> length (g_log G w (message_rx self))"
  shows "fst (receive_n E self n w) =
    map item_result (take n (drop (g_taken G w (message_rx self)) (g_log G w (message_rx self))))"
  using assms by (rule channel_laws.receive_n_items)

theorem received_in_order_witness:
  "fst (receive_n net_env \<lparr>message_rx = 5, incoming_alive_tx = 2\<rparr> 2
       (net_init\<lparr>n_log := (\<lambda>_. [Inr ([1], None), Inr ([2], Some 7), Inr ([3], None)])\<rparr>))
     = [Inr (Some ([1], None)), Inr (Some ([2], Some 7))]"
  using received_in_order [OF net_channel.channel_laws_axioms,
      where self = "\<lparr>message_rx = 5, incoming_alive_tx = 2\<rparr>" and n = 2
        and w = "net_init\<lparr>n_log := (\<lambda>_. [Inr ([1], None), Inr ([2], Some 7), Inr ([3], None)])\<rparr>"]
  by (simp add: net_init_def)

section \<open>Unidirectional streams\<close>

text \<open>
  C7. The listener for unidirectional streams refines its specification. While a handle of the
  connection is held and the receiver is alive, it stops for every sequence of streams the
  peer opens, and it has put on the channel exactly the specified results: the user messages
  of each stream in order, one error where a stream breaks off, is damaged or holds anything
  else, the next stream after that, and nothing more once the connection is lost.
\<close>

theorem uni_listener_refines:
  assumes "runtime_laws E G" and "handles_held E alive"
    and "ch \<in> g_live_ch G w" and "g_rx_open G w ch" and "c \<in> g_live_conn G w"
    and "distinct (rights (g_uni G w c))" and "set (rights (g_uni G w c)) \<subseteq> g_live_rx G w"
  shows "\<exists>w'. listen_on_uni_streams E peer c alive ch w = Some (U_Stopped, w')
    \<and> g_log G w' ch =
        g_log G w ch @ map uni_item (uni_results E (g_avail G w) (g_fate G w) (g_uni G w c))"
  unfolding listen_on_uni_streams_def by (rule runtime_laws.uni_connection [OF assms])

text \<open>Two streams: a message, and a frame cut short; then the peer closes the connection.\<close>

definition two_streams :: net where
  "two_streams =
     net_init\<lparr>n_rx := (\<lambda>r. if r = 3 then ([[0, 1, 0, 0, 0, 2, 0, 0, 0, 4], [5]], Finished)
                          else ([[0, 1, 0]], Finished)),
              n_in_uni := (\<lambda>c. [Inr 3, Inr 4, Inl Q_LocallyClosed])\<rparr>"

lemma decode_user_4_5:
  "decode_frame net_env [0, 1, 0, 0, 0, 2, 0, 0, 0, 4, 5] Finished = (Inr (Some (UserMsg [4, 5])), [])"
  by (simp add: decode_frame_def MSG_HEADER_LEN_def MsgHeader_from_bytes_def u32_from_be_bytes_def
      decode_payload_def USER_MSG_FLAG_def)

lemma uni_items_4_5: "uni_items net_env [0, 1, 0, 0, 0, 2, 0, 0, 0, 4, 5] Finished = [Inr [4, 5]]"
proof -
  have "uni_items net_env [] Finished = []" by (simp add: uni_items.simps decode_frame_def)
  then show ?thesis by (subst uni_items.simps) (simp add: decode_user_4_5)
qed

lemma uni_items_short:
  "uni_items net_env [0, 1, 0] Finished =
     [Inl (RecvError.Serialization (SerializationError_new ''Received too few bytes for message''))]"
  by (subst uni_items.simps) (simp add: decode_frame_def MSG_HEADER_LEN_def)

theorem uni_listener_refines_witness:
  "\<exists>w'. listen_on_uni_streams net_env (V4 (Ipv4 127 0 0 1) 5000) 1 2 5 two_streams = Some (U_Stopped, w')
     \<and> n_log w' 5 = [Inr ([4, 5], None),
         Inl (RecvError.Serialization (SerializationError_new ''Received too few bytes for message''))]"
  using uni_listener_refines [OF net_runtime.runtime_laws_axioms, of 2 5 two_streams 1
      "V4 (Ipv4 127 0 0 1) 5000"]
  by (simp add: handles_held_def two_streams_def net_init_def uni_items_4_5 uni_items_short uni_item_def)

section \<open>Bidirectional streams\<close>

text \<open>
  Serving one bidirectional stream ends, whatever bytes the peer sends, and puts the
  stream's items on the channel in order: its user messages, each with the stream to reply
  on, and its errors; after a frame that cannot be decoded the loop reads on. Only the stream
  itself, its reply stream and the channel are touched.
\<close>

theorem bi_stream_served:
  assumes "runtime_laws E G"
    and "ch \<in> g_live_ch G w" and "g_rx_open G w ch" and "r \<in> g_live_rx G w"
  shows "\<exists>w'. bi_loop E endpoint peer ch s r w = Some w'
    \<and> g_log G w' ch = g_log G w ch @ bi_items E s (g_avail G w r) (g_fate G w r)
    \<and> unchanged G {r} {s} {ch} w w'"
  using runtime_laws.bi_loop_items [OF assms] by blast

text \<open>A frame with an unknown flag, and a user message behind it.\<close>

definition odd_stream :: net where
  "odd_stream =
     net_init\<lparr>n_rx := (\<lambda>r. ([[0, 1, 0, 0, 0, 1, 9], [0, 0, 66, 0, 1, 0, 0, 0, 2, 0, 0, 0, 4, 5]], Finished))\<rparr>"

lemma show_nine: "show_nat 9 = ''9''"
  by code_simp

lemma decode_odd:
  "decode_frame net_env [0, 1, 0, 0, 0, 1, 9, 0, 0, 66, 0, 1, 0, 0, 0, 2, 0, 0, 0, 4, 5] Finished =
     (Inl (RecvError.Serialization (SerializationError_new
        ''Invalid message type flag found in message header: 9'')), [0, 1, 0, 0, 0, 2, 0, 0, 0, 4, 5])"
  by (simp add: decode_frame_def MSG_HEADER_LEN_def MsgHeader_from_bytes_def u32_from_be_bytes_def
      decode_payload_def USER_MSG_FLAG_def ECHO_SRVC_MSG_FLAG_def show_nine)

lemma bi_items_odd:
  "bi_items net_env 8 [0, 1, 0, 0, 0, 1, 9, 0, 0, 66, 0, 1, 0, 0, 0, 2, 0, 0, 0, 4, 5] Finished =
     [Inl (RecvError.Serialization (SerializationError_new
        ''Invalid message type flag found in message header: 9'')), Inr ([4, 5], Some 8)]"
proof -
  have "frame_complete [0, 1, 0, 0, 0, 1, 9, 0, 0, 66, 0, 1, 0, 0, 0, 2, 0, 0, 0, 4, 5]"
    by (simp add: frame_complete_def MSG_HEADER_LEN_def MsgHeader_from_bytes_def u32_from_be_bytes_def)
  moreover have "bi_items net_env 8 [] Finished = []" by (simp add: bi_items.simps decode_frame_def)
  ultimately show ?thesis
    by (simp add: bi_items.simps [of net_env 8 "_ # _"] decode_odd decode_user_4_5)
qed

theorem bi_stream_served_witness:
  "\<exists>w'. bi_loop net_env 0 (V4 (Ipv4 127 0 0 1) 5000) 5 8 3 odd_stream = Some w'
     \<and> n_log w' 5 = [Inl (RecvError.Serialization (SerializationError_new
          ''Invalid message type flag found in message header: 9'')), Inr ([4, 5], Some 8)]"
  using bi_stream_served [OF net_runtime.runtime_laws_axioms, of 5 odd_stream 3 0 "V4 (Ipv4 127 0 0 1) 5000" 8]
  by (auto simp: odd_stream_def net_init_def bi_items_odd)

text \<open>
  When reading a stream keeps failing otherwise than by the loss of the connection, the state in
  which the loop forwards one error after another is never left.
\<close>

definition keeps_failing :: "'w env \<Rightarrow> 'w ghost \<Rightarrow> recv_id \<Rightarrow> bool" where
  "keeps_failing E G r \<longleftrightarrow>
     (\<forall>v n. \<exists>e v'. q_read E r n v = (Inl e, v') \<and> \<not> is_lost e \<and> unchanged G {r} {} {} v v')"

lemma bi_iteration_failing:
  assumes "channel_laws E G" and "keeps_failing E G r" and "ch \<in> g_live_ch G w" and "g_rx_open G w ch"
  obtains e w' where "bi_iteration E endpoint peer ch s r w = (True, w')"
    "g_log G w' ch = g_log G w ch @ [Inl e]" "ch \<in> g_live_ch G w'" "g_rx_open G w' ch"
proof -
  from assms(2) obtain e w1 where rd: "q_read E r MSG_HEADER_LEN w = (Inl e, w1)" "\<not> is_lost e"
    and u1: "unchanged G {r} {} {} w w1"
    unfolding keeps_failing_def by blast
  from rd(2) have err: "read_from_stream E r w = (Inl (RecvError_from_read e), w1)"
    "\<not> is_connection_lost (RecvError_from_read e)"
    using rd(1) by (cases e; simp add: read_from_stream_def)+
  from unchangedD(4,6,9) [OF u1 assms(3)] assms(3,4)
  have w1: "g_log G w1 ch = g_log G w ch" "g_rx_open G w1 ch" "ch \<in> g_live_ch G w1" by auto
  let ?item = "Inl (RecvError_from_read e)"
  from channel_laws.msg_send_open [OF assms(1) w1(2), of ?item] obtain w2 where
    w2: "t_msg_send E ch ?item w1 = (Inr (), w2)" "g_log G w2 ch = g_log G w1 ch @ [?item]" by blast
  from unchangedD(6,9) [OF keepsD [OF channel_laws.msg_send_keeps [OF assms(1)] w2(1)] w1(3)] w1
  have "g_rx_open G w2 ch" "ch \<in> g_live_ch G w2" by auto
  with that [of w2] w2 w1(1) err show thesis by (simp add: bi_iteration_def)
qed

lemma bi_loop_failing:
  assumes "channel_laws E G" and "keeps_failing E G r" and "ch \<in> g_live_ch G w" and "g_rx_open G w ch"
  shows "bi_loop E endpoint peer ch s r w \<noteq> Some w'"
proof
  let ?stuck = "\<lambda>E ch r w. channel_laws E G \<and> keeps_failing E G r \<and> ch \<in> g_live_ch G w \<and> g_rx_open G w ch"
  assume "bi_loop E endpoint peer ch s r w = Some w'"
  then have "\<not> ?stuck E ch r w"
  proof (rule bi_loop.raw_induct [where P = "\<lambda>E _ _ ch _ r w _. \<not> ?stuck E ch r w", rotated])
    fix f :: "'a env \<Rightarrow> _" and E endpoint peer ch s r w w'
    assume IH: "\<And>E endpoint peer ch s r w w'. f E endpoint peer ch s r w = Some w' \<Longrightarrow> \<not> ?stuck E ch r w"
      and f: "(if fst (bi_iteration E endpoint peer ch s r w)
        then f E endpoint peer ch s r (snd (bi_iteration E endpoint peer ch s r w))
        else Some (snd (bi_iteration E endpoint peer ch s r w))) = Some w'"
    show "\<not> ?stuck E ch r w"
    proof (rule notI, elim conjE)
      assume a: "channel_laws E G" "keeps_failing E G r" "ch \<in> g_live_ch G w" "g_rx_open G w ch"
      obtain e w1 where "bi_iteration E endpoint peer ch s r w = (True, w1)"
        "g_log G w1 ch = g_log G w ch @ [Inl e]" "ch \<in> g_live_ch G w1" "g_rx_open G w1 ch"
        by (rule bi_iteration_failing [OF a])
      with f IH [of E endpoint peer ch s r w1 w'] a(1,2) show False by simp
    qed
  qed
  with assms show False by blast
qed

text \<open>
  C19. The task that serves a bidirectional stream ends only because its reads do. It leaves the
  stream when the connection is lost, but reads on after every other error; so if reading the
  stream keeps failing otherwise, the task never ends, for as long as the channel is open, and
  each round puts one more error on the channel: after any number of rounds it has as many.
\<close>

theorem failing_stream_never_left:
  assumes "channel_laws E G" and "keeps_failing E G r" and "ch \<in> g_live_ch G w" and "g_rx_open G w ch"
  shows "bi_loop E endpoint peer ch s r w = None
    \<and> (\<exists>errors. length errors = n
         \<and> g_log G (((\<lambda>v. snd (bi_iteration E endpoint peer ch s r v)) ^^ n) w) ch = g_log G w ch @ map Inl errors)"
proof
  from bi_loop_failing [OF assms] show "bi_loop E endpoint peer ch s r w = None"
    by (cases "bi_loop E endpoint peer ch s r w") auto
  let ?round = "\<lambda>v. snd (bi_iteration E endpoint peer ch s r v)"
  have "ch \<in> g_live_ch G ((?round ^^ n) w) \<and> g_rx_open G ((?round ^^ n) w) ch
      \<and> (\<exists>errors. length errors = n \<and> g_log G ((?round ^^ n) w) ch = g_log G w ch @ map Inl errors)"
  proof (induction n)
    case 0
    from assms(3,4) show ?case by simp
  next
    case (Suc n)
    then obtain errors where errors: "length errors = n"
      "g_log G ((?round ^^ n) w) ch = g_log G w ch @ map Inl errors" by blast
    obtain e w' where "bi_iteration E endpoint peer ch s r ((?round ^^ n) w) = (True, w')"
      "g_log G w' ch = g_log G ((?round ^^ n) w) ch @ [Inl e]" "ch \<in> g_live_ch G w'" "g_rx_open G w' ch"
      by (rule bi_iteration_failing [OF assms(1,2), of ch _ endpoint peer s]) (use Suc in blast)+
    with errors show ?case by (intro conjI exI [of _ "errors @ [e]"]) simp_all
  qed
  then show "\<exists>errors. length errors = n \<and> g_log G ((?round ^^ n) w) ch = g_log G w ch @ map Inl errors" by blast
qed

text \<open>A transport whose reads always fail.\<close>

definition failing_env :: "net env" where
  "failing_env = net_env\<lparr>q_read := (\<lambda>r n w. (Inl QR_UnknownStream, w))\<rparr>"

theorem failing_stream_never_left_witness:
  "bi_loop failing_env 0 (V4 (Ipv4 127 0 0 1) 5000) 5 8 3 net_init = None
   \<and> (\<exists>errors. length errors = 1000
        \<and> g_log net_ghost (((\<lambda>v. snd (bi_iteration failing_env 0 (V4 (Ipv4 127 0 0 1) 5000) 5 8 3 v)) ^^ 1000) net_init) 5
            = map Inl errors)"
proof -
  have "channel_laws failing_env net_ghost"
    using net_channel.channel_laws_axioms by (simp add: channel_laws_def failing_env_def)
  moreover have "keeps_failing failing_env net_ghost 3" by (simp add: keeps_failing_def failing_env_def)
  moreover have "5 \<in> g_live_ch net_ghost net_init" "g_rx_open net_ghost net_init 5" "n_log net_init 5 = []"
    by (simp_all add: net_init_def)
  ultimately show ?thesis
    using failing_stream_never_left [of failing_env net_ghost 3 5 net_init 0 "V4 (Ipv4 127 0 0 1) 5000" 8 1000] by auto
qed

section \<open>The echo and the verification service\<close>

text \<open>
  The echo service: an echo request on a bidirectional stream is answered on that stream
  with the address the connection comes from, and the loop goes on; when the write succeeds
  the frame of the response is all that was added, and nothing goes to the application.
\<close>

theorem echo_request_answered:
  assumes "runtime_laws E G" and "bincode_laws E"
    and "encode_frame E EndpointEchoReq = Inr req" and "g_avail G w r = req @ rest"
    and "r \<in> g_live_rx G w" and "s \<in> g_live_tx G w" and "ch \<in> g_live_ch G w"
  shows "\<exists>w1 res w'. bi_iteration E endpoint peer ch s r w = (True, w')
    \<and> write_to_stream E (EndpointEchoResp peer) s w1 = (res, w')
    \<and> g_avail G w' r = rest \<and> g_log G w' ch = g_log G w ch
    \<and> (res = Inr () \<longrightarrow> (\<exists>resp. encode_frame E (EndpointEchoResp peer) = Inr resp
          \<and> g_sent G w' s = g_sent G w s @ resp))"
proof -
  from assms(1) have t: "transport_laws E G" by (simp add: runtime_laws_def)
  then have rs: "recv_stream_laws E (g_avail G) (g_fate G)" and ss: "send_stream_laws E (g_sent G)"
    by (simp_all add: transport_laws_def)
  then have fs: "framed_stream_laws E (g_avail G) (g_fate G)" using assms(2) by (simp add: framed_stream_laws_def)
  have "sendable EndpointEchoReq" by (simp add: sendable_def)
  then obtain w1 where rd: "read_from_stream E r w = (Inr (Some EndpointEchoReq), w1)" "g_avail G w1 r = rest"
    using framed_stream_laws.read_frame [OF fs assms(3) _ assms(4)] by blast
  obtain res w' where wr: "write_to_stream E (EndpointEchoResp peer) s w1 = (res, w')" by fastforce
  note u1 = keepsD [OF transport_laws.read_from_stream_keeps [OF t] rd(1)]
    and u2 = keepsD [OF transport_laws.write_to_stream_keeps [OF t] wr]
  have "bi_iteration E endpoint peer ch s r w = (True, w')"
    using rd(1) wr by (simp add: bi_iteration_def handle_endpoint_echo_def)
  moreover have "g_avail G w' r = rest" "g_log G w' ch = g_log G w ch"
    using rd(2) assms(5,7) unchangedD [OF u1] unchangedD [OF u2] by auto
  moreover have "\<exists>resp. encode_frame E (EndpointEchoResp peer) = Inr resp \<and> g_sent G w' s = g_sent G w s @ resp"
    if "res = Inr ()"
    using send_stream_laws.write_refines [OF ss wr [unfolded that]] unchangedD(3) [OF u1 assms(6)]
    by auto
  ultimately show ?thesis using wr by blast
qed

text \<open>An echo request, in two chunks, and the reply stream 8.\<close>

definition echo_world :: net where
  "echo_world = net_init\<lparr>n_rx := (\<lambda>r. ([[0, 1, 0, 0, 0, 4, 1, 0, 0, 0], [0, 0, 0]], Finished))\<rparr>"

lemma encode_echo_req: "encode_frame net_env EndpointEchoReq = Inr [0, 1, 0, 0, 0, 4, 1, 0, 0, 0, 0, 0, 0]"
  by (simp add: encode_frame_def le_bytes_4_small MsgHeader_new_def MsgHeader_to_bytes_def u16_to_be_bytes_def
      u32_to_be_bytes_def MSG_PROTOCOL_VERSION_def ECHO_SRVC_MSG_FLAG_def)

theorem echo_request_answered_witness:
  "\<exists>w1 res w'. bi_iteration net_env 0 (V4 (Ipv4 10 0 0 2) 7000) 5 8 3 echo_world = (True, w')
     \<and> write_to_stream net_env (EndpointEchoResp (V4 (Ipv4 10 0 0 2) 7000)) 8 w1 = (res, w') \<and> n_log w' 5 = []"
proof -
  have "g_log net_ghost echo_world 5 = []" by (simp add: echo_world_def net_init_def)
  with echo_request_answered [OF net_runtime.runtime_laws_axioms net_bincode.bincode_laws_axioms
      encode_echo_req, of echo_world 3 "[]" 8 5 0 "V4 (Ipv4 10 0 0 2) 7000"]
  show ?thesis by (auto simp: echo_world_def net_init_def)
qed

lemma verified_is_ok:
  "is_ok (case out of Inr x \<Rightarrow> x | Inl e \<Rightarrow> Inl (RpcError_from_elapsed e)) \<longleftrightarrow> out = Inr (Inr ())"
  by (auto split: sum.splits elim: is_ok.elims)

text \<open>
  The verification service: a verification request is answered on its stream, and the
  answer is positive exactly when the check of the address has succeeded within the time
  allowed for it; a check that fails or takes too long gives a negative answer.
\<close>

theorem verification_request_answered:
  assumes "runtime_laws E G" and "bincode_laws E"
    and "encode_frame E (EndpointVerificationReq addr) = Inr req" and "canonical_addr addr"
    and "g_avail G w r = req @ rest"
    and "r \<in> g_live_rx G w" and "s \<in> g_live_tx G w" and "ch \<in> g_live_ch G w"
  shows "\<exists>w1 out w2 res w'. bi_iteration E endpoint peer ch s r w = (True, w')
    \<and> with_timeout E ENDPOINT_VERIFICATION_TIMEOUT (verify_endpoint E endpoint addr) w1 = (out, w2)
    \<and> write_to_stream E (EndpointVerificationResp (out = Inr (Inr ()))) s w2 = (res, w')
    \<and> g_avail G w' r = rest \<and> g_log G w' ch = g_log G w ch
    \<and> (res = Inr () \<longrightarrow>
        (\<exists>resp. encode_frame E (EndpointVerificationResp (out = Inr (Inr ()))) = Inr resp
          \<and> g_sent G w' s = g_sent G w s @ resp))"
proof -
  from assms(1) have t: "transport_laws E G" by (simp add: runtime_laws_def)
  then have rs: "recv_stream_laws E (g_avail G) (g_fate G)" and ss: "send_stream_laws E (g_sent G)"
    by (simp_all add: transport_laws_def)
  then have fs: "framed_stream_laws E (g_avail G) (g_fate G)" using assms(2) by (simp add: framed_stream_laws_def)
  have "sendable (EndpointVerificationReq addr)" using assms(4) by (simp add: sendable_def)
  then obtain w1 where rd: "read_from_stream E r w = (Inr (Some (EndpointVerificationReq addr)), w1)"
    "g_avail G w1 r = rest"
    using framed_stream_laws.read_frame [OF fs assms(3) _ assms(5)] by blast
  obtain out w2 where ver:
    "with_timeout E ENDPOINT_VERIFICATION_TIMEOUT (verify_endpoint E endpoint addr) w1 = (out, w2)" by fastforce
  obtain res w' where
    wr: "write_to_stream E (EndpointVerificationResp (out = Inr (Inr ()))) s w2 = (res, w')" by fastforce
  note u1 = keepsD [OF transport_laws.read_from_stream_keeps [OF t] rd(1)]
    and u2 = keepsD [OF transport_laws.with_timeout_keeps [OF t runtime_laws.verify_endpoint_keeps [OF assms(1)]] ver]
    and u3 = keepsD [OF transport_laws.write_to_stream_keeps [OF t] wr]
  have "bi_iteration E endpoint peer ch s r w = (True, w')"
    using rd(1) ver wr by (simp add: bi_iteration_def handle_endpoint_verification_def Let_def verified_is_ok)
  moreover have "g_avail G w' r = rest" "g_log G w' ch = g_log G w ch"
    using rd(2) assms(6,8) unchangedD [OF u1] unchangedD [OF u2] unchangedD [OF u3] by auto
  moreover have "\<exists>resp. encode_frame E (EndpointVerificationResp (out = Inr (Inr ()))) = Inr resp
      \<and> g_sent G w' s = g_sent G w s @ resp"
    if "res = Inr ()"
    using send_stream_laws.write_refines [OF ss wr [unfolded that]] unchangedD(3,8) [OF u1 assms(7)]
      unchangedD(3) [OF u2, of s]
    by auto
  ultimately show ?thesis using ver wr by blast
qed

lemma encode_verification_req:
  "encode_frame net_env (EndpointVerificationReq (V4 (Ipv4 10 0 0 2) 7000)) =
     Inr [0, 1, 0, 0, 0, 14, 1, 0, 0, 2, 0, 0, 0, 0, 0, 0, 0, 10, 0, 0, 2, 88, 27]"
  by (simp add: encode_frame_def le_bytes_4_small le_bytes_2 MsgHeader_new_def MsgHeader_to_bytes_def
      u16_to_be_bytes_def u32_to_be_bytes_def MSG_PROTOCOL_VERSION_def ECHO_SRVC_MSG_FLAG_def)

definition verification_world :: net where
  "verification_world =
     net_init\<lparr>n_rx := (\<lambda>r. ([[0, 1, 0, 0, 0, 14, 1, 0, 0, 2, 0, 0, 0, 0, 0, 0, 0, 10, 0, 0, 2, 88, 27]], Finished))\<rparr>"

theorem verification_request_answered_witness:
  "\<exists>answer w2 res w'. bi_iteration net_env 0 (V4 (Ipv4 10 0 0 2) 7000) 5 8 3 verification_world = (True, w')
     \<and> write_to_stream net_env (EndpointVerificationResp answer) 8 w2 = (res, w') \<and> n_log w' 5 = []"
proof -
  have "g_avail net_ghost verification_world 3 =
      [0, 1, 0, 0, 0, 14, 1, 0, 0, 2, 0, 0, 0, 0, 0, 0, 0, 10, 0, 0, 2, 88, 27] @ []"
    and live: "3 \<in> g_live_rx net_ghost verification_world" "8 \<in> g_live_tx net_ghost verification_world"
      "5 \<in> g_live_ch net_ghost verification_world" and "n_log verification_world 5 = []"
    by (simp_all add: verification_world_def net_init_def)
  with verification_request_answered [OF net_runtime.runtime_laws_axioms net_bincode.bincode_laws_axioms
      encode_verification_req _ this(1) live, of 0 "V4 (Ipv4 10 0 0 2) 7000"]
  show ?thesis by fastforce
qed

text \<open>A peer that can be dialled and answers an echo request with the address it sees.\<close>

definition reachable_world :: net where
  "reachable_world =
     net_init\<lparr>n_dial := (\<lambda>a. Inr (Inr 1)),
              n_reply := (\<lambda>c r. ([[0, 1, 0, 0, 0, 14, 1, 0, 0], [1, 0, 0, 0, 0, 0, 0, 0, 10, 0, 0, 2, 88, 27]], Finished))\<rparr>"

lemma decode_echo_resp:
  "bc_deserialize [1, 0, 0, 0, 0, 0, 0, 0, 10, 0, 0, 2, 88, 27] =
     Inr (EndpointEchoResp (V4 (Ipv4 10 0 0 2) 7000))"
  by (simp add: bc_deserialize_def bc_body_def bc_read_addr_def Let_def)

lemma verify_reachable:
  obtains w' where "verify_endpoint net_env 0 (V4 (Ipv4 10 0 0 2) 7000) reachable_world = (Inr (), w')"
proof -
  have "\<exists>w'. verify_endpoint net_env 0 (V4 (Ipv4 10 0 0 2) 7000) reachable_world = (Inr (), w')"
    by (simp add: verify_endpoint_def reachable_world_def net_init_def net_connect_def net_connecting_def
        net_open_bi_def write_to_stream_def le_bytes_4_small MsgHeader_new_def net_write_all_def Let_def
        read_from_stream_def net_read_def net_read_exact_def MSG_HEADER_LEN_def read_header_rest_def fill_def
        MsgHeader_from_bytes_def u32_from_be_bytes_def decode_payload_def USER_MSG_FLAG_def
        ECHO_SRVC_MSG_FLAG_def decode_echo_resp)
  with that show thesis by blast
qed

text \<open>
  A positive verification means that the address was reached: the endpoint opened a new
  connection to exactly that address, sent an echo request over a new stream of it and read
  an echo response back from that stream.
\<close>

theorem verified_address_echoed:
  assumes "verify_endpoint E endpoint addr w = (Inr (), w')"
  shows "\<exists>connecting w1 connection w2 s r w3 w4 seen.
    q_connect E endpoint addr SERVER_NAME w = (Inr connecting, w1)
    \<and> q_connecting E connecting w1 = (Inr connection, w2)
    \<and> q_open_bi E connection w2 = (Inr (s, r), w3)
    \<and> write_to_stream E EndpointEchoReq s w3 = (Inr (), w4)
    \<and> read_from_stream E r w4 = (Inr (Some (EndpointEchoResp seen)), w')"
proof -
  from assms obtain connecting w1 connection w2 s r w3 w4 msg w5 where
    chain: "q_connect E endpoint addr SERVER_NAME w = (Inr connecting, w1)"
      "q_connecting E connecting w1 = (Inr connection, w2)"
      "q_open_bi E connection w2 = (Inr (s, r), w3)"
      "write_to_stream E EndpointEchoReq s w3 = (Inr (), w4)"
      "read_from_stream E r w4 = (Inr msg, w5)" and
    reply: "(case msg of
         Some (EndpointEchoResp addr') \<Rightarrow> io_ret ()
       | msg \<Rightarrow> io_fail (RpcError.Recv
           (RecvError.Serialization (SerializationError_unexpected msg)))) w5 = (Inr (), w')"
    by (auto simp: verify_endpoint_def io_inv)
  from reply obtain seen where "msg = Some (EndpointEchoResp seen)" "w5 = w'"
    by (cases msg; cases "the msg") auto
  with chain show ?thesis by blast
qed


theorem verified_address_echoed_witness:
  "\<exists>s r w4 seen w'.
     verify_endpoint net_env 0 (V4 (Ipv4 10 0 0 2) 7000) reachable_world = (Inr (), w')
     \<and> read_from_stream net_env r w4 = (Inr (Some (EndpointEchoResp seen)), w')
     \<and> write_to_stream net_env EndpointEchoReq s
         (snd (net_open_bi 1 (snd (net_connect 0 (V4 (Ipv4 10 0 0 2) 7000) SERVER_NAME reachable_world))))
         = (Inr (), w4)"
proof -
  obtain w' where w': "verify_endpoint net_env 0 (V4 (Ipv4 10 0 0 2) 7000) reachable_world = (Inr (), w')"
    by (rule verify_reachable)
  from verified_address_echoed [OF w'] show ?thesis
    using w' by (fastforce simp: net_connecting_def net_connect_def reachable_world_def)
qed

end
