(* ===== verification/Igd_Props.thy ===== *)
theory Igd_Props
  imports Igd Loopback
begin

text \<open>
  Port forwarding: that the lease requested is the one configured, that a renewal asks for the
  same mapping as the first request, and when the renewal task ends.
\<close>

section \<open>The termination channel\<close>

text \<open>
  What the renewal task relies on: a termination that has been sent stays there while the
  timer runs and while the endpoint is closed, and the receiver then sees more than an empty
  channel. \<open>sig\<close> is a ghost function: whether the channel's receiver has something to see.
\<close>

locale termination_laws =
  fixes E :: "'w env" and sig :: "'w \<Rightarrow> term_id \<Rightarrow> bool"
  assumes send_signals: "sig (t_broadcast_send E t w) t"
    and close_signal: "sig w t \<Longrightarrow> sig (q_endpoint_close E ep code reason w) t"
    and tick_signal: "sig w t \<Longrightarrow> sig (t_tick E timer w) t"
    and try_recv_signal: "sig w t \<Longrightarrow> fst (t_broadcast_try_recv E t w) \<noteq> Inl BC_Empty"
begin

text \<open>The next tick ends the task, and nothing is asked of the gateway.\<close>

lemma renew_loop_signalled:
  assumes "sig w t"
  shows "renew_loop E ext_port addr lease t timer w =
           Some (snd (t_broadcast_try_recv E t (t_tick E timer w)))"
proof -
  have "fst (t_broadcast_try_recv E t (t_tick E timer w)) \<noteq> Inl BC_Empty"
    using assms by (intro try_recv_signal tick_signal)
  then show ?thesis
    by (subst renew_loop.simps) (auto simp: renew_tick_def split: prod.splits)
qed

end

interpretation net_termination: termination_laws net_env n_terminated
  by unfold_locales simp_all

section \<open>The renewal loop\<close>

text \<open>
  What the termination channel has for the task at the next tick, and the state a round leaves in
  which the lease is renewed, whether or not the gateway agrees.
\<close>

definition seen_at_tick ::
  "'w env \<Rightarrow> term_id \<Rightarrow> timer_id \<Rightarrow> 'w \<Rightarrow> (broadcast_TryRecvError + unit) \<times> 'w" where
  "seen_at_tick E t timer w = t_broadcast_try_recv E t (t_tick E timer w)"

definition renewal_round ::
  "'w env \<Rightarrow> u16 \<Rightarrow> SocketAddr \<Rightarrow> u32 \<Rightarrow> term_id \<Rightarrow> timer_id \<Rightarrow> 'w \<Rightarrow> 'w" where
  "renewal_round E ext_port addr lease t timer w =
     snd (renew_port E ext_port addr lease (snd (seen_at_tick E t timer w)))"

text \<open>The channel is merely empty at the first \<open>n\<close> ticks.\<close>

definition empty_for ::
  "'w env \<Rightarrow> u16 \<Rightarrow> SocketAddr \<Rightarrow> u32 \<Rightarrow> term_id \<Rightarrow> timer_id \<Rightarrow> nat \<Rightarrow> 'w \<Rightarrow> bool" where
  "empty_for E ext_port addr lease t timer n w \<longleftrightarrow>
     (\<forall>i < n. fst (seen_at_tick E t timer ((renewal_round E ext_port addr lease t timer ^^ i) w)) = Inl BC_Empty)"

lemma empty_for_Suc:
  "empty_for E ext_port addr lease t timer (Suc n) w \<longleftrightarrow>
     fst (seen_at_tick E t timer w) = Inl BC_Empty
     \<and> empty_for E ext_port addr lease t timer n (renewal_round E ext_port addr lease t timer w)"
  unfolding empty_for_def All_less_Suc2 by (simp add: funpow_swap1)

lemma renew_tick_round:
  "renew_tick E ext_port addr lease t timer w =
     (if fst (seen_at_tick E t timer w) = Inl BC_Empty then (True, renewal_round E ext_port addr lease t timer w)
      else (False, snd (seen_at_tick E t timer w)))"
  by (simp add: renew_tick_def seen_at_tick_def renewal_round_def case_prod_beta)

lemma renew_loop_ends:
  assumes "renew_loop E ext_port addr lease t timer w = Some w'"
  shows "\<exists>n. empty_for E ext_port addr lease t timer n w
           \<and> fst (seen_at_tick E t timer ((renewal_round E ext_port addr lease t timer ^^ n) w)) \<noteq> Inl BC_Empty
           \<and> w' = snd (seen_at_tick E t timer ((renewal_round E ext_port addr lease t timer ^^ n) w))"
proof (rule renew_loop.raw_induct [OF _ assms, where P = "\<lambda>E ext_port addr lease t timer w w'.
    \<exists>n. empty_for E ext_port addr lease t timer n w
      \<and> fst (seen_at_tick E t timer ((renewal_round E ext_port addr lease t timer ^^ n) w)) \<noteq> Inl BC_Empty
      \<and> w' = snd (seen_at_tick E t timer ((renewal_round E ext_port addr lease t timer ^^ n) w))"], goal_cases)
  case (1 loop E ext_port addr lease t timer w w')
  let ?round = "renewal_round E ext_port addr lease t timer"
  show ?case
  proof (cases "fst (seen_at_tick E t timer w) = Inl BC_Empty")
    case False
    with 1(2) show ?thesis by (intro exI [of _ 0]) (simp add: renew_tick_round empty_for_def)
  next
    case True
    with 1(2) have "loop E ext_port addr lease t timer (?round w) = Some w'" by (simp add: renew_tick_round)
    from 1(1) [OF this] obtain n where "empty_for E ext_port addr lease t timer n (?round w)"
      "fst (seen_at_tick E t timer ((?round ^^ n) (?round w))) \<noteq> Inl BC_Empty"
      "w' = snd (seen_at_tick E t timer ((?round ^^ n) (?round w)))" by blast
    with True show ?thesis
      by (intro exI [of _ "Suc n"]) (simp add: empty_for_Suc funpow_swap1)
  qed
qed

lemma renew_loop_runs:
  "empty_for E ext_port addr lease t timer n w \<Longrightarrow>
   fst (seen_at_tick E t timer ((renewal_round E ext_port addr lease t timer ^^ n) w)) \<noteq> Inl BC_Empty \<Longrightarrow>
   renew_loop E ext_port addr lease t timer w =
     Some (snd (seen_at_tick E t timer ((renewal_round E ext_port addr lease t timer ^^ n) w)))"
proof (induction n arbitrary: w)
  case 0
  then show ?case by (subst renew_loop.simps) (simp add: renew_tick_round)
next
  case (Suc n)
  then have "fst (seen_at_tick E t timer w) = Inl BC_Empty" by (simp add: empty_for_Suc)
  with Suc show ?case
    by (subst renew_loop.simps) (simp add: renew_tick_round empty_for_Suc funpow_swap1)
qed

section \<open>Properties\<close>

text \<open>
  C31. Renewing a mapping asks the gateway for exactly what adding it asked for: the two
  functions, written separately, are the same operation, errors included.
\<close>

theorem renew_port_is_add_port: "renew_port E ext_port addr lease = add_port E ext_port addr lease"
  by (rule ext)
    (auto simp: renew_port_def add_port_def io_bind_def io_map_err_def
        split: SocketAddr.splits prod.splits sum.splits)

text \<open>
  C30. When forwarding succeeds the gateway was asked once, for a UDP mapping of the given
  external port to the local address, for the configured number of whole seconds or the
  largest 32-bit number, whichever is less, so the cast to 32 bits loses nothing; and the
  renewal task was started with that lease and the capped interval.
\<close>

theorem forwarded_lease:
  assumes "forward_port E ext_port local_addr d t w = (Inr (), w')"
  shows "\<exists>ip port gateway w1 w2 lease. local_addr = V4 ip port
           \<and> i_search_gateway E w = (Inr gateway, w1)
           \<and> i_add_port E gateway UDP ext_port (ip, port) lease ''MaidSafe.net'' w1 = (Inr (), w2)
           \<and> unat lease = min (as_secs d) (2 ^ 32 - 1)
           \<and> w' = t_spawn E (RenewLease ext_port local_addr (min d max_lease) lease t) w2"
  using assms lease_cast [of d]
  by (cases local_addr) (auto simp: forward_port_def add_port_def Let_def io_inv)

theorem forwarded_lease_witness:
  "forward_port net_env 4001 (V4 (Ipv4 192 168 0 7) 4000) (from_secs (2 ^ 33)) 3 net_init =
     (Inr (), snd (forward_port net_env 4001 (V4 (Ipv4 192 168 0 7) 4000) (from_secs (2 ^ 33)) 3 net_init))
   \<and> (\<exists>ip port gateway w1 w2 lease. V4 (Ipv4 192 168 0 7) 4000 = V4 ip port
           \<and> i_search_gateway net_env net_init = (Inr gateway, w1)
           \<and> i_add_port net_env gateway UDP 4001 (ip, port) lease ''MaidSafe.net'' w1 = (Inr (), w2)
           \<and> unat lease = min (as_secs (from_secs (2 ^ 33))) (2 ^ 32 - 1)
           \<and> snd (forward_port net_env 4001 (V4 (Ipv4 192 168 0 7) 4000) (from_secs (2 ^ 33)) 3 net_init)
             = t_spawn net_env (RenewLease 4001 (V4 (Ipv4 192 168 0 7) 4000)
                                  (min (from_secs (2 ^ 33)) max_lease) lease 3) w2)"
proof
  show run: "forward_port net_env 4001 (V4 (Ipv4 192 168 0 7) 4000) (from_secs (2 ^ 33)) 3 net_init =
     (Inr (), snd (forward_port net_env 4001 (V4 (Ipv4 192 168 0 7) 4000) (from_secs (2 ^ 33)) 3 net_init))"
    by (simp add: forward_port_def add_port_def Let_def io_bind_def io_map_err_def io_do_def)
  show "\<exists>ip port gateway w1 w2 lease. V4 (Ipv4 192 168 0 7) 4000 = V4 ip port
           \<and> i_search_gateway net_env net_init = (Inr gateway, w1)
           \<and> i_add_port net_env gateway UDP 4001 (ip, port) lease ''MaidSafe.net'' w1 = (Inr (), w2)
           \<and> unat lease = min (as_secs (from_secs (2 ^ 33))) (2 ^ 32 - 1)
           \<and> snd (forward_port net_env 4001 (V4 (Ipv4 192 168 0 7) 4000) (from_secs (2 ^ 33)) 3 net_init)
             = t_spawn net_env (RenewLease 4001 (V4 (Ipv4 192 168 0 7) 4000)
                                  (min (from_secs (2 ^ 33)) max_lease) lease 3) w2"
    by (rule forwarded_lease [OF run])
qed

text \<open>
  C24. The renewal task ends exactly at the first tick at which the termination channel has
  something other than being empty: a termination, its senders gone, or messages missed. It ends
  there without asking the gateway again. At every tick before, the lease is renewed, and an error
  of a renewal does not end the task. As long as the channel is empty at every tick it never ends.
\<close>

theorem renewal_until_termination:
  "(renew_loop E ext_port addr lease t timer w = Some w' \<longleftrightarrow>
      (\<exists>n. (\<forall>i < n. fst (t_broadcast_try_recv E t (t_tick E timer
                  ((renewal_round E ext_port addr lease t timer ^^ i) w))) = Inl BC_Empty)
         \<and> (\<exists>res. t_broadcast_try_recv E t (t_tick E timer
                  ((renewal_round E ext_port addr lease t timer ^^ n) w)) = (res, w') \<and> res \<noteq> Inl BC_Empty)))
   \<and> (renew_loop E ext_port addr lease t timer w = None \<longleftrightarrow>
        (\<forall>i. fst (t_broadcast_try_recv E t (t_tick E timer
               ((renewal_round E ext_port addr lease t timer ^^ i) w))) = Inl BC_Empty))"
proof
  let ?seen = "\<lambda>i. seen_at_tick E t timer ((renewal_round E ext_port addr lease t timer ^^ i) w)"
  have ends: "renew_loop E ext_port addr lease t timer w = Some v \<longleftrightarrow>
      (\<exists>n. (\<forall>i < n. fst (?seen i) = Inl BC_Empty) \<and> fst (?seen n) \<noteq> Inl BC_Empty \<and> v = snd (?seen n))" for v
    using renew_loop_ends [of E ext_port addr lease t timer w v]
      renew_loop_runs [of E ext_port addr lease t timer _ w] by (auto simp: empty_for_def)
  from ends [of w'] show "renew_loop E ext_port addr lease t timer w = Some w' \<longleftrightarrow>
      (\<exists>n. (\<forall>i < n. fst (t_broadcast_try_recv E t (t_tick E timer
                  ((renewal_round E ext_port addr lease t timer ^^ i) w))) = Inl BC_Empty)
         \<and> (\<exists>res. t_broadcast_try_recv E t (t_tick E timer
                  ((renewal_round E ext_port addr lease t timer ^^ n) w)) = (res, w') \<and> res \<noteq> Inl BC_Empty))"
    by (auto simp: seen_at_tick_def) (metis fst_conv snd_conv prod.collapse)+
  have "(\<exists>v. renew_loop E ext_port addr lease t timer w = Some v) \<longleftrightarrow> (\<exists>n. fst (?seen n) \<noteq> Inl BC_Empty)"
    unfolding ends using exists_least_iff [of "\<lambda>n. fst (?seen n) \<noteq> Inl BC_Empty"] by blast
  then show "renew_loop E ext_port addr lease t timer w = None \<longleftrightarrow>
      (\<forall>i. fst (t_broadcast_try_recv E t (t_tick E timer
             ((renewal_round E ext_port addr lease t timer ^^ i) w))) = Inl BC_Empty)"
    by (cases "renew_loop E ext_port addr lease t timer w") (auto simp: seen_at_tick_def)
qed

theorem renewal_until_termination_witness:
  "renew_loop net_env 4001 (V4 (Ipv4 192 168 0 7) 4000) 60 3 9 (net_init\<lparr>n_terminated := (\<lambda>t. True)\<rparr>)
     = Some (net_init\<lparr>n_terminated := (\<lambda>t. True)\<rparr>)"
proof -
  let ?w = "net_init\<lparr>n_terminated := (\<lambda>t. True)\<rparr>"
  have "\<exists>res. t_broadcast_try_recv net_env 3 (t_tick net_env 9 ((renewal_round net_env 4001 (V4 (Ipv4 192 168 0 7) 4000) 60 3 9 ^^ 0) ?w)) = (res, ?w) \<and> res \<noteq> Inl BC_Empty"
    by simp
  with renewal_until_termination [of net_env 4001 "V4 (Ipv4 192 168 0 7) 4000" 60 3 9 ?w ?w] show ?thesis
    by (metis not_less_zero)
qed

text \<open>
  C40. A lease of less than a second is requested as a lease of zero seconds, which asks the
  gateway for a mapping without an end; a lease of zero moreover ends the renewal task in a
  panic, because a timer cannot have a period of zero.
\<close>

theorem short_lease_is_unlimited:
  assumes "d < 10 ^ 9" and "fst (t_interval_at E 0 0 w) = None"
  shows "forward_port E ext_port addr d t =
           io_bind (add_port E ext_port addr 0) (\<lambda>_. io_do (t_spawn E (RenewLease ext_port addr d 0 t)))
         \<and> renew_lease E ext_port addr 0 0 t w = Some (T_Panicked, snd (t_interval_at E 0 0 w))"
proof
  from assms(1) have "min d max_lease = d" "as_secs d = 0"
    by (simp_all add: max_lease_secs as_secs_def min_def)
  then show "forward_port E ext_port addr d t =
      io_bind (add_port E ext_port addr 0) (\<lambda>_. io_do (t_spawn E (RenewLease ext_port addr d 0 t)))"
    by (simp add: forward_port_def Let_def)
  show "renew_lease E ext_port addr 0 0 t w = Some (T_Panicked, snd (t_interval_at E 0 0 w))"
    using assms(2) by (auto simp: renew_lease_def split: prod.splits)
qed

theorem short_lease_is_unlimited_witness:
  "forward_port net_env 4001 (V4 (Ipv4 192 168 0 7) 4000) 500000000 3 net_init =
     (Inr (), net_init\<lparr>n_mapped := [(4001, (Ipv4 192 168 0 7, 4000), 0)],
                      n_tasks := [RenewLease 4001 (V4 (Ipv4 192 168 0 7) 4000) 500000000 0 3]\<rparr>)
   \<and> renew_lease net_env 4001 (V4 (Ipv4 192 168 0 7) 4000) 0 0 3 net_init = Some (T_Panicked, net_init)"
proof -
  have "n_mapped net_init = []" "n_tasks net_init = []" by (simp_all add: net_init_def)
  then show ?thesis
    using short_lease_is_unlimited
      [of 500000000 net_env net_init 4001 "V4 (Ipv4 192 168 0 7) 4000" 3]
    by (simp add: add_port_def io_bind_def io_map_err_def io_do_def)
qed

end
