(* ===== verification/Accepting.thy ===== *)
theory Accepting
  imports Endpoint Loopback
begin

text \<open>
  The loop that accepts connections, against the laws of the endpoint it listens on: which
  connections it hands to the application, and in which order.
\<close>

section \<open>What the loop relies on\<close>

text \<open>
  Ghost functions: the connection attempts that will arrive at an endpoint, in order, until it
  is closed (\<open>arrivals\<close>), how the handshake of an attempt ends (\<open>outcome\<close>), and the
  connections a channel has accepted for the application (\<open>accepted\<close>). What the crate does
  for a new connection, creating its channels and starting its tasks, concerns none of them.
\<close>

definition same_incoming ::
  "('w \<Rightarrow> endpoint_id \<Rightarrow> connecting_id list)
   \<Rightarrow> ('w \<Rightarrow> connecting_id \<Rightarrow> quinn_ConnectionError + conn_id)
   \<Rightarrow> ('w \<Rightarrow> chan_id \<Rightarrow> (Connection \<times> ConnectionIncoming) list) \<Rightarrow> 'w \<Rightarrow> 'w \<Rightarrow> bool" where
  "same_incoming arrivals outcome accepted w w' \<longleftrightarrow>
     arrivals w' = arrivals w \<and> outcome w' = outcome w \<and> accepted w' = accepted w"

locale incoming_laws =
  fixes E :: "'w env"
    and arrivals :: "'w \<Rightarrow> endpoint_id \<Rightarrow> connecting_id list"
    and outcome :: "'w \<Rightarrow> connecting_id \<Rightarrow> quinn_ConnectionError + conn_id"
    and accepted :: "'w \<Rightarrow> chan_id \<Rightarrow> (Connection \<times> ConnectionIncoming) list"
  assumes next_incoming_end:
      "arrivals w ep = [] \<Longrightarrow> \<exists>w'. q_next_incoming E ep w = (None, w') \<and> accepted w' = accepted w"
    and next_incoming:
      "arrivals w ep = x # xs \<Longrightarrow>
       \<exists>w'. q_next_incoming E ep w = (Some x, w') \<and> arrivals w' ep = xs
         \<and> outcome w' = outcome w \<and> accepted w' = accepted w"
    and connecting_outcome:
      "\<exists>w'. q_connecting E x w = (outcome w x, w') \<and> same_incoming arrivals outcome accepted w w'"
    and watch_channel_incoming:
      "same_incoming arrivals outcome accepted w (snd (t_watch_channel E w))"
    and msg_channel_incoming:
      "same_incoming arrivals outcome accepted w (snd (t_msg_channel E n w))"
    and spawn_incoming: "same_incoming arrivals outcome accepted w (t_spawn E t w)"
    and conn_send_accepted:
      "t_conn_send E ch pair w = (res, w') \<Longrightarrow> arrivals w' = arrivals w \<and> outcome w' = outcome w
         \<and> accepted w' ch = accepted w ch @ (if res = Inr () then [pair] else [])"
begin

abbreviation same :: "'w \<Rightarrow> 'w \<Rightarrow> bool" where
  "same \<equiv> same_incoming arrivals outcome accepted"

lemma same_trans: "same w1 w2 \<Longrightarrow> same w2 w3 \<Longrightarrow> same w1 w3"
  by (simp add: same_incoming_def)

lemma ConnectionIncoming_new_incoming: "same w (snd (ConnectionIncoming_new E ep addr c alive w))"
proof -
  obtain ch w1 where ch: "t_msg_channel E INCOMING_MESSAGE_BUFFER_LEN w = (ch, w1)" by fastforce
  have "same w w1" using msg_channel_incoming [of w INCOMING_MESSAGE_BUFFER_LEN] by (simp add: ch)
  then show ?thesis
    unfolding ConnectionIncoming_new_def start_message_listeners_def ch prod.case snd_conv
    by (rule same_trans [OF same_trans [OF _ spawn_incoming] spawn_incoming])
qed

lemma Connection_new_incoming:
  assumes "Connection_new E ep rc c w = (pair, w')"
  shows "same w w'" and "conn_inner (fst pair) = c" and "default_retry_config (fst pair) = rc"
proof -
  obtain alive w1 where w1: "t_watch_channel E w = (alive, w1)" by fastforce
  have "same w w1" using watch_channel_incoming [of w] by (simp add: w1)
  with assms w1 ConnectionIncoming_new_incoming [of w1 ep "q_remote_address E c w1" c alive]
  show "same w w'" and "conn_inner (fst pair) = c" and "default_retry_config (fst pair) = rc"
    by (auto simp: Connection_new_def Let_def split: prod.splits intro: same_trans)
qed

text \<open>One round of the loop when an attempt arrives.\<close>

lemma accept_iteration_some:
  assumes "arrivals w ep = x # xs"
    and rx_open: "\<And>pair w. fst (t_conn_send E ch pair w) = Inr ()"
  obtains w' new where "accept_iteration E ep ch rc w = (True, w')" "arrivals w' ep = xs"
    "outcome w' = outcome w" "accepted w' ch = accepted w ch @ new"
    "map (\<lambda>p. (conn_inner (fst p), default_retry_config (fst p))) new =
       map (\<lambda>c. (c, Some rc)) (rights [outcome w x])"
proof -
  obtain w1 where w1: "q_next_incoming E ep w = (Some x, w1)" "arrivals w1 ep = xs"
    "outcome w1 = outcome w" "accepted w1 = accepted w"
    using next_incoming [OF assms(1)] by blast
  obtain w2 where w2: "q_connecting E x w1 = (outcome w x, w2)" "same w1 w2"
    using connecting_outcome [of x w1] w1(3) by auto
  show thesis
  proof (cases "outcome w x")
    case (Inl e)
    with w1 w2 that [of w2 "[]"] show ?thesis by (simp add: accept_iteration_def same_incoming_def)
  next
    case (Inr c)
    obtain pair w3 where w3: "Connection_new E ep (Some rc) c w2 = (pair, w3)" by fastforce
    obtain res w4 where w4: "t_conn_send E ch pair w3 = (res, w4)" by fastforce
    with rx_open [of pair w3] have "res = Inr ()" by simp
    with conn_send_accepted [OF w4] Connection_new_incoming [OF w3] w1 w2 w3 w4 Inr that [of w4 "[pair]"]
    show ?thesis by (simp add: accept_iteration_def same_incoming_def)
  qed
qed

text \<open>The loop ends when the endpoint does, having handed out what arrived.\<close>

lemma accept_loop_accepts:
  assumes "\<And>pair w. fst (t_conn_send E ch pair w) = Inr ()"
  shows "\<exists>w' new. accept_loop E ep ch rc w = Some w' \<and> accepted w' ch = accepted w ch @ new
           \<and> map (\<lambda>p. (conn_inner (fst p), default_retry_config (fst p))) new =
               map (\<lambda>c. (c, Some rc)) (rights (map (outcome w) (arrivals w ep)))"
proof (induction "arrivals w ep" arbitrary: w)
  case Nil
  then obtain w' where "q_next_incoming E ep w = (None, w')" "accepted w' = accepted w"
    using next_incoming_end [of w ep] by auto
  with Nil show ?case
    by (subst accept_loop.simps) (simp add: accept_iteration_def)
next
  case (Cons x xs)
  obtain w1 new where w1: "accept_iteration E ep ch rc w = (True, w1)" "arrivals w1 ep = xs"
    "outcome w1 = outcome w" "accepted w1 ch = accepted w ch @ new"
    "map (\<lambda>p. (conn_inner (fst p), default_retry_config (fst p))) new =
       map (\<lambda>c. (c, Some rc)) (rights [outcome w x])"
    by (rule accept_iteration_some [OF Cons(2) [symmetric] assms])
  from Cons(1) [of w1] w1(2) obtain w' new' where w': "accept_loop E ep ch rc w1 = Some w'"
    "accepted w' ch = accepted w1 ch @ new'"
    "map (\<lambda>p. (conn_inner (fst p), default_retry_config (fst p))) new' =
       map (\<lambda>c. (c, Some rc)) (rights (map (outcome w) xs))"
    by (auto simp: w1(3))
  have "rights (map (outcome w) (arrivals w ep)) = rights [outcome w x] @ rights (map (outcome w) xs)"
    by (simp add: Cons(2) [symmetric]) (cases "outcome w x"; simp)
  with w1 w' show ?case
    by (subst accept_loop.simps) (intro exI [of _ w'] exI [of _ "new @ new'"], simp)
qed

end

interpretation net_incoming: incoming_laws net_env n_arrivals n_dialling n_accepted
  by unfold_locales
    (auto simp: same_incoming_def pop_def net_connecting_def net_fresh_def net_msg_channel_def)

section \<open>Property\<close>

text \<open>
  C12. While the application holds the receiver of incoming connections, the accept loop
  hands it every connection whose handshake succeeds, in the order of arrival and with the
  endpoint's retry settings; an attempt whose handshake fails is skipped and does not end the
  loop; and the loop ends when the endpoint accepts no more.
\<close>

theorem accepted_in_order:
  assumes "incoming_laws E arrivals outcome accepted"
    and "\<And>pair w. fst (t_conn_send E ch pair w) = Inr ()"
  shows "\<exists>w' new. accept_loop E ep ch rc w = Some w' \<and> accepted w' ch = accepted w ch @ new
           \<and> map (\<lambda>p. (conn_inner (fst p), default_retry_config (fst p))) new =
               map (\<lambda>c. (c, Some rc)) (rights (map (outcome w) (arrivals w ep)))"
  by (rule incoming_laws.accept_loop_accepts [OF assms])

theorem accepted_in_order_witness:
  "\<exists>w' new. accept_loop net_env 1 2 RetryConfig_default
       (net_init\<lparr>n_arrivals := (\<lambda>ep. [5, 6, 7]),
                n_dialling := (\<lambda>i. if i = 6 then Inl Q_TimedOut else Inr (i + 20))\<rparr>) = Some w'
     \<and> n_accepted w' 2 = new
     \<and> map (\<lambda>p. (conn_inner (fst p), default_retry_config (fst p))) new =
         [(25, Some RetryConfig_default), (27, Some RetryConfig_default)]"
proof -
  have "n_accepted net_init 2 = []" by (simp add: net_init_def)
  then show ?thesis
    using accepted_in_order [OF net_incoming.incoming_laws_axioms, of 2 1 RetryConfig_default
        "net_init\<lparr>n_arrivals := (\<lambda>ep. [5, 6, 7]),
                  n_dialling := (\<lambda>i. if i = 6 then Inl Q_TimedOut else Inr (i + 20))\<rparr>"]
    by simp
qed

end
