(* ===== verification/Endpoint_Props.thy ===== *)
theory Endpoint_Props
  imports Connection_Props Igd_Props Accepting
begin

text \<open>
  Endpoints: what a connection that was established is, which connection bootstrapping
  chooses, how the public address is decided and checked, and the outcomes of the RPCs.
\<close>

section \<open>Connecting\<close>

context connection_laws
begin

text \<open>A connection and its receiving half share an \<open>alive\<close> channel; the message channel is new.\<close>

lemma Connection_new_halves:
  assumes "Connection_new E ep rc c w = ((conn, inc), w')"
  shows "conn_inner conn = c" "default_retry_config conn = rc"
    "conn_alive_tx conn = incoming_alive_tx inc" "message_rx inc \<notin> g_live_ch G w"
    "g_log G w' (message_rx inc) = []" "g_rx_open G w' (message_rx inc)" "unchanged G {} {} {} w w'"
proof -
  obtain alive w1 where w1: "t_watch_channel E w = (alive, w1)" by fastforce
  note u = keepsD [OF watch_channel_keeps w1]
  from assms w1 have new: "ConnectionIncoming_new E ep (q_remote_address E c w1) c alive w1 = (inc, w')"
    and conn: "conn = \<lparr>conn_inner = c, default_retry_config = rc, conn_alive_tx = alive\<rparr>"
    by (auto simp: Connection_new_def Let_def split: prod.splits)
  from new have "incoming_alive_tx inc = alive"
    by (auto simp: ConnectionIncoming_new_def split: prod.splits)
  with conn show "conn_inner conn = c" "default_retry_config conn = rc"
    "conn_alive_tx conn = incoming_alive_tx inc" by simp_all
  show "message_rx inc \<notin> g_live_ch G w" "g_log G w' (message_rx inc) = []"
    "g_rx_open G w' (message_rx inc)" "unchanged G {} {} {} w w'"
    using ConnectionIncoming_new_channel [OF new] unchangedD(9) [OF u] unchanged_trans [OF u] by auto
qed

lemma Connection_new_keeps: "keeps G {} {} {} (io_lift (Connection_new E ep rc c))"
proof (rule keepsI)
  fix w res w'
  assume "io_lift (Connection_new E ep rc c) w = (res, w')"
  then show "unchanged G {} {} {} w w'"
    using Connection_new_halves(7) [of ep rc c w] by (auto simp: io_lift_eq)
qed

lemma connect_attempt_keeps: "keeps G {} {} {} (connect_attempt E self addr)"
  unfolding connect_attempt_def
  by (intro keeps_intros connect_keeps connecting_keeps Connection_new_keeps)

lemma new_connection_attempt:
  assumes "new_connection E self addr w = (res, w')"
  obtains w1 where "unchanged G {} {} {} w w1"
    "case res of Inr x \<Rightarrow> connect_attempt E self addr w1 = (Inr x, w')
     | Inl e \<Rightarrow> connect_attempt E self addr w1 = (Inl (Transient e), w')"
proof -
  let ?op = "connect_attempt E self addr"
  have "retry_run (unchanged G {} {} {}) ?op w (res, w')"
    using retry_connect [of ?op w "RetryConfig_backoff (ep_retry_config self)"] assms
    by (simp add: new_connection_def RetryConfig_retry_def)
  from retry_run_last [OF this connect_attempt_keeps] obtain w1 where "unchanged G {} {} {} w w1"
    "case res of Inr x \<Rightarrow> ?op w1 = (Inr x, w')
     | Inl e \<Rightarrow> ?op w1 = (Inl (Permanent e), w') \<or> ?op w1 = (Inl (Transient e), w')"
    by auto
  moreover have "?op w1 \<noteq> (Inl (Permanent e), w')" for e
    by (auto simp: connect_attempt_def io_inv)
  ultimately show thesis using that by (cases res) auto
qed

lemma new_connection_ok:
  assumes "new_connection E self addr w = (Inr (conn, inc), w')"
  shows "\<exists>w1 w2 w3 connecting. unchanged G {} {} {} w w1
           \<and> q_connect E (quinn_endpoint self) addr SERVER_NAME w1 = (Inr connecting, w2)
           \<and> q_connecting E connecting w2 = (Inr (conn_inner conn), w3)
           \<and> default_retry_config conn = Some (ep_retry_config self)
           \<and> conn_alive_tx conn = incoming_alive_tx inc
           \<and> message_rx inc \<notin> g_live_ch G w
           \<and> g_log G w' (message_rx inc) = [] \<and> g_rx_open G w' (message_rx inc)
           \<and> unchanged G {} {} {} w w'"
proof -
  obtain w1 where w1: "unchanged G {} {} {} w w1" "connect_attempt E self addr w1 = (Inr (conn, inc), w')"
    using new_connection_attempt [OF assms] by auto
  then obtain connecting w2 c w3 where run:
    "q_connect E (quinn_endpoint self) addr SERVER_NAME w1 = (Inr connecting, w2)"
    "q_connecting E connecting w2 = (Inr c, w3)"
    "Connection_new E (quinn_endpoint self) (Some (ep_retry_config self)) c w3 = ((conn, inc), w')"
    by (auto simp: connect_attempt_def io_inv)
  have u: "unchanged G {} {} {} w w3"
    using unchanged_trans [OF w1(1) unchanged_trans [OF keepsD [OF connect_keeps run(1)]
          keepsD [OF connecting_keeps run(2)]]] .
  note halves = Connection_new_halves [OF run(3)]
  from halves(4) unchangedD(9) [OF u] have "message_rx inc \<notin> g_live_ch G w" by blast
  moreover have "unchanged G {} {} {} w w'" using u halves(7) by (rule unchanged_trans)
  ultimately show ?thesis using w1(1) run(1,2) halves(1,2,3,5,6)
    by (intro exI [of _ w1] exI [of _ w2] exI [of _ w3] exI [of _ connecting]) simp
qed

lemma new_connection_err:
  assumes "new_connection E self addr w = (Inl e, w')"
  shows "\<exists>w1. unchanged G {} {} {} w w1 \<and>
           ((\<exists>error. q_connect E (quinn_endpoint self) addr SERVER_NAME w1 = (Inl error, w')
                    \<and> e = ConnectionError_from_connect error)
            \<or> (\<exists>connecting w2 error.
                  q_connect E (quinn_endpoint self) addr SERVER_NAME w1 = (Inr connecting, w2)
                  \<and> q_connecting E connecting w2 = (Inl error, w')
                  \<and> e = ConnectionError_from_quinn error))"
proof -
  obtain w1 where "unchanged G {} {} {} w w1" "connect_attempt E self addr w1 = (Inl (Transient e), w')"
    using new_connection_attempt [OF assms] by auto
  then show ?thesis by (intro exI [of _ w1]) (auto simp: connect_attempt_def io_inv)
qed

end

text \<open>
  C21. A connection that \<open>connect_to\<close> returns is one that the transport established to
  the given address under the fixed server name, in a state that only earlier attempts and
  pauses separate from the start. It carries the endpoint's retry settings, shares its
  \<open>alive\<close> channel with its receiving half, and that half has a new channel, open and empty.
\<close>

theorem connect_to_establishes:
  assumes "connection_laws E G" and "connect_to E self addr w = (Inr (conn, inc), w')"
  shows "\<exists>w1 w2 w3 connecting. unchanged G {} {} {} w w1
           \<and> q_connect E (quinn_endpoint self) addr SERVER_NAME w1 = (Inr connecting, w2)
           \<and> q_connecting E connecting w2 = (Inr (conn_inner conn), w3)
           \<and> default_retry_config conn = Some (ep_retry_config self)
           \<and> conn_alive_tx conn = incoming_alive_tx inc
           \<and> message_rx inc \<notin> g_live_ch G w
           \<and> g_log G w' (message_rx inc) = [] \<and> g_rx_open G w' (message_rx inc)
           \<and> unchanged G {} {} {} w w'"
  using connection_laws.new_connection_ok [OF assms(1), of self addr w conn inc w'] assms(2)
  by (simp add: connect_to_def)

definition some_endpoint :: Endpoint where
  "some_endpoint = \<lparr>ep_local_addr = V4 (Ipv4 192 168 0 7) 4000, ep_public_addr = None,
     quinn_endpoint = 1, ep_retry_config = RetryConfig_default, termination_tx = 3\<rparr>"

definition peer_a :: SocketAddr where "peer_a = V4 (Ipv4 10 0 0 1) 5001"

definition peer_b :: SocketAddr where "peer_b = V4 (Ipv4 10 0 0 2) 5002"

text \<open>A network in which only \<open>peer_b\<close> answers, with connection 5.\<close>

definition dial_world :: net where
  "dial_world = net_init\<lparr>n_dial := (\<lambda>a. if a = peer_b then Inr (Inr 5) else Inr (Inl Q_TimedOut))\<rparr>"

lemma connect_attempt_b:
  assumes "n_dial w peer_b = Inr (Inr 5)"
  shows "\<exists>w'. connect_attempt net_env some_endpoint peer_b w =
     (Inr (\<lparr>conn_inner = 5, default_retry_config = Some RetryConfig_default, conn_alive_tx = Suc (n_next w)\<rparr>,
           \<lparr>message_rx = Suc (Suc (n_next w)), incoming_alive_tx = Suc (n_next w)\<rparr>), w')"
  using assms
  by (simp add: connect_attempt_def some_endpoint_def io_bind_def io_map_err_def io_lift_def
      net_connect_def net_connecting_def Connection_new_def ConnectionIncoming_new_def
      net_fresh_def net_msg_channel_def)

lemma new_connection_b:
  assumes "n_dial w peer_b = Inr (Inr 5)"
  shows "\<exists>w'. new_connection net_env some_endpoint peer_b w =
     (Inr (\<lparr>conn_inner = 5, default_retry_config = Some RetryConfig_default, conn_alive_tx = Suc (n_next w)\<rparr>,
           \<lparr>message_rx = Suc (Suc (n_next w)), incoming_alive_tx = Suc (n_next w)\<rparr>), w')"
  using connect_attempt_b [OF assms]
  by (auto simp: new_connection_def RetryConfig_retry_def retry_upto_success)

theorem connect_to_establishes_witness:
  "\<exists>conn inc w'. connect_to net_env some_endpoint peer_b dial_world = (Inr (conn, inc), w')
     \<and> conn_inner conn = 5 \<and> n_log w' (message_rx inc) = []
     \<and> (\<exists>w2 w3 connecting. q_connecting net_env connecting w2 = (Inr 5, w3))"
proof -
  have "n_dial dial_world peer_b = Inr (Inr 5)" by (simp add: dial_world_def)
  from new_connection_b [OF this] obtain conn inc w'
    where run: "connect_to net_env some_endpoint peer_b dial_world = (Inr (conn, inc), w')"
      and "conn_inner conn = 5"
    by (auto simp: connect_to_def)
  with connect_to_establishes [OF net_connection.connection_laws_axioms run] show ?thesis by auto
qed

text \<open>
  When \<open>connect_to\<close> fails, its error is the translation of the error with which the
  transport refused or lost the last attempt, in a state that only earlier attempts and
  pauses separate from the start.
\<close>

theorem connect_to_last_error:
  assumes "connection_laws E G" and "connect_to E self addr w = (Inl e, w')"
  shows "\<exists>w1. unchanged G {} {} {} w w1 \<and>
           ((\<exists>error. q_connect E (quinn_endpoint self) addr SERVER_NAME w1 = (Inl error, w')
                    \<and> e = ConnectionError_from_connect error)
            \<or> (\<exists>connecting w2 error.
                  q_connect E (quinn_endpoint self) addr SERVER_NAME w1 = (Inr connecting, w2)
                  \<and> q_connecting E connecting w2 = (Inl error, w')
                  \<and> e = ConnectionError_from_quinn error))"
  using connection_laws.new_connection_err [OF assms(1), of self addr w e w'] assms(2)
  by (simp add: connect_to_def)

text \<open>An address that cannot be dialled.\<close>

definition no_route :: net where
  "no_route = net_init\<lparr>n_dial := (\<lambda>a. Inl (Q_InvalidRemoteAddress a))\<rparr>"

lemma retry_upto_same:
  "op w = (Inl (Transient e), w) \<Longrightarrow> retry_upto n op w = (Inl e, w)"
  by (induction n) simp_all

lemma connect_to_no_route:
  "connect_to net_env some_endpoint peer_a no_route =
     (Inl (ConnectionError_from_connect (Q_InvalidRemoteAddress peer_a)), no_route)"
proof -
  have "connect_attempt net_env some_endpoint peer_a no_route =
      (Inl (Transient (ConnectionError_from_connect (Q_InvalidRemoteAddress peer_a))), no_route)"
    by (simp add: connect_attempt_def io_bind_def io_map_err_def net_connect_def no_route_def)
  then show ?thesis
    by (simp add: connect_to_def new_connection_def RetryConfig_retry_def retry_upto_same)
qed

theorem connect_to_last_error_witness:
  "connect_to net_env some_endpoint peer_a no_route =
     (Inl (ConnectionError_from_connect (Q_InvalidRemoteAddress peer_a)), no_route)
   \<and> (\<exists>w1. unchanged net_ghost {} {} {} no_route w1 \<and>
        ((\<exists>error. q_connect net_env (quinn_endpoint some_endpoint) peer_a SERVER_NAME w1 = (Inl error, no_route)
            \<and> ConnectionError_from_connect (Q_InvalidRemoteAddress peer_a) = ConnectionError_from_connect error)
         \<or> (\<exists>connecting w2 error.
              q_connect net_env (quinn_endpoint some_endpoint) peer_a SERVER_NAME w1 = (Inr connecting, w2)
              \<and> q_connecting net_env connecting w2 = (Inl error, no_route)
              \<and> ConnectionError_from_connect (Q_InvalidRemoteAddress peer_a) = ConnectionError_from_quinn error)))"
  using connect_to_no_route
    connect_to_last_error [OF net_connection.connection_laws_axioms connect_to_no_route] by blast

section \<open>The public address\<close>

text \<open>
  C22. The address an endpoint decides to be reachable at: the configured IP address, else
  the one its contact sees, else the local one, and the same for the port, each decided on
  its own. The address returned is the one recorded in the endpoint, nothing else of the
  endpoint changes, and the contact is asked exactly once, if there is one.
\<close>

theorem resolved_address:
  assumes "resolve_public_addr E self ip port contact w = (Inr (addr, self'), w')"
  shows "\<exists>visible. query_visible_addr E self contact w = (Inr visible, w')
           \<and> (visible = None \<longleftrightarrow> contact = None)
           \<and> sa_ip addr = (case ip of Some i \<Rightarrow> i
                | None \<Rightarrow> (case visible of Some v \<Rightarrow> sa_ip v | None \<Rightarrow> sa_ip (Endpoint_local_addr self)))
           \<and> sa_port addr = (case port of Some p \<Rightarrow> p
                | None \<Rightarrow> (case visible of Some v \<Rightarrow> sa_port v | None \<Rightarrow> sa_port (Endpoint_local_addr self)))
           \<and> self' = self\<lparr>ep_public_addr := Some addr\<rparr> \<and> Endpoint_public_addr self' = addr"
proof -
  from assms obtain visible w1 where v: "query_visible_addr E self contact w = (Inr visible, w1)"
    and "w1 = w'" by (auto simp: resolve_public_addr_def Let_def io_inv)
  moreover from v have "visible = None \<longleftrightarrow> contact = None"
    by (cases contact) (auto simp: query_visible_addr_def io_match_def split: prod.splits sum.splits)
  ultimately show ?thesis using assms
    by (auto simp: resolve_public_addr_def Let_def Endpoint_local_addr_def Endpoint_public_addr_def
        split: option.splits)
qed

theorem resolved_address_witness:
  "resolve_public_addr net_env some_endpoint (Some (IpV4 (Ipv4 8 8 8 8))) None None net_init =
     (Inr (V4 (Ipv4 8 8 8 8) 4000, some_endpoint\<lparr>ep_public_addr := Some (V4 (Ipv4 8 8 8 8) 4000)\<rparr>), net_init)
   \<and> sa_ip (V4 (Ipv4 8 8 8 8) 4000) = IpV4 (Ipv4 8 8 8 8)"
proof
  show run: "resolve_public_addr net_env some_endpoint (Some (IpV4 (Ipv4 8 8 8 8))) None None net_init =
     (Inr (V4 (Ipv4 8 8 8 8) 4000, some_endpoint\<lparr>ep_public_addr := Some (V4 (Ipv4 8 8 8 8) 4000)\<rparr>), net_init)"
    by (simp add: resolve_public_addr_def query_visible_addr_def some_endpoint_def Let_def io_bind_def)
  from resolved_address [OF run] show "sa_ip (V4 (Ipv4 8 8 8 8) 4000) = IpV4 (Ipv4 8 8 8 8)" by auto
qed

end
