(* ===== verification/Peer_Props.thy ===== *)
theory Peer_Props
  imports Endpoint_Props
begin

text \<open>
  Creating peers, and the RPCs between peers: what a peer that was created has had verified,
  when creating it fails, and exactly when the RPCs succeed.
\<close>

section \<open>Peers\<close>

text \<open>The steps of a \<open>new_peer\<close> that succeeds.\<close>

lemma new_peer_steps:
  assumes "new_peer E T local_addr contacts cfg w = (Inr (ep, conns, contact), w')"
  obtains config ep0 w1 w2 w3 w4 w5 where
    "try_from_config T cfg = Some (Inr config)"
    "bind_peer E local_addr config w = (Inr ep0, w1)"
    "connect_to_any E ep0 contacts w1 = (contact, w2)"
    "resolve_public_addr E ep0 (ic_external_ip config) (ic_external_port config)
       (map_option fst contact) w2 = (Inr (Endpoint_public_addr ep, ep), w3)"
    "forward_if_configured E ep config (Endpoint_public_addr ep) w3 = (Inr (), w4)"
    "t_conn_channel E STANDARD_CHANNEL_SIZE w4 = (conns, w5)"
    "check_reachable E ep (map_option fst contact) (Endpoint_public_addr ep)
       (listen_for_incoming_connections E (quinn_endpoint ep) conns (ep_retry_config ep) w5) = (Inr (), w')"
proof -
  from assms obtain config where config: "try_from_config T cfg = Some (Inr config)"
    by (auto simp: new_peer_def checked_config_def io_inv split: option.splits sum.splits)
  from assms obtain ep0 w1 w2 addr ep1 w3 w4 w5 where steps:
    "bind_peer E local_addr config w = (Inr ep0, w1)"
    "connect_to_any E ep0 contacts w1 = (contact, w2)"
    "resolve_public_addr E ep0 (ic_external_ip config) (ic_external_port config)
       (map_option fst contact) w2 = (Inr (addr, ep1), w3)"
    "ep = ep1\<lparr>ep_public_addr := Some addr\<rparr>"
    "forward_if_configured E ep config addr w3 = (Inr (), w4)"
    "t_conn_channel E STANDARD_CHANNEL_SIZE w4 = (conns, w5)"
    "check_reachable E ep (map_option fst contact) addr
       (listen_for_incoming_connections E (quinn_endpoint ep) conns (ep_retry_config ep) w5) = (Inr (), w')"
    by (auto simp: new_peer_def config checked_config_def io_inv io_do_def Let_def)
  from steps(3) have "ep1 = ep0\<lparr>ep_public_addr := Some addr\<rparr>"
    by (auto simp: resolve_public_addr_def io_inv Let_def)
  with steps(4) have "ep1 = ep" "addr = Endpoint_public_addr ep"
    by (simp_all add: Endpoint_public_addr_def)
  note same = this
  show thesis
    by (rule that [OF config steps(1,2)]) (use steps(3,5-7) same in simp_all)
qed

lemma resolve_fields:
  assumes "resolve_public_addr E self ip port contact w = (Inr (addr, self'), w')"
  shows "quinn_endpoint self' = quinn_endpoint self" "ep_retry_config self' = ep_retry_config self"
    "ep_local_addr self' = ep_local_addr self"
  using assms by (auto simp: resolve_public_addr_def io_inv Let_def)

lemma new_connection_cong:
  "quinn_endpoint self = quinn_endpoint self' \<Longrightarrow> ep_retry_config self = ep_retry_config self' \<Longrightarrow>
   new_connection E self = new_connection E self'"
  by (rule ext) (simp add: new_connection_def connect_attempt_def)

text \<open>
  C8. A peer that was created with a contact has been checked: the contact is one of the
  given addresses to which a connection was established, and as the last step, with the task
  that accepts connections already running, it confirmed that exactly the public address the
  endpoint has is reachable.
\<close>

theorem new_peer_verified:
  assumes "select_laws E"
    and "new_peer E T local_addr contacts cfg w = (Inr (ep, conns, Some (c, inc)), w')"
  shows "(\<exists>w1. endpoint_verification E ep c (Endpoint_public_addr ep)
            (listen_for_incoming_connections E (quinn_endpoint ep) conns (ep_retry_config ep) w1)
              = (Inr True, w'))
         \<and> (\<exists>addr \<in> set contacts. \<exists>w1 w2. connect_to E ep addr w1 = (Inr (c, inc), w2))"
proof
  obtain config ep0 w1 w2 w3 w4 w5 where "try_from_config T cfg = Some (Inr config)"
    "bind_peer E local_addr config w = (Inr ep0, w1)" and
    steps: "connect_to_any E ep0 contacts w1 = (Some (c, inc), w2)"
    "resolve_public_addr E ep0 (ic_external_ip config) (ic_external_port config)
       (map_option fst (Some (c, inc))) w2 = (Inr (Endpoint_public_addr ep, ep), w3)"
    "forward_if_configured E ep config (Endpoint_public_addr ep) w3 = (Inr (), w4)"
    "t_conn_channel E STANDARD_CHANNEL_SIZE w4 = (conns, w5)"
    "check_reachable E ep (map_option fst (Some (c, inc))) (Endpoint_public_addr ep)
       (listen_for_incoming_connections E (quinn_endpoint ep) conns (ep_retry_config ep) w5) = (Inr (), w')"
    by (rule new_peer_steps [OF assms(2)])
  from steps(5) show "\<exists>w1. endpoint_verification E ep c (Endpoint_public_addr ep)
      (listen_for_incoming_connections E (quinn_endpoint ep) conns (ep_retry_config ep) w1) = (Inr True, w')"
    by (auto simp: check_reachable_def io_match_def split: prod.splits sum.splits if_splits)
  from steps(1) have ne: "contacts \<noteq> []" by (auto simp: connect_to_any_def)
  with steps(1) have "f_select_ok E (map (new_connection E ep0) contacts) w1 = (Inr (c, inc), w2)"
    by (auto simp: connect_to_any_def split: prod.splits sum.splits)
  from select_laws.select_ok [OF assms(1) _ this] ne
  obtain addr v v' where "addr \<in> set contacts" "new_connection E ep0 addr v = (Inr (c, inc), v')"
    by auto
  moreover have "new_connection E ep0 = new_connection E ep"
    by (rule new_connection_cong) (simp_all add: resolve_fields [OF steps(2)])
  ultimately show "\<exists>addr \<in> set contacts. \<exists>w1 w2. connect_to E ep addr w1 = (Inr (c, inc), w2)"
    by (auto simp: connect_to_def)
qed

lemma try_from_config_external:
  assumes "try_from_config T cfg = Some (Inr config)"
  shows "ic_external_ip config = cfg_external_ip cfg" "ic_external_port config = cfg_external_port cfg"
    "ic_retry_config config = cfg_retry_config cfg"
  using assms
  by (auto simp: try_from_config_def Let_def split: sum.splits option.splits prod.splits)

text \<open>How the public address of a peer without contacts comes about.\<close>

lemma new_peer_alone:
  assumes "new_peer E T local_addr [] cfg w = (Inr (ep, conns, contact), w')"
  obtains config ep0 w1 where "contact = None" "bind_peer E local_addr config w = (Inr ep0, w1)"
    "Endpoint_local_addr ep = Endpoint_local_addr ep0"
    "Endpoint_public_addr ep =
       (let addr = (case cfg_external_ip cfg of Some ip \<Rightarrow> set_ip ip (Endpoint_local_addr ep) | None \<Rightarrow> Endpoint_local_addr ep)
        in case cfg_external_port cfg of Some p \<Rightarrow> set_port p addr | None \<Rightarrow> addr)"
proof -
  obtain config ep0 w1 w2 w3 w4 w5 where steps: "try_from_config T cfg = Some (Inr config)"
    "bind_peer E local_addr config w = (Inr ep0, w1)" "connect_to_any E ep0 [] w1 = (contact, w2)"
    "resolve_public_addr E ep0 (ic_external_ip config) (ic_external_port config)
       (map_option fst contact) w2 = (Inr (Endpoint_public_addr ep, ep), w3)"
    "forward_if_configured E ep config (Endpoint_public_addr ep) w3 = (Inr (), w4)"
    "t_conn_channel E STANDARD_CHANNEL_SIZE w4 = (conns, w5)"
    "check_reachable E ep (map_option fst contact) (Endpoint_public_addr ep)
       (listen_for_incoming_connections E (quinn_endpoint ep) conns (ep_retry_config ep) w5) = (Inr (), w')"
    by (rule new_peer_steps [OF assms])
  from steps(3) have none: "contact = None" by (simp add: connect_to_any_def)
  with steps(4) resolve_fields(3) [OF steps(4)] show thesis
    by (intro that [OF none steps(2)])
      (auto simp: resolve_public_addr_def query_visible_addr_def try_from_config_external [OF steps(1)]
        Endpoint_local_addr_def Let_def split: option.splits)
qed

text \<open>
  Without contacts nothing is verified: the peer is created with no contact, and its
  public address is the configured IP address and port, each replaced by that of the local
  address where it is not configured.
\<close>

theorem new_peer_without_contacts:
  assumes "new_peer E T local_addr [] cfg w = (Inr (ep, conns, contact), w')"
  shows "contact = None
         \<and> sa_ip (Endpoint_public_addr ep) =
             (case cfg_external_ip cfg of Some ip \<Rightarrow> ip | None \<Rightarrow> sa_ip (Endpoint_local_addr ep))
         \<and> sa_port (Endpoint_public_addr ep) =
             (case cfg_external_port cfg of Some p \<Rightarrow> p | None \<Rightarrow> sa_port (Endpoint_local_addr ep))
         \<and> (cfg_external_ip cfg = None \<longrightarrow> cfg_external_port cfg = None \<longrightarrow>
              Endpoint_public_addr ep = Endpoint_local_addr ep)"
  by (rule new_peer_alone [OF assms]) (auto simp: Let_def split: option.splits)

section \<open>The RPCs\<close>

text \<open>An exchange that the transport carries through: a new stream, the request, and a reply in time.\<close>

definition exchange ::
  "'w env \<Rightarrow> Connection \<Rightarrow> WireMsg \<Rightarrow> 'w \<Rightarrow> WireMsg option \<Rightarrow> 'w \<Rightarrow> bool" where
  "exchange E c request w reply w' \<longleftrightarrow>
     (\<exists>s r w1 w2. open_bi E c w = (Inr (s, r), w1) \<and> send_wire_msg E s request w1 = (Inr (), w2)
        \<and> \<not> t_expired E ECHO_SERVICE_QUERY_TIMEOUT w2 \<and> next_wire_msg E r w2 = (Inr reply, w'))"

lemma endpoint_echo_exchange:
  "exchange E c EndpointEchoReq w reply w' \<Longrightarrow>
   endpoint_echo E self c w =
     ((case reply of Some (EndpointEchoResp addr) \<Rightarrow> Inr addr
       | msg \<Rightarrow> Inl (RpcError.Recv (RecvError.Serialization (SerializationError_unexpected msg)))), w')"
  unfolding exchange_def
  by (elim exE conjE)
    (simp add: endpoint_echo_def await_reply_def with_timeout_def split: option.split WireMsg.split)

lemma endpoint_verification_exchange:
  "exchange E c (EndpointVerificationReq addr) w reply w' \<Longrightarrow>
   endpoint_verification E self c addr w =
     ((case reply of Some (EndpointVerificationResp valid) \<Rightarrow> Inr valid
       | msg \<Rightarrow> Inl (RpcError.Recv (RecvError.Serialization (SerializationError_unexpected msg)))), w')"
  unfolding exchange_def
  by (elim exE conjE)
    (simp add: endpoint_verification_def await_reply_def with_timeout_def split: option.split WireMsg.split)

lemma is_reachable_exchange:
  "new_connection E self addr w = (Inr (c, inc), w1) \<Longrightarrow> exchange E c EndpointEchoReq w1 reply w' \<Longrightarrow>
   is_reachable E self addr w = (Inr (), w')"
  unfolding exchange_def
  by (elim exE conjE)
    (simp add: is_reachable_def await_reply_def with_timeout_def split: option.split WireMsg.split)

text \<open>A run with a contact that sees the address 10.0.0.2:7000 and gives its verdict on it.\<close>

definition echo_reply :: bytes where
  "echo_reply = [0, 1, 0, 0, 0, 14, 1, 0, 0, 1, 0, 0, 0, 0, 0, 0, 0, 10, 0, 0, 2, 88, 27]"

definition verdict_reply :: "bool \<Rightarrow> bytes" where
  "verdict_reply valid = [0, 1, 0, 0, 0, 5, 1, 0, 0, 3, 0, 0, 0, if valid then 1 else 0]"

lemmas net_read_defs = read_from_stream_def net_read_def net_read_exact_def MSG_HEADER_LEN_def
  read_header_rest_def fill_def MsgHeader_from_bytes_def u32_from_be_bytes_def decode_payload_def
  USER_MSG_FLAG_def ECHO_SRVC_MSG_FLAG_def Let_def

lemma net_read_echo_reply:
  "n_rx w r = ([echo_reply], Finished) \<Longrightarrow> read_from_stream net_env r w =
     (Inr (Some (EndpointEchoResp (V4 (Ipv4 10 0 0 2) 7000))), w\<lparr>n_rx := (n_rx w)(r := ([[]], Finished))\<rparr>)"
  by (simp add: net_read_defs echo_reply_def decode_echo_resp)

lemma net_read_verdict:
  "n_rx w r = ([verdict_reply valid], Finished) \<Longrightarrow> read_from_stream net_env r w =
     (Inr (Some (EndpointVerificationResp valid)), w\<lparr>n_rx := (n_rx w)(r := ([[]], Finished))\<rparr>)"
  by (simp add: net_read_defs verdict_reply_def bc_deserialize_def bc_body_def)

lemma net_write_request:
  assumes "n_tx_limit w s = None" and "m = EndpointEchoReq \<or> m = EndpointVerificationReq addr"
  shows "\<exists>tx. write_to_stream net_env m s w = (Inr (), w\<lparr>n_tx := tx\<rparr>)"
proof -
  have "length (bc_addr addr) < 100"
  proof (cases addr)
    case (V4 ip port)
    then show ?thesis by (cases ip) simp
  next
    case (V6 ip port flow scope)
    then show ?thesis by (cases ip) simp
  qed
  with assms show ?thesis
    by (auto simp: write_to_stream_def MsgHeader_new_def net_write_all_def Let_def)
qed

text \<open>A connection over which a stream can be opened that answers with the given bytes.\<close>

definition rpc_ready :: "net \<Rightarrow> conn_id \<Rightarrow> bytes \<Rightarrow> bool" where
  "rpc_ready w c reply \<longleftrightarrow> n_lost w c = None \<and> n_tx_limit w = (\<lambda>s. None) \<and> \<not> n_slow w
     \<and> n_reply w c (n_next w) = ([reply], Finished)"

lemma net_echo:
  assumes "rpc_ready w (conn_inner c) echo_reply"
  shows "\<exists>rx tx. endpoint_echo net_env self c w =
    (Inr (V4 (Ipv4 10 0 0 2) 7000), w\<lparr>n_rx := rx, n_tx := tx, n_next := Suc (n_next w)\<rparr>)"
proof -
  let ?s = "n_next w"
  let ?w1 = "w\<lparr>n_tx := (n_tx w)(?s := []), n_rx := (n_rx w)(?s := ([echo_reply], Finished)), n_next := Suc ?s\<rparr>"
  from assms have 1: "open_bi net_env c w = (Inr (?s, ?s), ?w1)" and ready: "n_tx_limit w ?s = None" "\<not> n_slow w"
    by (simp_all add: rpc_ready_def open_bi_def net_open_bi_def)
  obtain tx where 2: "write_to_stream net_env EndpointEchoReq ?s ?w1 = (Inr (), ?w1\<lparr>n_tx := tx\<rparr>)"
    using net_write_request [of ?w1 ?s EndpointEchoReq] ready(1) by auto
  have 3: "read_from_stream net_env ?s (?w1\<lparr>n_tx := tx\<rparr>) =
      (Inr (Some (EndpointEchoResp (V4 (Ipv4 10 0 0 2) 7000))),
       ?w1\<lparr>n_tx := tx, n_rx := (n_rx ?w1)(?s := ([[]], Finished))\<rparr>)"
    by (simp add: net_read_echo_reply)
  from 1 2 3 ready(2) have "exchange net_env c EndpointEchoReq w
      (Some (EndpointEchoResp (V4 (Ipv4 10 0 0 2) 7000)))
      (?w1\<lparr>n_tx := tx, n_rx := (n_rx ?w1)(?s := ([[]], Finished))\<rparr>)"
    unfolding exchange_def send_wire_msg_def next_wire_msg_def
    by (intro exI [of _ ?s] exI [of _ ?w1] exI [of _ "?w1\<lparr>n_tx := tx\<rparr>"] conjI) simp_all
  from endpoint_echo_exchange [OF this] show ?thesis
    by (intro exI [of _ "(n_rx ?w1)(?s := ([[]], Finished))"] exI [of _ tx]) simp
qed

lemma net_verification:
  assumes "rpc_ready w (conn_inner c) (verdict_reply valid)"
  shows "\<exists>w'. endpoint_verification net_env self c addr w = (Inr valid, w')"
proof -
  let ?s = "n_next w"
  let ?w1 = "w\<lparr>n_tx := (n_tx w)(?s := []), n_rx := (n_rx w)(?s := ([verdict_reply valid], Finished)), n_next := Suc ?s\<rparr>"
  from assms have 1: "open_bi net_env c w = (Inr (?s, ?s), ?w1)" and ready: "n_tx_limit w ?s = None" "\<not> n_slow w"
    by (simp_all add: rpc_ready_def open_bi_def net_open_bi_def)
  obtain tx where 2: "write_to_stream net_env (EndpointVerificationReq addr) ?s ?w1 = (Inr (), ?w1\<lparr>n_tx := tx\<rparr>)"
    using net_write_request [of ?w1 ?s "EndpointVerificationReq addr"] ready(1) by auto
  have 3: "read_from_stream net_env ?s (?w1\<lparr>n_tx := tx\<rparr>) =
      (Inr (Some (EndpointVerificationResp valid)),
       ?w1\<lparr>n_tx := tx, n_rx := (n_rx ?w1)(?s := ([[]], Finished))\<rparr>)"
    by (simp add: net_read_verdict)
  from 1 2 3 ready(2) have "exchange net_env c (EndpointVerificationReq addr) w
      (Some (EndpointVerificationResp valid))
      (?w1\<lparr>n_tx := tx, n_rx := (n_rx ?w1)(?s := ([[]], Finished))\<rparr>)"
    unfolding exchange_def send_wire_msg_def next_wire_msg_def
    by (intro exI [of _ ?s] exI [of _ ?w1] exI [of _ "?w1\<lparr>n_tx := tx\<rparr>"] conjI) simp_all
  from endpoint_verification_exchange [OF this] show ?thesis by auto
qed

text \<open>What the steps of a run leave alone.\<close>

definition same_script :: "net \<Rightarrow> net \<Rightarrow> bool" where
  "same_script w w' \<longleftrightarrow> n_lost w' = n_lost w \<and> n_tx_limit w' = n_tx_limit w \<and> n_slow w' = n_slow w
     \<and> n_reply w' = n_reply w"

lemma net_new_connection:
  assumes "n_dial w a = Inr (Inr c)"
  shows "\<exists>conn inc w'. new_connection net_env ep a w = (Inr (conn, inc), w') \<and> conn_inner conn = c
    \<and> n_next w' = n_next w + 3 \<and> same_script w w'"
proof -
  have "\<exists>conn inc w'. connect_attempt net_env ep a w = (Inr (conn, inc), w') \<and> conn_inner conn = c
    \<and> n_next w' = n_next w + 3 \<and> same_script w w'"
    using assms
    by (simp add: connect_attempt_def io_bind_def io_map_err_def io_lift_def net_connect_def
        net_connecting_def Connection_new_def ConnectionIncoming_new_def start_message_listeners_def
        net_fresh_def net_msg_channel_def same_script_def Let_def)
  then show ?thesis by (auto simp: new_connection_def RetryConfig_retry_def retry_upto_success)
qed

lemma net_config:
  "\<exists>config. try_from_config net_tls cfg = Some (Inr config)
     \<and> ic_forward_port config = cfg_forward_port cfg"
  by (cases "cfg_idle_timeout cfg")
    (simp_all add: try_from_config_def net_tls_def generate_cert_def Let_def)

lemma net_bind_peer:
  "bind_peer net_env addr config w =
     (Inr \<lparr>ep_local_addr = n_local w, ep_public_addr = None, quinn_endpoint = Suc (n_next w),
           ep_retry_config = ic_retry_config config, termination_tx = n_next w\<rparr>,
      w\<lparr>n_next := Suc (Suc (n_next w))\<rparr>)"
  by (simp add: bind_peer_def io_bind_def io_lift_def io_map_err_def io_do_def net_fresh_def)

definition peer_world :: "bool \<Rightarrow> net" where
  "peer_world valid = net_init\<lparr>n_dial := (\<lambda>a. Inr (Inr 5)),
     n_reply := (\<lambda>c r. ([if r = 15 then echo_reply else verdict_reply valid], Finished))\<rparr>"

lemma peer_world_script:
  "n_lost (peer_world valid) = (\<lambda>c. None)" "n_tx_limit (peer_world valid) = (\<lambda>s. None)" "\<not> n_slow (peer_world valid)"
  "n_reply (peer_world valid) = (\<lambda>c r. ([if r = 15 then echo_reply else verdict_reply valid], Finished))"
  "n_dial (peer_world valid) a = Inr (Inr 5)" "n_next (peer_world valid) = 10"
  by (simp_all add: peer_world_def net_init_def)

lemma peer_created:
  "\<exists>ep conns c inc w'. new_peer net_env net_tls peer_a [peer_b] Config_default (peer_world valid) =
     ((if valid then Inr (ep, conns, Some (c, inc))
       else Inl (Failed (EndpointError.Unreachable (V4 (Ipv4 10 0 0 2) 7000)))), w')
   \<and> Endpoint_public_addr ep = V4 (Ipv4 10 0 0 2) 7000"
proof -
  obtain config where config: "try_from_config net_tls Config_default = Some (Inr config)"
    "\<not> ic_forward_port config"
    using net_config [of Config_default] by (auto simp: Config_default_def)
  have external: "ic_external_ip config = None" "ic_external_port config = None"
    using try_from_config_external [OF config(1)] by (simp_all add: Config_default_def)
  let ?w1 = "(peer_world valid)\<lparr>n_next := 12\<rparr>"
  obtain ep0 where ep0: "bind_peer net_env peer_a config (peer_world valid) = (Inr ep0, ?w1)"
    by (simp add: net_bind_peer peer_world_script)
  obtain c inc w2 where w2: "new_connection net_env ep0 peer_b ?w1 = (Inr (c, inc), w2)"
    "conn_inner c = 5" "n_next w2 = 15" "same_script ?w1 w2"
    using net_new_connection [of ?w1 peer_b 5 ep0] peer_world_script(5) by auto
  then have any: "connect_to_any net_env ep0 [peer_b] ?w1 = (Some (c, inc), w2)"
    by (simp add: connect_to_any_def)
  have "rpc_ready w2 (conn_inner c) echo_reply"
    using w2(2-4) by (simp add: rpc_ready_def same_script_def peer_world_script)
  then obtain rx tx where echo: "endpoint_echo net_env ep0 c w2 =
      (Inr (V4 (Ipv4 10 0 0 2) 7000), w2\<lparr>n_rx := rx, n_tx := tx, n_next := 16\<rparr>)"
    using net_echo [of w2 c ep0] w2(3) by auto
  let ?addr = "V4 (Ipv4 10 0 0 2) 7000"
  let ?ep = "ep0\<lparr>ep_public_addr := Some ?addr\<rparr>"
  let ?w5 = "w2\<lparr>n_rx := rx, n_tx := tx, n_next := 17,
      n_tasks := n_tasks w2 @ [AcceptLoop (quinn_endpoint ep0) 16 (ep_retry_config ep0)]\<rparr>"
  have "ep_local_addr ep0 = n_local (peer_world valid)" using ep0 by (auto simp: net_bind_peer)
  then have "ep_local_addr ep0 = V4 (Ipv4 192 168 0 7) 4000" by (simp add: peer_world_def net_init_def)
  with echo have resolved: "resolve_public_addr net_env ep0 None None (Some c) w2 =
      (Inr (?addr, ?ep), w2\<lparr>n_rx := rx, n_tx := tx, n_next := 16\<rparr>)"
    by (simp add: resolve_public_addr_def query_visible_addr_def Let_def io_bind_def)
  have "rpc_ready ?w5 (conn_inner c) (verdict_reply valid)"
    using w2(2-4) by (simp add: rpc_ready_def same_script_def peer_world_script)
  from net_verification [OF this] obtain w6 where
    verified: "endpoint_verification net_env ?ep c ?addr ?w5 = (Inr valid, w6)" by blast
  have "new_peer net_env net_tls peer_a [peer_b] Config_default (peer_world valid) =
      ((if valid then Inr (?ep, 16, Some (c, inc)) else Inl (Failed (EndpointError.Unreachable ?addr))), w6)"
    using config(2) verified external
    by (simp add: new_peer_def config(1) checked_config_def forward_if_configured_def
        io_do_def io_lift_def net_fresh_def listen_for_incoming_connections_def check_reachable_def
        io_bind_def io_map_err_def ep0 any resolved Let_def)
  then show ?thesis
    by (intro exI [of _ ?ep] exI [of _ 16] exI [of _ c] exI [of _ inc] exI [of _ w6])
      (simp add: Endpoint_public_addr_def)
qed

theorem new_peer_verified_witness:
  "\<exists>ep conns c inc w'. new_peer net_env net_tls peer_a [peer_b] Config_default (peer_world True) =
       (Inr (ep, conns, Some (c, inc)), w')
     \<and> Endpoint_public_addr ep = V4 (Ipv4 10 0 0 2) 7000
     \<and> (\<exists>w1. endpoint_verification net_env ep c (V4 (Ipv4 10 0 0 2) 7000) w1 = (Inr True, w'))
     \<and> (\<exists>w1 w2. connect_to net_env ep peer_b w1 = (Inr (c, inc), w2))"
proof -
  obtain ep conns c inc w' where run: "new_peer net_env net_tls peer_a [peer_b] Config_default (peer_world True) =
       (Inr (ep, conns, Some (c, inc)), w')" and addr: "Endpoint_public_addr ep = V4 (Ipv4 10 0 0 2) 7000"
    using peer_created [of True] by auto
  from new_peer_verified [OF net_select.select_laws_axioms run] show ?thesis
    using run addr by auto
qed

lemma net_new_peer:
  assumes "\<not> cfg_forward_port cfg"
  obtains ep conns w' where "new_peer net_env net_tls addr [] cfg w = (Inr (ep, conns, None), w')"
proof -
  obtain config where config: "try_from_config net_tls cfg = Some (Inr config)" "\<not> ic_forward_port config"
    using net_config [of cfg] assms by auto
  have "\<exists>ep conns w'. new_peer net_env net_tls addr [] cfg w = (Inr (ep, conns, None), w')"
    by (simp add: new_peer_def config checked_config_def net_bind_peer connect_to_any_def
        resolve_public_addr_def query_visible_addr_def forward_if_configured_def check_reachable_def
        io_bind_def io_map_err_def io_lift_def io_do_def net_fresh_def Let_def)
  with that show thesis by blast
qed

theorem new_peer_without_contacts_witness:
  "\<exists>ep conns w'. new_peer net_env net_tls peer_a []
       (Config_default\<lparr>cfg_external_ip := Some (IpV4 (Ipv4 123 123 123 123))\<rparr>) net_init =
       (Inr (ep, conns, None), w')
     \<and> sa_ip (Endpoint_public_addr ep) = IpV4 (Ipv4 123 123 123 123)
     \<and> sa_port (Endpoint_public_addr ep) = sa_port (Endpoint_local_addr ep)"
proof -
  let ?cfg = "Config_default\<lparr>cfg_external_ip := Some (IpV4 (Ipv4 123 123 123 123))\<rparr>"
  obtain ep conns w' where run: "new_peer net_env net_tls peer_a [] ?cfg net_init = (Inr (ep, conns, None), w')"
    by (rule net_new_peer [of ?cfg peer_a net_init]) (simp_all add: Config_default_def)
  from new_peer_without_contacts [OF run] run show ?thesis by (auto simp: Config_default_def)
qed

lemma await_reply_Inr:
  "await_reply E r w = (Inr reply, w') \<longleftrightarrow>
     \<not> t_expired E ECHO_SERVICE_QUERY_TIMEOUT w \<and> next_wire_msg E r w = (Inr reply, w')"
proof (cases "t_expired E ECHO_SERVICE_QUERY_TIMEOUT w")
  case True
  then show ?thesis by (auto simp: await_reply_def io_inv with_timeout_def)
next
  case False
  obtain res w1 where n: "next_wire_msg E r w = (res, w1)" by fastforce
  with False show ?thesis
    by (cases res) (simp_all add: await_reply_def io_bind_def io_map_err_def with_timeout_def)
qed

lemma exchange_echo:
  assumes "endpoint_echo E self c w = (Inr addr, w')"
  shows "exchange E c EndpointEchoReq w (Some (EndpointEchoResp addr)) w'"
proof -
  from assms obtain s r w1 w2 reply w3 where x: "open_bi E c w = (Inr (s, r), w1)"
    "send_wire_msg E s EndpointEchoReq w1 = (Inr (), w2)" "await_reply E r w2 = (Inr reply, w3)" and
    reply: "(case reply of Some (EndpointEchoResp addr) \<Rightarrow> io_ret addr
       | msg \<Rightarrow> io_fail (RpcError.Recv (RecvError.Serialization (SerializationError_unexpected msg)))) w3
       = (Inr addr, w')"
    by (auto simp: endpoint_echo_def io_inv)
  from reply have "reply = Some (EndpointEchoResp addr) \<and> w3 = w'"
    by (cases reply; cases "the reply") auto
  with x show ?thesis by (auto simp: exchange_def await_reply_Inr)
qed

lemma exchange_verification:
  assumes "endpoint_verification E self c addr w = (Inr valid, w')"
  shows "exchange E c (EndpointVerificationReq addr) w (Some (EndpointVerificationResp valid)) w'"
proof -
  from assms obtain s r w1 w2 reply w3 where x: "open_bi E c w = (Inr (s, r), w1)"
    "send_wire_msg E s (EndpointVerificationReq addr) w1 = (Inr (), w2)" "await_reply E r w2 = (Inr reply, w3)" and
    reply: "(case reply of Some (EndpointVerificationResp valid) \<Rightarrow> io_ret valid
       | msg \<Rightarrow> io_fail (RpcError.Recv (RecvError.Serialization (SerializationError_unexpected msg)))) w3
       = (Inr valid, w')"
    by (auto simp: endpoint_verification_def io_inv)
  from reply have "reply = Some (EndpointVerificationResp valid) \<and> w3 = w'"
    by (cases reply; cases "the reply") auto
  with x show ?thesis by (auto simp: exchange_def await_reply_Inr)
qed

text \<open>The steps of a \<open>new_peer\<close> that ends with \<open>Unreachable\<close>: only its last one gives that error.\<close>

lemma new_peer_unreachable_steps:
  assumes "new_peer E T local_addr contacts cfg w = (Inl (Failed (EndpointError.Unreachable addr)), w')"
  obtains config ep w1 c inc w2 ep1 w3 w4 conns w5 where
    "try_from_config T cfg = Some (Inr config)" "bind_peer E local_addr config w = (Inr ep, w1)"
    "connect_to_any E ep contacts w1 = (Some (c, inc), w2)"
    "resolve_public_addr E ep (ic_external_ip config) (ic_external_port config) (Some c) w2 = (Inr (addr, ep1), w3)"
    "forward_if_configured E (ep1\<lparr>ep_public_addr := Some addr\<rparr>) config addr w3 = (Inr (), w4)"
    "t_conn_channel E STANDARD_CHANNEL_SIZE w4 = (conns, w5)"
    "endpoint_verification E (ep1\<lparr>ep_public_addr := Some addr\<rparr>) c addr
       (listen_for_incoming_connections E (quinn_endpoint ep1) conns (ep_retry_config ep1) w5) = (Inr False, w')"
proof -
  from assms obtain config where config: "try_from_config T cfg = Some (Inr config)"
    by (auto simp: new_peer_def checked_config_def io_inv split: option.splits sum.splits)
  have not_here: "bind_peer E local_addr config w \<noteq> (Inl (EndpointError.Unreachable addr), w')" for w
    by (auto simp: bind_peer_def io_inv io_do_def)
  have nor_here: "resolve_public_addr E ep ip port contact w \<noteq> (Inl (EndpointError.Unreachable addr), w')"
    for ep ip port contact w
    by (auto simp: resolve_public_addr_def query_visible_addr_def io_inv io_match_def Let_def
        split: option.splits prod.splits sum.splits)
  have nor_there: "forward_if_configured E ep config a w \<noteq> (Inl (EndpointError.Unreachable addr), w')"
    for ep a w
    by (auto simp: forward_if_configured_def io_inv EndpointError_from_igd_def io_of_def)
  from assms obtain ep w1 contact w2 a ep1 w3 w4 conns w5 where steps:
    "bind_peer E local_addr config w = (Inr ep, w1)" "connect_to_any E ep contacts w1 = (contact, w2)"
    "resolve_public_addr E ep (ic_external_ip config) (ic_external_port config) (map_option fst contact) w2 =
       (Inr (a, ep1), w3)"
    "forward_if_configured E (ep1\<lparr>ep_public_addr := Some a\<rparr>) config a w3 = (Inr (), w4)"
    "t_conn_channel E STANDARD_CHANNEL_SIZE w4 = (conns, w5)"
    "check_reachable E (ep1\<lparr>ep_public_addr := Some a\<rparr>) (map_option fst contact) a
       (listen_for_incoming_connections E (quinn_endpoint ep1) conns (ep_retry_config ep1) w5) =
       (Inl (EndpointError.Unreachable addr), w')"
    by (auto simp: new_peer_def config checked_config_def io_inv io_do_def Let_def
        not_here nor_here nor_there)
  from steps(6) obtain c inc where c: "contact = Some (c, inc)" "a = addr"
    "endpoint_verification E (ep1\<lparr>ep_public_addr := Some a\<rparr>) c a
       (listen_for_incoming_connections E (quinn_endpoint ep1) conns (ep_retry_config ep1) w5) = (Inr False, w')"
    by (cases contact) (auto simp: check_reachable_def io_match_def split: prod.splits sum.splits if_splits)
  with steps that [OF config] show thesis by simp
qed

text \<open>The address decided from what a contact sees and what is configured.\<close>

definition decided_addr :: "Endpoint \<Rightarrow> Config \<Rightarrow> SocketAddr \<Rightarrow> SocketAddr" where
  "decided_addr ep cfg visible =
     set_port (case cfg_external_port cfg of Some port \<Rightarrow> port | None \<Rightarrow> sa_port visible)
       (set_ip (case cfg_external_ip cfg of Some ip \<Rightarrow> ip | None \<Rightarrow> sa_ip visible) (ep_local_addr ep))"

lemma resolve_with_contact:
  assumes "try_from_config T cfg = Some (Inr config)"
  shows "resolve_public_addr E ep (ic_external_ip config) (ic_external_port config) (Some c) w =
           (Inr (addr, ep1), w') \<longleftrightarrow>
         (\<exists>visible. exchange E c EndpointEchoReq w (Some (EndpointEchoResp visible)) w'
            \<and> addr = decided_addr ep cfg visible \<and> ep1 = ep\<lparr>ep_public_addr := Some addr\<rparr>)" (is "?l = ?r")
proof
  assume ?l
  then obtain visible where v: "endpoint_echo E ep c w = (Inr visible, w')"
    "addr = decided_addr ep cfg visible" "ep1 = ep\<lparr>ep_public_addr := Some addr\<rparr>"
    by (auto simp: resolve_public_addr_def query_visible_addr_def io_inv io_match_def Let_def decided_addr_def
        try_from_config_external [OF assms] split: option.splits prod.splits sum.splits)
  from exchange_echo [OF v(1)] v(2,3) show ?r by auto
next
  assume ?r
  then obtain visible where v: "endpoint_echo E ep c w = (Inr visible, w')"
    "addr = decided_addr ep cfg visible" "ep1 = ep\<lparr>ep_public_addr := Some addr\<rparr>"
    using endpoint_echo_exchange by fastforce
  then show ?l
    by (auto simp: resolve_public_addr_def query_visible_addr_def io_bind_def Let_def decided_addr_def
        try_from_config_external [OF assms] split: option.splits)
qed

text \<open>
  C27. \<open>Unreachable\<close> is reported exactly on the word of the contact. Creating a peer fails with it
  if and only if in this run a socket was bound, one of the contacts was connected to, that
  contact said which address it sees, the forwarding of the port did not fail, and then, with the
  task that accepts connections running, the same contact, asked to verify the address decided
  from the configuration and from what it had seen, replied that it is not reachable. The error
  names the address that was verified.
\<close>

theorem unreachable_means_refuted:
  "new_peer E T local_addr contacts cfg w = (Inl (Failed (EndpointError.Unreachable addr)), w') \<longleftrightarrow>
     (\<exists>config ep w1 c inc w2 visible w3 w4 conns w5.
        try_from_config T cfg = Some (Inr config)
        \<and> bind_peer E local_addr config w = (Inr ep, w1)
        \<and> connect_to_any E ep contacts w1 = (Some (c, inc), w2)
        \<and> exchange E c EndpointEchoReq w2 (Some (EndpointEchoResp visible)) w3
        \<and> addr = decided_addr ep cfg visible
        \<and> forward_if_configured E (ep\<lparr>ep_public_addr := Some addr\<rparr>) config addr w3 = (Inr (), w4)
        \<and> t_conn_channel E STANDARD_CHANNEL_SIZE w4 = (conns, w5)
        \<and> exchange E c (EndpointVerificationReq addr)
             (listen_for_incoming_connections E (quinn_endpoint ep) conns (ep_retry_config ep) w5)
             (Some (EndpointVerificationResp False)) w')" (is "?l = ?r")
proof
  assume ?l
  then show ?r
  proof (rule new_peer_unreachable_steps)
    fix config ep w1 c inc w2 ep1 w3 w4 conns w5
    assume run: "try_from_config T cfg = Some (Inr config)" "bind_peer E local_addr config w = (Inr ep, w1)"
      "connect_to_any E ep contacts w1 = (Some (c, inc), w2)"
      "resolve_public_addr E ep (ic_external_ip config) (ic_external_port config) (Some c) w2 = (Inr (addr, ep1), w3)"
      "forward_if_configured E (ep1\<lparr>ep_public_addr := Some addr\<rparr>) config addr w3 = (Inr (), w4)"
      "t_conn_channel E STANDARD_CHANNEL_SIZE w4 = (conns, w5)"
      "endpoint_verification E (ep1\<lparr>ep_public_addr := Some addr\<rparr>) c addr
         (listen_for_incoming_connections E (quinn_endpoint ep1) conns (ep_retry_config ep1) w5) = (Inr False, w')"
    from run(4) obtain visible where "exchange E c EndpointEchoReq w2 (Some (EndpointEchoResp visible)) w3"
      "addr = decided_addr ep cfg visible" "ep1 = ep\<lparr>ep_public_addr := Some addr\<rparr>"
      unfolding resolve_with_contact [OF run(1)] by blast
    with run exchange_verification [OF run(7)] show ?r
      by (intro exI [of _ config] exI [of _ ep] exI [of _ w1] exI [of _ c] exI [of _ inc] exI [of _ w2]
          exI [of _ visible] exI [of _ w3] exI [of _ w4] exI [of _ conns] exI [of _ w5]) simp
  qed
next
  assume ?r
  then obtain config ep w1 c inc w2 visible w3 w4 conns w5 where run:
    "try_from_config T cfg = Some (Inr config)" "bind_peer E local_addr config w = (Inr ep, w1)"
    "connect_to_any E ep contacts w1 = (Some (c, inc), w2)"
    "exchange E c EndpointEchoReq w2 (Some (EndpointEchoResp visible)) w3" "addr = decided_addr ep cfg visible"
    "forward_if_configured E (ep\<lparr>ep_public_addr := Some addr\<rparr>) config addr w3 = (Inr (), w4)"
    "t_conn_channel E STANDARD_CHANNEL_SIZE w4 = (conns, w5)"
    "exchange E c (EndpointVerificationReq addr)
       (listen_for_incoming_connections E (quinn_endpoint ep) conns (ep_retry_config ep) w5)
       (Some (EndpointVerificationResp False)) w'" by blast
  from run(4,5) have "resolve_public_addr E ep (ic_external_ip config) (ic_external_port config) (Some c) w2 =
      (Inr (addr, ep\<lparr>ep_public_addr := Some addr\<rparr>), w3)"
    unfolding resolve_with_contact [OF run(1)] by blast
  with run(1-3,6,7) endpoint_verification_exchange [OF run(8)] show ?l
    by (simp add: new_peer_def checked_config_def io_bind_def io_map_err_def io_lift_def io_do_def
        check_reachable_def Let_def)
qed

theorem unreachable_means_refuted_witness:
  "\<exists>w' c visible w1 w2 w3. new_peer net_env net_tls peer_a [peer_b] Config_default (peer_world False) =
       (Inl (Failed (EndpointError.Unreachable (V4 (Ipv4 10 0 0 2) 7000))), w')
     \<and> exchange net_env c EndpointEchoReq w1 (Some (EndpointEchoResp visible)) w2
     \<and> exchange net_env c (EndpointVerificationReq (V4 (Ipv4 10 0 0 2) 7000)) w3
         (Some (EndpointVerificationResp False)) w'"
proof -
  obtain w' where run: "new_peer net_env net_tls peer_a [peer_b] Config_default (peer_world False) =
       (Inl (Failed (EndpointError.Unreachable (V4 (Ipv4 10 0 0 2) 7000))), w')"
    using peer_created [of False] by auto
  with run [unfolded unreachable_means_refuted] show ?thesis by blast
qed

lemma exchange_reachable:
  assumes "is_reachable E self addr w = (Inr (), w')"
  shows "\<exists>c inc w1 reply. new_connection E self addr w = (Inr (c, inc), w1)
           \<and> exchange E c EndpointEchoReq w1 reply w'"
proof -
  from assms obtain c inc w0 s r w1 w2 reply w3 where x:
    "new_connection E self addr w = (Inr (c, inc), w0)" "open_bi E c w0 = (Inr (s, r), w1)"
    "send_wire_msg E s EndpointEchoReq w1 = (Inr (), w2)" "await_reply E r w2 = (Inr reply, w3)" and
    reply: "(case reply of Some (EndpointEchoResp addr) \<Rightarrow> io_ret () | Some other \<Rightarrow> io_ret ()
       | None \<Rightarrow> io_ret ()) w3 = (Inr () :: RpcError + unit, w')"
    by (simp add: is_reachable_def io_inv) blast
  from reply have "w3 = w'" by (cases reply; cases "the reply") auto
  with x show ?thesis by (auto simp: exchange_def await_reply_Inr)
qed

text \<open>
  The echo RPC returns an address exactly when the exchange with the contact was carried
  through and the reply was an echo response with that address, and the verification RPC
  returns a verdict exactly when the reply was a verification response with it.
\<close>

theorem rpc_results:
  "(endpoint_echo E self c w = (Inr addr, w') \<longleftrightarrow>
      exchange E c EndpointEchoReq w (Some (EndpointEchoResp addr)) w')
   \<and> (endpoint_verification E self c addr w = (Inr valid, w') \<longleftrightarrow>
        exchange E c (EndpointVerificationReq addr) w (Some (EndpointVerificationResp valid)) w')"
  using exchange_echo [of E self c w addr w'] endpoint_echo_exchange [of E c w _ w' self]
    exchange_verification [of E self c addr w valid w']
    endpoint_verification_exchange [of E c addr w _ w' self]
  by auto

text \<open>
  C39. \<open>is_reachable\<close> succeeds on any exchange that is carried through, whatever the peer
  replies, even when it closes the stream without a reply.
\<close>

theorem any_reply_is_reachable:
  "is_reachable E self addr w = (Inr (), w') \<longleftrightarrow>
     (\<exists>c inc w1 reply. new_connection E self addr w = (Inr (c, inc), w1)
        \<and> exchange E c EndpointEchoReq w1 reply w')"
  using exchange_reachable [of E self addr w w'] is_reachable_exchange [of E self addr w] by auto

end
