(* ===== verification/Node_Props.thy ===== *)
theory Node_Props
  imports Node Peer_Props
begin

text \<open>
  The example node: what it answers and prints, how an error of one connection ends it, and that
  the address it prints can be read back.
\<close>

section \<open>Rounds of the loop\<close>

lemma println_run [simp]: "println line (w, out) = (Inr (), (w, out @ [line]))"
  by (simp add: println_def)

text \<open>The lines printed for a message.\<close>

definition message_lines :: "(bytes \<Rightarrow> string) \<Rightarrow> SocketAddr \<Rightarrow> bytes \<Rightarrow> string list" where
  "message_lines show_bytes src msg =
     [''Received from '' @ show_addr src @ '' --> '' @ show_bytes msg]
     @ (if msg = into_bytes MSG_MARCO
        then [''Replied to '' @ show_addr src @ '' --> '' @ show_bytes (into_bytes MSG_POLO)] else [])
     @ [[]]"

lemma serve_message_inv:
  assumes "serve_message E show_bytes connection incoming src (w, out) = (Inr more_messages, (w', out'))"
  obtains (over) "\<not> more_messages" "t_msg_recv E (message_rx incoming) w = (None, w')" "out' = out"
  | (served) msg stream w1 where "more_messages"
      "t_msg_recv E (message_rx incoming) w = (Some (Inr (msg, stream)), w1)"
      "out' = out @ message_lines show_bytes src msg"
      "if msg = into_bytes MSG_MARCO then send E connection (into_bytes MSG_POLO) w1 = (Inr (), w') else w' = w1"
  using assms
  by (auto simp: serve_message_def with_net_def ConnectionIncoming_next_def next_with_stream_def Let_def
      message_lines_def io_inv split: prod.splits sum.splits option.splits if_splits)

lemma serve_connection_message:
  "serve_message E show_bytes connection incoming src (w, out) = (Inr True, (w1, out1)) \<Longrightarrow>
   serve_connection E show_bytes connection incoming src w out = serve_connection E show_bytes connection incoming src w1 out1"
  by (subst serve_connection.simps) simp

lemma serve_connection_over:
  "serve_message E show_bytes connection incoming src (w, out) = (Inr False, y) \<Longrightarrow>
   serve_connection E show_bytes connection incoming src w out = Some (Inr (), y)"
  by (subst serve_connection.simps) simp

text \<open>A failure to receive is passed on.\<close>

lemma serve_connection_error:
  assumes "t_msg_recv E (message_rx incoming) w = (Some (Inl e), w1)"
  shows "serve_connection E show_bytes connection incoming src w out = Some (Inl (Failed (R_Recv e)), (w1, out))"
  using assms
  by (subst serve_connection.simps)
    (simp add: serve_message_def with_net_def ConnectionIncoming_next_def next_with_stream_def)

section \<open>What is answered\<close>

text \<open>
  \<open>replied E G n w w'\<close>: between \<open>w\<close> and \<open>w'\<close> the frame of \<open>polo\<close> was put on \<open>n\<close> streams, all of
  them new, and no stream that was there has changed.
\<close>

definition replied :: "'w env \<Rightarrow> 'w ghost \<Rightarrow> nat \<Rightarrow> 'w \<Rightarrow> 'w \<Rightarrow> bool" where
  "replied E G n w w' \<longleftrightarrow>
     (\<exists>S. finite S \<and> card S = n \<and> S \<inter> g_live_tx G w = {} \<and> S \<subseteq> g_live_tx G w'
        \<and> (\<forall>s \<in> S. encode_frame E (UserMsg (into_bytes MSG_POLO)) = Inr (g_sent G w' s)))
     \<and> g_live_tx G w \<subseteq> g_live_tx G w' \<and> (\<forall>s \<in> g_live_tx G w. g_sent G w' s = g_sent G w s)"

lemma replied_none: "unchanged G {} {} C w w' \<Longrightarrow> replied E G 0 w w'"
  unfolding replied_def by (auto simp: unchanged_def same_streams_def intro: exI [of _ "{}"])

lemma replied_trans:
  assumes "replied E G m w w1" "replied E G n w1 w2"
  shows "replied E G (m + n) w w2"
proof -
  from assms obtain S T where
    S: "finite S" "card S = m" "S \<inter> g_live_tx G w = {}" "S \<subseteq> g_live_tx G w1"
      "\<forall>s \<in> S. encode_frame E (UserMsg (into_bytes MSG_POLO)) = Inr (g_sent G w1 s)" and
    T: "finite T" "card T = n" "T \<inter> g_live_tx G w1 = {}" "T \<subseteq> g_live_tx G w2"
      "\<forall>s \<in> T. encode_frame E (UserMsg (into_bytes MSG_POLO)) = Inr (g_sent G w2 s)" and
    keep: "g_live_tx G w \<subseteq> g_live_tx G w1" "\<forall>s \<in> g_live_tx G w. g_sent G w1 s = g_sent G w s"
      "g_live_tx G w1 \<subseteq> g_live_tx G w2" "\<forall>s \<in> g_live_tx G w1. g_sent G w2 s = g_sent G w1 s"
    unfolding replied_def by blast
  have "card (S \<union> T) = m + n" using S(1,2,4) T(1,2,3) by (subst card_Un_disjoint) auto
  moreover have "\<forall>s \<in> S \<union> T. encode_frame E (UserMsg (into_bytes MSG_POLO)) = Inr (g_sent G w2 s)"
    using S(4,5) T(5) keep(4) by auto
  ultimately show ?thesis
    unfolding replied_def using S T keep by (intro conjI exI [of _ "S \<union> T"]) auto
qed

definition marcos :: "bytes list \<Rightarrow> nat" where
  "marcos msgs = length (filter (\<lambda>m. m = into_bytes MSG_MARCO) msgs)"

text \<open>
  The calls of the node that others can observe, and running a sequence of them: each \<open>Receive\<close>
  must give the message it names, each \<open>Reply\<close> must succeed. For each message that it receives the
  node makes one call more if it is \<open>marco\<close>, and none otherwise.
\<close>

datatype node_call = Receive bytes | Reply bytes

primrec performs ::
  "'w env \<Rightarrow> Connection \<Rightarrow> ConnectionIncoming \<Rightarrow> node_call list \<Rightarrow> 'w \<Rightarrow> 'w option" where
  "performs E connection incoming [] w = Some w"
| "performs E connection incoming (call # calls) w =
     (case call of
        Receive msg \<Rightarrow>
          (case ConnectionIncoming_next E incoming w of
             (Inr (Some msg'), w1) \<Rightarrow> if msg' = msg then performs E connection incoming calls w1 else None
           | _ \<Rightarrow> None)
      | Reply msg \<Rightarrow>
          (case send E connection msg w of
             (Inr _, w1) \<Rightarrow> performs E connection incoming calls w1
           | _ \<Rightarrow> None))"

definition node_calls :: "bytes list \<Rightarrow> node_call list" where
  "node_calls msgs = concat (map (\<lambda>msg. Receive msg #
     (if msg = into_bytes MSG_MARCO then [Reply (into_bytes MSG_POLO)] else [])) msgs)"

lemma performs_append:
  "performs E connection incoming (calls @ calls') w =
     Option.bind (performs E connection incoming calls w) (performs E connection incoming calls')"
  by (induction calls arbitrary: w) (auto split: node_call.splits prod.splits sum.splits option.splits)

lemma node_calls_Nil [simp]: "node_calls [] = []"
  by (simp add: node_calls_def)

lemma node_calls_Cons: "node_calls (msg # msgs) = node_calls [msg] @ node_calls msgs"
  by (simp add: node_calls_def)

text \<open>
  How serving a connection ends: there are no more messages, or receiving fails, or a \<open>marco\<close> was
  received and replying to it fails. \<open>tail\<close> is what is printed beyond the lines of the messages
  that were dealt with.
\<close>

definition node_ends ::
  "'w env \<Rightarrow> (bytes \<Rightarrow> string) \<Rightarrow> Connection \<Rightarrow> ConnectionIncoming \<Rightarrow> SocketAddr \<Rightarrow> 'w
   \<Rightarrow> Report failure + unit \<Rightarrow> string list \<Rightarrow> 'w \<Rightarrow> bool" where
  "node_ends E show_bytes connection incoming src w res tail w' \<longleftrightarrow>
     res = Inr () \<and> ConnectionIncoming_next E incoming w = (Inr None, w') \<and> tail = []
     \<or> (\<exists>e. res = Inl (Failed (R_Recv e)) \<and> ConnectionIncoming_next E incoming w = (Inl e, w') \<and> tail = [])
     \<or> (\<exists>e w1. res = Inl (Failed (R_Send e))
          \<and> ConnectionIncoming_next E incoming w = (Inr (Some (into_bytes MSG_MARCO)), w1)
          \<and> send E connection (into_bytes MSG_POLO) w1 = (Inl e, w')
          \<and> tail = [''Received from '' @ show_addr src @ '' --> '' @ show_bytes (into_bytes MSG_MARCO)])"

lemma serve_message_trace:
  assumes "serve_message E show_bytes connection incoming src (w, out) = (res, (w', out'))"
  obtains (more_messages) msg where "res = Inr True" "performs E connection incoming (node_calls [msg]) w = Some w'"
      "out' = out @ message_lines show_bytes src msg"
  | (over) "res = Inr False" "node_ends E show_bytes connection incoming src w (Inr ()) [] w'" "out' = out"
  | (failed) f tail where "res = Inl f" "node_ends E show_bytes connection incoming src w (Inl f) tail w'" "out' = out @ tail"
proof -
  obtain r w1 where r: "ConnectionIncoming_next E incoming w = (r, w1)" by fastforce
  consider e where "r = Inl e" | "r = Inr None" | msg where "r = Inr (Some msg)"
    by (metis old.sum.exhaust option.exhaust)
  then show thesis
  proof cases
    case (1 e)
    with r assms that(3) show ?thesis by (auto simp: serve_message_def with_net_def node_ends_def io_inv io_bind_def)
  next
    case 2
    with r assms that(2) show ?thesis by (auto simp: serve_message_def with_net_def node_ends_def io_inv io_bind_def)
  next
    case (3 msg)
    show ?thesis
    proof (cases "msg = into_bytes MSG_MARCO")
      case True
      obtain x w2 where x: "send E connection (into_bytes MSG_POLO) w1 = (x, w2)" by fastforce
      with r 3 True assms that(1) [of msg] that(3) show ?thesis
        by (cases x) (auto simp: serve_message_def with_net_def node_ends_def node_calls_def message_lines_def
            io_bind_def Let_def)
    next
      case False
      with r 3 assms that(1) [of msg] show ?thesis
        by (auto simp: serve_message_def with_net_def node_calls_def message_lines_def io_bind_def)
    qed
  qed
qed

text \<open>Serving a connection makes these calls and no others, in this order, and prints these lines.\<close>

definition node_trace ::
  "'w env \<Rightarrow> (bytes \<Rightarrow> string) \<Rightarrow> Connection \<Rightarrow> ConnectionIncoming \<Rightarrow> SocketAddr \<Rightarrow> 'w \<Rightarrow> string list
   \<Rightarrow> (Report failure + unit) \<times> ('w \<times> string list) \<Rightarrow> bytes list \<Rightarrow> 'w \<Rightarrow> bool" where
  "node_trace E show_bytes connection incoming src w out result msgs w1 \<longleftrightarrow>
     (case result of (res, w', out') \<Rightarrow>
        performs E connection incoming (node_calls msgs) w = Some w1
        \<and> (\<exists>tail. node_ends E show_bytes connection incoming src w1 res tail w'
             \<and> out' = out @ concat (map (message_lines show_bytes src) msgs) @ tail))"

lemma node_trace_Cons:
  assumes "performs E connection incoming (node_calls [msg]) w = Some w1"
    and "node_trace E show_bytes connection incoming src w1 (out @ message_lines show_bytes src msg) result msgs w2"
  shows "node_trace E show_bytes connection incoming src w out result (msg # msgs) w2"
  using assms by (auto simp: node_trace_def node_calls_Cons [of msg msgs] performs_append split: prod.splits)

lemma serve_connection_trace:
  assumes "serve_connection E show_bytes connection incoming src w out = Some result"
  shows "\<exists>msgs w1. node_trace E show_bytes connection incoming src w out result msgs w1"
proof (rule serve_connection.raw_induct [OF _ assms, where P = "\<lambda>E show_bytes connection incoming src w out result.
    \<exists>msgs w1. node_trace E show_bytes connection incoming src w out result msgs w1"], goal_cases)
  case (1 f E show_bytes connection incoming src w out result)
  obtain res w1 out1 where z: "serve_message E show_bytes connection incoming src (w, out) = (res, (w1, out1))"
    by (metis surj_pair)
  then show ?case
  proof (cases rule: serve_message_trace)
    case (more_messages msg)
    with 1(2) z have "f E show_bytes connection incoming src w1 out1 = Some result" by simp
    from 1(1) [OF this] more_messages show ?thesis by (blast intro: node_trace_Cons)
  next
    case over
    with 1(2) z show ?thesis by (intro exI [of _ "[]"] exI [of _ w]) (auto simp: node_trace_def)
  next
    case (failed e tail)
    with 1(2) z show ?thesis by (intro exI [of _ "[]"] exI [of _ w]) (auto simp: node_trace_def)
  qed
qed

context connection_laws
begin

lemma replied_send:
  assumes "send E connection (into_bytes MSG_POLO) w = (Inr (), w')"
  shows "replied E G 1 w w'" "unchanged G {} {} {} w w'"
proof -
  note f = send_with_frame [OF assms [unfolded send_def]]
  then obtain s where s: "s \<notin> g_live_tx G w" "s \<in> g_live_tx G w'"
    "encode_frame E (UserMsg (into_bytes MSG_POLO)) = Inr (g_sent G w' s)" by blast
  from f(2) show "unchanged G {} {} {} w w'" .
  with s show "replied E G 1 w w'"
    unfolding replied_def unchanged_def same_streams_def by (intro conjI exI [of _ "{s}"]) auto
qed

text \<open>What the calls did, in terms of the channel and the streams.\<close>

lemma performs_one:
  assumes "performs E connection incoming (node_calls [msg]) w = Some w'" and ch: "message_rx incoming \<in> g_live_ch G w"
  shows "message_rx incoming \<in> g_live_ch G w'" "\<exists>items. g_log G w' (message_rx incoming) = g_log G w (message_rx incoming) @ items"
    "g_taken G w (message_rx incoming) < length (g_log G w' (message_rx incoming))"
    "\<exists>stream. g_log G w' (message_rx incoming) ! g_taken G w (message_rx incoming) = Inr (msg, stream)"
    "g_taken G w' (message_rx incoming) = Suc (g_taken G w (message_rx incoming))" "replied E G (marcos [msg]) w w'"
proof -
  let ?ch = "message_rx incoming"
  from assms(1) obtain w1 where n: "ConnectionIncoming_next E incoming w = (Inr (Some msg), w1)" and
    r: "if msg = into_bytes MSG_MARCO then send E connection (into_bytes MSG_POLO) w1 = (Inr (), w') else w' = w1"
    by (auto simp: node_calls_def split: prod.splits sum.splits option.splits if_splits)
  from n obtain stream where rcv: "t_msg_recv E ?ch w = (Some (Inr (msg, stream)), w1)"
    by (auto simp: ConnectionIncoming_next_def next_with_stream_def io_bind_def
        split: prod.splits sum.splits option.splits)
  have u1: "unchanged G {} {} {?ch} w w1" by (rule keepsD [OF msg_recv_keeps rcv])
  have live1: "?ch \<in> g_live_ch G w1" using unchangedD(9) [OF u1 ch] .
  have u2: "unchanged G {} {} {} w1 w'" using r replied_send(2) by (auto split: if_splits)
  note keep = unchangedD(4,5,9) [OF u2 live1]
  from keep(3) show "?ch \<in> g_live_ch G w'" .
  show "\<exists>items. g_log G w' ?ch = g_log G w ?ch @ items" "g_taken G w ?ch < length (g_log G w' ?ch)"
    "\<exists>stream. g_log G w' ?ch ! g_taken G w ?ch = Inr (msg, stream)" "g_taken G w' ?ch = Suc (g_taken G w ?ch)"
    using msg_recv_some [OF rcv] keep(1,2) by auto metis+
  have "replied E G (marcos [msg]) w1 w'"
    using r replied_send(1) replied_none [OF u2] by (auto simp: marcos_def split: if_splits)
  with replied_trans [OF replied_none [OF u1]] show "replied E G (marcos [msg]) w w'" by force
qed

lemma performs_log:
  assumes "performs E connection incoming (node_calls msgs) w = Some w'" and "message_rx incoming \<in> g_live_ch G w"
  shows "message_rx incoming \<in> g_live_ch G w' \<and> g_taken G w' (message_rx incoming) = g_taken G w (message_rx incoming) + length msgs
    \<and> (\<exists>items. g_log G w' (message_rx incoming) = g_log G w (message_rx incoming) @ items)
    \<and> (\<exists>streams. length streams = length msgs
         \<and> take (length msgs) (drop (g_taken G w (message_rx incoming)) (g_log G w' (message_rx incoming))) = map Inr (zip msgs streams))
    \<and> replied E G (marcos msgs) w w'"
  using assms
proof (induction msgs arbitrary: w)
  case Nil
  then show ?case using replied_none [OF unchanged_refl] by (simp add: marcos_def)
next
  case (Cons msg msgs)
  let ?ch = "message_rx incoming"
  from Cons.prems(1) obtain w1 where 1: "performs E connection incoming (node_calls [msg]) w = Some w1"
    and rest: "performs E connection incoming (node_calls msgs) w1 = Some w'"
    by (auto simp: node_calls_Cons [of msg msgs] performs_append bind_eq_Some_conv)
  note one = performs_one [OF 1 Cons.prems(2)] and ih = Cons.IH [OF rest performs_one(1) [OF 1 Cons.prems(2)]]
  from one(4) obtain stream where stream: "g_log G w1 ?ch ! g_taken G w ?ch = Inr (msg, stream)" by blast
  from ih obtain items streams where items: "g_log G w' ?ch = g_log G w1 ?ch @ items" "length streams = length msgs"
    "take (length msgs) (drop (g_taken G w1 ?ch) (g_log G w' ?ch)) = map Inr (zip msgs streams)" by blast
  have "g_log G w' ?ch ! g_taken G w ?ch = Inr (msg, stream)" "g_taken G w ?ch < length (g_log G w' ?ch)"
    using stream one(3) items(1) by (simp_all add: nth_append)
  then have "drop (g_taken G w ?ch) (g_log G w' ?ch) = Inr (msg, stream) # drop (g_taken G w1 ?ch) (g_log G w' ?ch)"
    using one(5) by (metis Cons_nth_drop_Suc)
  with items(2,3) have "take (Suc (length msgs)) (drop (g_taken G w ?ch) (g_log G w' ?ch)) =
      map Inr (zip (msg # msgs) (stream # streams))" "length (stream # streams) = length (msg # msgs)" by simp_all
  moreover have "replied E G (marcos (msg # msgs)) w w'"
    using replied_trans [OF one(6), of "marcos msgs" w'] ih by (simp add: marcos_def split: if_splits)
  ultimately show ?case using one(2,5) ih by (auto intro!: exI [of _ "stream # streams"])
qed

end

text \<open>The senders of a channel are gone: nothing comes any more.\<close>

definition chan_closed :: "'w env \<Rightarrow> 'w ghost \<Rightarrow> chan_id \<Rightarrow> bool" where
  "chan_closed E G ch \<longleftrightarrow> (\<forall>w. length (g_log G w ch) \<le> g_taken G w ch \<longrightarrow> fst (t_msg_recv E ch w) = None)"

context connection_laws
begin

lemma received_everything:
  assumes "t_msg_recv E ch w = (None, w')"
  shows "length (g_log G w ch) \<le> g_taken G w ch \<and> g_log G w' ch = g_log G w ch"
  using assms msg_recv [of w ch] msg_recv_none [OF assms] by (cases "g_taken G w ch < length (g_log G w ch)") auto

lemma serve_message_pending:
  assumes "serve_message E show_bytes connection incoming src (w, out) = (Inr True, (w', out'))"
    and "chan_closed E G (message_rx incoming)" "message_rx incoming \<in> g_live_ch G w"
  shows "length (g_log G w' (message_rx incoming)) - g_taken G w' (message_rx incoming)
    < length (g_log G w (message_rx incoming)) - g_taken G w (message_rx incoming)"
    and "message_rx incoming \<in> g_live_ch G w'"
proof -
  let ?ch = "message_rx incoming"
  from assms(1) obtain msg stream w1 where m: "t_msg_recv E ?ch w = (Some (Inr (msg, stream)), w1)"
    "if msg = into_bytes MSG_MARCO then send E connection (into_bytes MSG_POLO) w1 = (Inr (), w') else w' = w1"
    by (cases rule: serve_message_inv) auto
  have u1: "?ch \<in> g_live_ch G w1" using unchangedD(9) [OF keepsD [OF msg_recv_keeps m(1)] assms(3)] .
  have u2: "unchanged G {} {} {} w1 w'" using m(2) replied_send(2) by (auto split: if_splits)
  have "g_taken G w ?ch < length (g_log G w ?ch)"
    using assms(2) m(1) unfolding chan_closed_def by (metis fst_conv linorder_not_less option.distinct(1))
  with msg_recv [OF this] m(1) unchangedD(4,5) [OF u2 u1]
  show "length (g_log G w' ?ch) - g_taken G w' ?ch < length (g_log G w ?ch) - g_taken G w ?ch" by auto
  show "?ch \<in> g_live_ch G w'" using unchangedD(9) [OF u2 u1] .
qed

lemma serve_connection_returns:
  assumes "chan_closed E G (message_rx incoming)" "message_rx incoming \<in> g_live_ch G w"
  shows "\<exists>r. serve_connection E show_bytes connection incoming src w out = Some r"
  using assms(2)
proof (induction "length (g_log G w (message_rx incoming)) - g_taken G w (message_rx incoming)"
    arbitrary: w out rule: less_induct)
  case (less w out)
  obtain r w1 out1 where z: "serve_message E show_bytes connection incoming src (w, out) = (r, (w1, out1))"
    by (metis surj_pair)
  show ?case
  proof (cases "r = Inr True")
    case True
    note p = serve_message_pending [OF z [unfolded True] assms(1) less.prems]
    from less.hyps [OF p] z True show ?thesis by (subst serve_connection.simps) simp
  next
    case False
    with z show ?thesis by (subst serve_connection.simps) (auto split: sum.splits)
  qed
qed

end

section \<open>Properties\<close>

text \<open>
  C15. The example node does exactly what it is asked. Serving a connection that is over comes to
  an end, and up to there the node has made exactly these calls in this order: for each message it
  received, one after the other, to receive it and then, if and only if it is \<open>marco\<close>, to send
  \<open>polo\<close> once. It ends when there are no more messages, or with the error of the call that failed,
  to receive or to send. The messages are those of the channel in their order, \<open>polo\<close> was put on a
  new stream for every \<open>marco\<close> and no stream that was there has changed, and the lines printed are
  those of the messages in their order. If it ends without an error, every item that was in the
  channel was a message and was dealt with.
\<close>

theorem marco_answered_with_polo:
  assumes "connection_laws E G" and "chan_closed E G (message_rx incoming)"
    and "message_rx incoming \<in> g_live_ch G w"
    and "g_taken G w (message_rx incoming) \<le> length (g_log G w (message_rx incoming))"
  shows "\<exists>res w' out' msgs streams w1 tail.
    serve_connection E show_bytes connection incoming src w out = Some (res, (w', out'))
    \<and> performs E connection incoming (node_calls msgs) w = Some w1
    \<and> node_ends E show_bytes connection incoming src w1 res tail w'
    \<and> out' = out @ concat (map (message_lines show_bytes src) msgs) @ tail
    \<and> length streams = length msgs
    \<and> take (length msgs) (drop (g_taken G w (message_rx incoming)) (g_log G w1 (message_rx incoming)))
        = map Inr (zip msgs streams)
    \<and> replied E G (marcos msgs) w w1
    \<and> (res = Inr () \<longrightarrow>
         drop (g_taken G w (message_rx incoming)) (g_log G w' (message_rx incoming)) = map Inr (zip msgs streams))"
proof -
  let ?ch = "message_rx incoming"
  obtain res w' out' where run: "serve_connection E show_bytes connection incoming src w out = Some (res, (w', out'))"
    using connection_laws.serve_connection_returns [OF assms(1-3), of show_bytes connection src out] by auto
  from serve_connection_trace [OF run] obtain msgs w1 tail where
    tr: "performs E connection incoming (node_calls msgs) w = Some w1"
      "node_ends E show_bytes connection incoming src w1 res tail w'"
      "out' = out @ concat (map (message_lines show_bytes src) msgs) @ tail"
    by (auto simp: node_trace_def)
  from connection_laws.performs_log [OF assms(1) tr(1) assms(3)] obtain streams where
    lg: "g_taken G w1 ?ch = g_taken G w ?ch + length msgs" "length streams = length msgs"
      "take (length msgs) (drop (g_taken G w ?ch) (g_log G w1 ?ch)) = map Inr (zip msgs streams)"
      "replied E G (marcos msgs) w w1" by blast
  have "drop (g_taken G w ?ch) (g_log G w' ?ch) = map Inr (zip msgs streams)" if "res = Inr ()"
  proof -
    from tr(2) that have "t_msg_recv E ?ch w1 = (None, w')"
      by (auto simp: node_ends_def ConnectionIncoming_next_def next_with_stream_def io_bind_def
          split: prod.splits sum.splits option.splits)
    from connection_laws.received_everything [OF assms(1) this] lg(1)
    have "g_log G w' ?ch = g_log G w1 ?ch" "length (drop (g_taken G w ?ch) (g_log G w1 ?ch)) \<le> length msgs" by auto
    with lg(3) show ?thesis by simp
  qed
  with run tr lg show ?thesis by blast
qed

definition two_messages :: net where
  "two_messages = net_init\<lparr>n_log := (\<lambda>_. [Inr (into_bytes MSG_MARCO, None), Inr ([7], None)])\<rparr>"

lemma net_send_ok:
  assumes "n_lost w 1 = None" "n_tx_limit w (n_next w) = None" "length m < 2 ^ 32"
  obtains w' where "send net_env some_connection m w = (Inr (), w')" "n_log w' = n_log w" "n_taken w' = n_taken w"
proof -
  from assms obtain w' where "send_uni net_env some_connection m 0 w = (Inr (), w')" "n_log w' = n_log w" "n_taken w' = n_taken w"
    by (simp add: send_uni_def open_uni_def some_connection_def net_open_uni_def set_priority_def send_user_msg_def
        write_to_stream_def MsgHeader_new_def Let_def net_write_all_def finish_unless_stopped_def finish_def net_finish_def)
  then show thesis
    using that by (simp add: send_def send_with_def some_connection_def RetryConfig_retry_def retry_upto_success)
qed

lemma two_messages_served:
  "\<exists>y. serve_connection net_env (\<lambda>b. ''?'') some_connection \<lparr>message_rx = 5, incoming_alive_tx = 2\<rparr>
     (V4 (Ipv4 10 0 0 2) 7000) two_messages [] = Some (Inr (), y)
     \<and> n_log (fst y) 5 = [Inr (into_bytes MSG_MARCO, None), Inr ([7], None)]"
proof -
  let ?inc = "\<lparr>message_rx = 5, incoming_alive_tx = 2\<rparr>" and ?serve = "serve_message net_env (\<lambda>b. ''?'') some_connection"
  let ?w1 = "two_messages\<lparr>n_taken := (n_taken two_messages)(5 := 1)\<rparr>"
  note serve_defs = serve_message_def with_net_def ConnectionIncoming_next_def next_with_stream_def net_msg_recv_def
  obtain w2 where w2: "send net_env some_connection (into_bytes MSG_POLO) ?w1 = (Inr (), w2)"
    "n_log w2 = n_log ?w1" "n_taken w2 = n_taken ?w1"
    by (rule net_send_ok [of ?w1 "into_bytes MSG_POLO"])
      (simp_all add: two_messages_def net_init_def into_bytes_def MSG_POLO_def)
  then have log: "n_log w2 5 = [Inr (into_bytes MSG_MARCO, None), Inr ([7], None)]" "n_taken w2 5 = 1"
    by (simp_all add: two_messages_def)
  have marco: "into_bytes MSG_MARCO \<noteq> [7]" by (simp add: into_bytes_def MSG_MARCO_def)
  let ?w3 = "w2\<lparr>n_taken := (n_taken w2)(5 := Suc (Suc 0))\<rparr>"
  have "n_log two_messages 5 = [Inr (into_bytes MSG_MARCO, None), Inr ([7], None)]" "n_taken two_messages 5 = 0"
    by (simp_all add: two_messages_def net_init_def)
  then obtain o1 where "?serve ?inc (V4 (Ipv4 10 0 0 2) 7000) (two_messages, []) = (Inr True, (w2, o1))"
    using w2(1) by (simp add: serve_defs Let_def)
  moreover obtain o2 where "?serve ?inc (V4 (Ipv4 10 0 0 2) 7000) (w2, o1) = (Inr True, (?w3, o2))"
    using log marco by (simp add: serve_defs Let_def)
  moreover have "?serve ?inc (V4 (Ipv4 10 0 0 2) 7000) (?w3, o2) = (Inr False, (?w3, o2))"
    using log by (simp add: serve_defs)
  ultimately show ?thesis using log by (simp add: serve_connection_message serve_connection_over)
qed

theorem marco_answered_with_polo_witness:
  "\<exists>w' w1 msgs. serve_connection net_env (\<lambda>b. ''?'') some_connection \<lparr>message_rx = 5, incoming_alive_tx = 2\<rparr>
       (V4 (Ipv4 10 0 0 2) 7000) two_messages []
       = Some (Inr (), (w', concat (map (message_lines (\<lambda>b. ''?'') (V4 (Ipv4 10 0 0 2) 7000)) msgs)))
     \<and> msgs = [into_bytes MSG_MARCO, [7]] \<and> replied net_env net_ghost (marcos msgs) two_messages w1
     \<and> performs net_env some_connection \<lparr>message_rx = 5, incoming_alive_tx = 2\<rparr>
         [Receive (into_bytes MSG_MARCO), Reply (into_bytes MSG_POLO), Receive [7]] two_messages = Some w1"
proof -
  let ?inc = "\<lparr>message_rx = 5, incoming_alive_tx = 2\<rparr>" and ?src = "V4 (Ipv4 10 0 0 2) 7000"
  let ?serve = "serve_connection net_env (\<lambda>b. ''?'') some_connection ?inc ?src two_messages []"
  obtain y where y: "?serve = Some (Inr (), y)"
    "n_log (fst y) 5 = [Inr (into_bytes MSG_MARCO, None), Inr ([7], None)]" using two_messages_served by blast
  have closed: "chan_closed net_env net_ghost (message_rx ?inc)" by (simp add: chan_closed_def net_msg_recv_def)
  have start: "message_rx ?inc \<in> g_live_ch net_ghost two_messages" "g_taken net_ghost two_messages (message_rx ?inc) = 0"
    by (simp_all add: two_messages_def net_init_def)
  from marco_answered_with_polo [OF net_connection.connection_laws_axioms closed start(1), of "\<lambda>b. ''?''" some_connection ?src "[]"] start(2)
  obtain res w' out' msgs streams w1 tail where run: "?serve = Some (res, (w', out'))"
    "performs net_env some_connection ?inc (node_calls msgs) two_messages = Some w1"
    "node_ends net_env (\<lambda>b. ''?'') some_connection ?inc ?src w1 res tail w'"
    "out' = [] @ concat (map (message_lines (\<lambda>b. ''?'') ?src) msgs) @ tail"
    "length streams = length msgs" "replied net_env net_ghost (marcos msgs) two_messages w1"
    "res = Inr () \<longrightarrow> drop (g_taken net_ghost two_messages (message_rx ?inc)) (g_log net_ghost w' (message_rx ?inc)) = map Inr (zip msgs streams)"
    by auto
  from run(1) y(1) have res: "res = Inr ()" "w' = fst y" by auto
  with run(7) y(2) start(2) have "[Inr (into_bytes MSG_MARCO, None), Inr ([7], None)] = (map Inr (zip msgs streams) :: msg_item list)" by simp
  then have "zip msgs streams = [(into_bytes MSG_MARCO, None), ([7], None)]" by auto
  from arg_cong [OF this, of "map fst"] run(5) have msgs: "msgs = [into_bytes MSG_MARCO, [7]]" by simp
  have "into_bytes MSG_MARCO \<noteq> [7]" by (simp add: into_bytes_def MSG_MARCO_def)
  then have "node_calls msgs = [Receive (into_bytes MSG_MARCO), Reply (into_bytes MSG_POLO), Receive [7]]"
    by (simp add: msgs node_calls_def)
  moreover have "tail = []" using run(3) res(1) by (simp add: node_ends_def)
  ultimately show ?thesis using run(1,2,4,6) res(1) msgs by auto
qed

text \<open>
  C37. One peer can stop the node: when a connection that comes in has an error as its next item,
  such as a damaged frame or the loss of that connection, the whole program ends with this error,
  and the connections behind it are not served.
\<close>

theorem receive_error_ends_node:
  assumes "channel_laws E G"
    and "IncomingConnections_next E incoming_conns w = (Some (connection, incoming), w1)"
    and "g_taken G w1 (message_rx incoming) < length (g_log G w1 (message_rx incoming))"
    and "g_log G w1 (message_rx incoming) ! g_taken G w1 (message_rx incoming) = Inl e"
  shows "\<exists>w2. serve_node E show_bytes incoming_conns w out = Some (Inl (Failed (R_Recv e)), (w2, out))"
proof -
  from channel_laws.msg_recv [OF assms(1,3)] assms(4) obtain w2 where
    "t_msg_recv E (message_rx incoming) w1 = (Some (Inl e), w2)" by auto
  from serve_connection_error [OF this] assms(2) show ?thesis by (subst serve_node.simps) simp
qed

theorem receive_error_ends_node_witness:
  "\<exists>w2. serve_node net_env (\<lambda>b. ''?'') 9
       (net_init\<lparr>n_accepted := (\<lambda>_. [(some_connection, \<lparr>message_rx = 5, incoming_alive_tx = 2\<rparr>)]),
                 n_log := (\<lambda>_. [Inl (RecvError.ConnectionLost ConnectionError.TimedOut)])\<rparr>) []
     = Some (Inl (Failed (R_Recv (RecvError.ConnectionLost ConnectionError.TimedOut))), (w2, []))"
proof -
  let ?w = "net_init\<lparr>n_accepted := (\<lambda>_. [(some_connection, \<lparr>message_rx = 5, incoming_alive_tx = 2\<rparr>)]),
      n_log := (\<lambda>_. [Inl (RecvError.ConnectionLost ConnectionError.TimedOut)])\<rparr>"
  have "t_conn_recv net_env = net_accepted" by (simp add: net_env_def)
  then have "IncomingConnections_next net_env 9 ?w =
      (Some (some_connection, \<lparr>message_rx = 5, incoming_alive_tx = 2\<rparr>), ?w\<lparr>n_accepted := (n_accepted ?w)(9 := [])\<rparr>)"
    by (simp add: IncomingConnections_next_def net_accepted_def pop_def)
  from receive_error_ends_node [OF net_channel.channel_laws_axioms this] show ?thesis by (simp add: net_init_def)
qed

text \<open>
  C35. The address a node prints is one that another node can be given: reading it back gives the
  public address of the node, but for the flow label of an IPv6 address, which is not printed.
\<close>

theorem printed_address_can_be_parsed:
  assumes "start_node E T install show_bytes args (w, out) = (Inr (node, incoming_conns), (w', out'))"
  shows "\<exists>text. ''Listening on: '' @ text \<in> set out'
    \<and> parse_peer text = Inr (without_flow (Endpoint_public_addr node))"
proof -
  from assms have "''Listening on: '' @ show_addr (Endpoint_public_addr node) \<in> set out'"
    by (auto simp: start_node_def io_inv println_def case_prod_beta)
  then show ?thesis using parse_show_addr by (auto simp: parse_peer_def)
qed

theorem printed_address_can_be_parsed_witness:
  "\<exists>node conns w' out'. start_node net_env net_tls (io_ret ()) (\<lambda>b. ''?'') [''node''] (net_init, []) =
       (Inr (node, conns), (w', out'))
     \<and> (\<exists>text. ''Listening on: '' @ text \<in> set out' \<and> parse_peer text = Inr (without_flow (Endpoint_public_addr node)))"
proof -
  obtain ep conns w' where run: "new_peer net_env net_tls (V4 (Ipv4 127 0 0 1) 0) [] node_config net_init = (Inr (ep, conns, None), w')"
    by (rule net_new_peer [of node_config]) (simp_all add: node_config_def Config_default_def)
  then obtain out' where "start_node net_env net_tls (io_ret ()) (\<lambda>b. ''?'') [''node''] (net_init, []) =
      (Inr (ep, conns), (w', out'))"
    by (simp add: start_node_def with_net_def create_peer_def)
  with printed_address_can_be_parsed [OF this] show ?thesis by blast
qed

end
