(* ===== verification/Endpoint_Tests.thy ===== *)
theory Endpoint_Tests
  imports Node Peer_Props
begin

text \<open>
  The unit tests of \<open>src/endpoint.rs\<close>, as programs, and that their assertions hold. A failed
  assertion is a panic.
\<close>

section \<open>The tests\<close>

text \<open>\<open>assert_eq!\<close>\<close>

definition assert_eq :: "'a \<Rightarrow> 'a \<Rightarrow> ('w, 'e failure, unit) io" where
  "assert_eq left right = (if left = right then io_ret () else io_fail Panicked)"

text \<open>\<open>local_addr\<close> of the test module: port 0 of the loopback address.\<close>

definition tests_local_addr :: SocketAddr where
  "tests_local_addr = V4 (Ipv4 127 0 0 1) 0"

definition external_config :: "IpAddr option \<Rightarrow> u16 option \<Rightarrow> Config" where
  "external_config ip port = Config_default\<lparr>cfg_external_ip := ip, cfg_external_port := port\<rparr>"

definition new_test_peer ::
  "'w env \<Rightarrow> tls \<Rightarrow> Config
   \<Rightarrow> ('w, Report failure, Endpoint \<times> IncomingConnections \<times> (Connection \<times> ConnectionIncoming) option) io" where
  "new_test_peer E T config = io_map_err report_failure (new_peer E T tests_local_addr [] config)"

definition new_without_external_addr :: "'w env \<Rightarrow> tls \<Rightarrow> ('w, Report failure, unit) io" where
  "new_without_external_addr E T =
     io_bind (new_test_peer E T (external_config None None)) (\<lambda>(endpoint, _, _).
       assert_eq (Endpoint_public_addr endpoint) (Endpoint_local_addr endpoint))"

definition new_with_external_ip :: "'w env \<Rightarrow> tls \<Rightarrow> ('w, Report failure, unit) io" where
  "new_with_external_ip E T =
     io_bind (new_test_peer E T (external_config (Some (IpV4 (Ipv4 123 123 123 123))) None)) (\<lambda>(endpoint, _, _).
       assert_eq (Endpoint_public_addr endpoint)
         (sa_new (IpV4 (Ipv4 123 123 123 123)) (sa_port (Endpoint_local_addr endpoint))))"

definition new_with_external_port :: "'w env \<Rightarrow> tls \<Rightarrow> ('w, Report failure, unit) io" where
  "new_with_external_port E T =
     io_bind (new_test_peer E T (external_config None (Some 123))) (\<lambda>(endpoint, _, _).
       assert_eq (Endpoint_public_addr endpoint)
         (sa_new (sa_ip (Endpoint_local_addr endpoint)) 123))"

definition new_with_external_addr :: "'w env \<Rightarrow> tls \<Rightarrow> ('w, Report failure, unit) io" where
  "new_with_external_addr E T =
     io_bind (new_test_peer E T (external_config (Some (IpV4 (Ipv4 123 123 123 123))) (Some 123)))
       (\<lambda>(endpoint, _, _).
          case parse_socket_addr ''123.123.123.123:123'' of
            None \<Rightarrow> io_fail (Failed R_AddrParse)
          | Some addr \<Rightarrow> assert_eq (Endpoint_public_addr endpoint) addr)"

section \<open>The assertions hold\<close>

text \<open>Binding \<open>addr\<close> gives an IPv4 address.\<close>

definition binds_ipv4 :: "'w env \<Rightarrow> SocketAddr \<Rightarrow> 'w \<Rightarrow> bool" where
  "binds_ipv4 E addr w \<longleftrightarrow>
     (\<forall>cfg ep w1 la w2. q_server E cfg addr w = (Inr ep, w1) \<longrightarrow> q_local_addr E ep w1 = (Inr la, w2) \<longrightarrow>
        (\<exists>ip port. la = V4 ip port))"

lemma bind_peer_ipv4:
  assumes "bind_peer E addr config w = (Inr ep, w')" "binds_ipv4 E addr (snd (t_broadcast_channel E 1 w))"
  shows "\<exists>ip port. Endpoint_local_addr ep = V4 ip port"
  using assms
  by (auto simp: bind_peer_def binds_ipv4_def Endpoint_local_addr_def io_inv io_do_def io_lift_def split: prod.splits)

text \<open>A test ends as the creation of its endpoint does if its assertion holds.\<close>

lemma test_outcome:
  assumes "\<And>ep conns contact w'. new_peer E T tests_local_addr [] cfg w = (Inr (ep, conns, contact), w') \<Longrightarrow>
             fst (check ep w') = Inr ()"
  shows "fst (io_bind (new_test_peer E T cfg) (\<lambda>(ep, _, _). check ep) w) =
    map_sum report_failure (\<lambda>_. ()) (fst (new_peer E T tests_local_addr [] cfg w))"
  using assms
  by (cases "new_peer E T tests_local_addr [] cfg w")
    (auto simp: new_test_peer_def io_bind_def io_map_err_def split: sum.splits prod.splits)

text \<open>
  C34. The tests of the public address pass. Each of them ends as the creation of its endpoint
  does: with its error if there is one, and otherwise without one, as the assertion on the public
  address holds. For the test that sets only the port this takes that a socket bound to an IPv4
  address has one, since the test composes the expected address from the IP address and the port.
\<close>

theorem endpoint_tests_pass:
  assumes "binds_ipv4 E tests_local_addr (snd (t_broadcast_channel E 1 w))"
  shows "fst (new_without_external_addr E T w) = map_sum report_failure (\<lambda>_. ())
           (fst (new_peer E T tests_local_addr [] (external_config None None) w))
       \<and> fst (new_with_external_ip E T w) = map_sum report_failure (\<lambda>_. ())
           (fst (new_peer E T tests_local_addr [] (external_config (Some (IpV4 (Ipv4 123 123 123 123))) None) w))
       \<and> fst (new_with_external_port E T w) = map_sum report_failure (\<lambda>_. ())
           (fst (new_peer E T tests_local_addr [] (external_config None (Some 123)) w))
       \<and> fst (new_with_external_addr E T w) = map_sum report_failure (\<lambda>_. ())
           (fst (new_peer E T tests_local_addr [] (external_config (Some (IpV4 (Ipv4 123 123 123 123))) (Some 123)) w))"
proof -
  have addr: "\<exists>ip port. Endpoint_local_addr ep = V4 ip port \<and> Endpoint_public_addr ep =
      (let addr = (case ip' of Some i \<Rightarrow> set_ip i (V4 ip port) | None \<Rightarrow> V4 ip port)
       in case port' of Some p \<Rightarrow> set_port p addr | None \<Rightarrow> addr)"
    if created: "new_peer E T tests_local_addr [] (external_config ip' port') w = (Inr (ep, conns, contact), w')"
    for ip' port' ep conns contact w'
  proof -
    obtain config ep0 w1 where made: "bind_peer E tests_local_addr config w = (Inr ep0, w1)"
      "Endpoint_local_addr ep = Endpoint_local_addr ep0"
      "Endpoint_public_addr ep =
         (let addr = (case ip' of Some i \<Rightarrow> set_ip i (Endpoint_local_addr ep) | None \<Rightarrow> Endpoint_local_addr ep)
          in case port' of Some p \<Rightarrow> set_port p addr | None \<Rightarrow> addr)"
      by (rule new_peer_alone [OF created]) (simp add: external_config_def)
    from bind_peer_ipv4 [OF made(1) assms] made(2)
    obtain ip port where "Endpoint_local_addr ep = V4 ip port" by auto
    with made(3) show ?thesis by (simp add: Let_def split: option.splits)
  qed
  have parse: "parse_socket_addr ''123.123.123.123:123'' = Some (V4 (Ipv4 123 123 123 123) 123)"
  proof -
    have "''123.123.123.123:123'' = show_addr (V4 (Ipv4 123 123 123 123) 123)" by code_simp
    then show ?thesis using parse_show_addr [of "V4 (Ipv4 123 123 123 123) 123"] by simp
  qed
  show ?thesis
    unfolding new_without_external_addr_def new_with_external_ip_def new_with_external_port_def
      new_with_external_addr_def parse option.case
    by (intro conjI test_outcome; drule addr; auto simp: assert_eq_def)
qed

theorem endpoint_tests_pass_witness:
  "fst (new_without_external_addr net_env net_tls net_init) = Inr ()
   \<and> fst (new_with_external_ip net_env net_tls net_init) = Inr ()
   \<and> fst (new_with_external_port net_env net_tls net_init) = Inr ()
   \<and> fst (new_with_external_addr net_env net_tls net_init) = Inr ()"
proof -
  have "binds_ipv4 net_env tests_local_addr (snd (t_broadcast_channel net_env 1 net_init))"
    by (simp add: binds_ipv4_def net_fresh_def net_init_def)
  note tests = endpoint_tests_pass [OF this, of net_tls]
  have "\<exists>x. fst (new_peer net_env net_tls tests_local_addr [] (external_config ip port) net_init) = Inr x" for ip port
    by (rule net_new_peer [of "external_config ip port" tests_local_addr net_init])
      (auto simp: external_config_def Config_default_def)
  then show ?thesis using tests by (metis map_sum.simps(2))
qed

end
