(* ===== verification/Connection_Tests.thy ===== *)
theory Connection_Tests
  imports Endpoint_Tests
begin

text \<open>
  The unit tests of \<open>src/connection.rs\<close>, as programs. They set up two endpoints of \<open>quinn\<close> and
  a connection between them, without the endpoints of the crate and without retries.
\<close>

section \<open>What the tests use\<close>

text \<open>The errors that \<open>?\<close> and \<open>bail!\<close> turn into a report of a test, with the values it prints.\<close>

datatype TestReport =
    T_Config ConfigError
  | T_Io io_Error
  | T_Connect quinn_ConnectError
  | T_Quinn quinn_ConnectionError
  | T_Elapsed
  | T_Connection ConnectionError
  | T_Send SendError
  | T_Recv RecvError
  | T_Bail string
  | T_UnexpectedSend "SendError + unit"
  | T_UnexpectedRecv "RecvError + bytes option"
  | T_UnexpectedMsg string WireMsg

text \<open>
  Only the tests wait for a time or for an endpoint to become idle, and only there does it
  matter when a value is dropped: a half of a connection, a stream, the stream of incoming
  connections of an endpoint.
\<close>

datatype held =
    H_Conn Connection
  | H_Incoming ConnectionIncoming
  | H_Send SendStream
  | H_Recv RecvStream
  | H_Listening endpoint_id

record 'w test_env =
  x_sleep :: "duration \<Rightarrow> 'w \<Rightarrow> 'w"
  x_wait_idle :: "endpoint_id \<Rightarrow> 'w \<Rightarrow> 'w"
  x_drop :: "held \<Rightarrow> 'w \<Rightarrow> 'w"

definition dropped :: "'w test_env \<Rightarrow> held list \<Rightarrow> ('w, 'e, unit) io" where
  "dropped X hs = io_do (fold (x_drop X) hs)"

definition failing :: "('e \<Rightarrow> TestReport) \<Rightarrow> ('w, 'e, 'a) io \<Rightarrow> ('w, TestReport failure, 'a) io" where
  "failing report = io_map_err (\<lambda>e. Failed (report e))"

definition bail :: "TestReport \<Rightarrow> ('w, TestReport failure, 'a) io" where
  "bail report = io_fail (Failed report)"

text \<open>\<open>timeout(f)\<close> of the tests, and \<open>timeout(f).await??\<close>.\<close>

definition tests_timeout :: "'w env \<Rightarrow> ('w, 'e, 'a) io \<Rightarrow> ('w, unit, 'e + 'a) io" where
  "tests_timeout E f = with_timeout E (from_millis 500) f"

definition in_time :: "'w env \<Rightarrow> ('e \<Rightarrow> TestReport) \<Rightarrow> ('w, 'e, 'a) io \<Rightarrow> ('w, TestReport failure, 'a) io" where
  "in_time E report f =
     io_bind (failing (\<lambda>_. T_Elapsed) (tests_timeout E f)) (\<lambda>res. failing report (io_of res))"

section \<open>Setting up\<close>

definition test_peers ::
  "'w env \<Rightarrow> tls \<Rightarrow> Config \<Rightarrow> ('w, TestReport failure, InternalConfig \<times> endpoint_id \<times> endpoint_id) io" where
  "test_peers E T config0 =
     io_bind (io_of (checked_config T_Config (try_from_config T config0))) (\<lambda>config.
     io_bind (failing T_Io (q_server E (ic_server config) tests_local_addr)) (\<lambda>peer1.
     io_bind (io_do (q_set_default_client_config E peer1 (ic_client config))) (\<lambda>_.
     io_bind (failing T_Io (q_server E (ic_server config) tests_local_addr)) (\<lambda>peer2.
     io_ret (config, peer1, peer2)))))"

definition test_connect ::
  "'w env \<Rightarrow> endpoint_id \<Rightarrow> endpoint_id \<Rightarrow> ('w, TestReport failure, Connection \<times> ConnectionIncoming) io" where
  "test_connect E peer1 peer2 =
     io_bind (failing T_Io (q_local_addr E peer2)) (\<lambda>addr.
     io_bind (failing T_Connect (q_connect E peer1 addr SERVER_NAME)) (\<lambda>connecting.
     io_bind (failing T_Quinn (q_connecting E connecting)) (\<lambda>connection.
     io_lift (Connection_new E peer1 None connection))))"

text \<open>\<open>incoming.then(|c| c).try_next()\<close>: the next incoming connection, once it is established.\<close>

definition next_established ::
  "'w env \<Rightarrow> endpoint_id \<Rightarrow> ('w, quinn_ConnectionError, conn_id option) io" where
  "next_established E peer =
     io_bind (io_lift (q_next_incoming E peer)) (\<lambda>res.
       case res of
         None \<Rightarrow> io_ret None
       | Some connecting \<Rightarrow> io_bind (q_connecting E connecting) (\<lambda>connection. io_ret (Some connection)))"

definition test_accept ::
  "'w env \<Rightarrow> endpoint_id \<Rightarrow> ('w, TestReport failure, Connection \<times> ConnectionIncoming) io" where
  "test_accept E peer =
     io_bind (in_time E T_Quinn (next_established E peer)) (\<lambda>res.
       case res of
         Some connection \<Rightarrow> io_lift (Connection_new E peer None connection)
       | None \<Rightarrow> bail (T_Bail ''did not receive incoming connection when one was expected''))"

text \<open>The end of a test: after the connections were dropped the endpoints become idle.\<close>

definition idle_peers ::
  "'w env \<Rightarrow> 'w test_env \<Rightarrow> endpoint_id \<Rightarrow> endpoint_id \<Rightarrow> ('w, TestReport failure, unit) io" where
  "idle_peers E X peer1 peer2 =
     io_bind (failing (\<lambda>_. T_Elapsed) (tests_timeout E (io_do (x_wait_idle X peer1)))) (\<lambda>(_ :: unit + unit).
     io_bind (failing (\<lambda>_. T_Elapsed) (tests_timeout E (io_do (x_wait_idle X peer2)))) (\<lambda>(_ :: unit + unit).
     io_ret ()))"

section \<open>The tests\<close>

subsection \<open>Messages\<close>

definition send_and_receive ::
  "'w env \<Rightarrow> 'w test_env \<Rightarrow> Connection \<Rightarrow> ConnectionIncoming \<Rightarrow> bytes \<Rightarrow> ('w, TestReport failure, unit) io" where
  "send_and_receive E X tx rx bytes =
     io_bind (failing T_Connection (open_uni E tx)) (\<lambda>send_stream.
     io_bind (failing T_Send (send_user_msg E send_stream bytes)) (\<lambda>_.
     io_bind (dropped X [H_Send send_stream]) (\<lambda>_.
     io_bind (in_time E T_Recv (ConnectionIncoming_next E rx)) (\<lambda>res.
       case res of
         Some msg \<Rightarrow> assert_eq msg bytes
       | None \<Rightarrow> bail (T_Bail ''did not receive message when one was expected'')))))"

definition basic_usage :: "'w env \<Rightarrow> tls \<Rightarrow> 'w test_env \<Rightarrow> ('w, TestReport failure, unit) io" where
  "basic_usage E T X =
     io_bind (test_peers E T Config_default) (\<lambda>(config, peer1, peer2).
     io_bind (test_connect E peer1 peer2) (\<lambda>(p1_tx, p1_rx).
     io_bind (test_accept E peer2) (\<lambda>(p2_tx, p2_rx).
     io_bind (dropped X [H_Listening peer2]) (\<lambda>_.
     io_bind (send_and_receive E X p1_tx p2_rx (into_bytes ''hello'')) (\<lambda>_.
     io_bind (send_and_receive E X p2_tx p1_rx (into_bytes ''world'')) (\<lambda>_.
     io_bind (dropped X [H_Incoming p2_rx, H_Conn p2_tx, H_Incoming p1_rx, H_Conn p1_tx]) (\<lambda>_.
     idle_peers E X peer1 peer2)))))))"

subsection \<open>A connection that times out\<close>

text \<open>The test up to where it waits.\<close>

definition loss_setup ::
  "'w env \<Rightarrow> tls \<Rightarrow> 'w test_env \<Rightarrow> ('w, TestReport failure, Connection \<times> ConnectionIncoming) io" where
  "loss_setup E T X =
     io_bind (test_peers E T (Config_default\<lparr>cfg_idle_timeout := Some (from_secs 1)\<rparr>)) (\<lambda>(config, peer1, peer2).
     io_bind (test_connect E peer1 peer2) (\<lambda>(p1_tx, p1_rx).
     io_bind (dropped X [H_Incoming p1_rx]) (\<lambda>_.
     io_bind (test_accept E peer2) (\<lambda>(p2_tx, p2_rx).
     io_bind (dropped X [H_Conn p2_tx, H_Listening peer2]) (\<lambda>_.
     io_ret (p1_tx, p2_rx))))))"

definition loss_check ::
  "'w env \<Rightarrow> Connection \<Rightarrow> ConnectionIncoming \<Rightarrow> ('w, TestReport failure, unit) io" where
  "loss_check E p1_tx p2_rx =
     io_match (send E p1_tx (into_bytes ''hello'')) (\<lambda>res.
       case res of
         Inl (SendError.ConnectionLost ConnectionError.TimedOut) \<Rightarrow>
           io_match (ConnectionIncoming_next E p2_rx) (\<lambda>res.
             case res of
               Inr None \<Rightarrow> io_ret ()
             | res \<Rightarrow> bail (T_UnexpectedRecv res))
       | res \<Rightarrow> bail (T_UnexpectedSend res))"

definition benign_connection_loss :: "'w env \<Rightarrow> tls \<Rightarrow> 'w test_env \<Rightarrow> ('w, TestReport failure, unit) io" where
  "benign_connection_loss E T X =
     io_bind (loss_setup E T X) (\<lambda>(p1_tx, p2_rx).
     io_bind (io_do (x_sleep X (from_secs 2))) (\<lambda>_.
     loss_check E p1_tx p2_rx))"

subsection \<open>The RPCs\<close>

text \<open>A message of the RPCs that is there in time.\<close>

definition expect_msg :: "'w env \<Rightarrow> RecvStream \<Rightarrow> ('w, TestReport failure, WireMsg) io" where
  "expect_msg E recv_stream =
     io_bind (in_time E T_Recv (next_wire_msg E recv_stream)) (\<lambda>res.
       case res of
         Some msg \<Rightarrow> io_ret msg
       | None \<Rightarrow> bail (T_Bail ''did not receive incoming message when one was expected''))"

definition echo_check ::
  "'w env \<Rightarrow> endpoint_id \<Rightarrow> Connection \<Rightarrow> ('w, TestReport failure, SendStream \<times> RecvStream) io" where
  "echo_check E peer1 p1_tx =
     io_bind (failing T_Connection (open_bi E p1_tx)) (\<lambda>(send_stream, recv_stream).
     io_bind (failing T_Send (send_wire_msg E send_stream EndpointEchoReq)) (\<lambda>_.
     io_bind (expect_msg E recv_stream) (\<lambda>msg.
     io_bind (case msg of
                EndpointEchoResp addr \<Rightarrow>
                  io_bind (failing T_Io (q_local_addr E peer1)) (\<lambda>local. assert_eq addr local)
              | _ \<Rightarrow> bail (T_UnexpectedMsg
                        ''received unexpected message when EndpointEchoResp was expected'' msg)) (\<lambda>_.
     io_ret (send_stream, recv_stream)))))"

text \<open>The test up to the exchange.\<close>

definition rpc_setup ::
  "'w env \<Rightarrow> 'w test_env \<Rightarrow> endpoint_id \<Rightarrow> endpoint_id
   \<Rightarrow> ('w, TestReport failure, Connection \<times> Connection \<times> ConnectionIncoming) io" where
  "rpc_setup E X peer1 peer2 =
     io_bind (test_connect E peer1 peer2) (\<lambda>(p1_tx, p1_rx).
     io_bind (dropped X [H_Incoming p1_rx]) (\<lambda>_.
     io_bind (test_accept E peer2) (\<lambda>p2_handle.
     io_bind (dropped X [H_Listening peer2]) (\<lambda>_.
     io_ret (p1_tx, p2_handle)))))"

definition test_endpoint_echo :: "'w env \<Rightarrow> tls \<Rightarrow> 'w test_env \<Rightarrow> ('w, TestReport failure, unit) io" where
  "test_endpoint_echo E T X =
     io_bind (test_peers E T Config_default) (\<lambda>(config, peer1, peer2).
     io_bind (rpc_setup E X peer1 peer2) (\<lambda>(p1_tx, p2_conn, p2_incoming).
     io_bind (echo_check E peer1 p1_tx) (\<lambda>(send_stream, recv_stream).
     io_bind (dropped X [H_Recv recv_stream, H_Send send_stream, H_Conn p2_conn, H_Incoming p2_incoming,
                         H_Conn p1_tx]) (\<lambda>_.
     idle_peers E X peer1 peer2))))"

definition expect_verdict :: "'w env \<Rightarrow> RecvStream \<Rightarrow> bool \<Rightarrow> string \<Rightarrow> ('w, TestReport failure, unit) io" where
  "expect_verdict E recv_stream expected what =
     io_bind (expect_msg E recv_stream) (\<lambda>msg.
       if msg = EndpointVerificationResp expected then io_ret () else bail (T_UnexpectedMsg what msg))"

definition verification_check ::
  "'w env \<Rightarrow> 'w test_env \<Rightarrow> endpoint_id \<Rightarrow> Connection
   \<Rightarrow> ('w, TestReport failure, (SendStream \<times> RecvStream) \<times> Connection \<times> ConnectionIncoming) io" where
  "verification_check E X peer1 p1_tx =
     io_bind (failing T_Connection (open_bi E p1_tx)) (\<lambda>(send_stream, recv_stream).
     io_bind (failing T_Io (q_local_addr E peer1)) (\<lambda>addr.
     io_bind (failing T_Send (send_wire_msg E send_stream (EndpointVerificationReq addr))) (\<lambda>_.
     io_bind (test_accept E peer1) (\<lambda>p1_handle.
     io_bind (dropped X [H_Listening peer1]) (\<lambda>_.
     io_bind (expect_verdict E recv_stream True
       ''received unexpected message when EndpointVerificationResp(true) was expected'') (\<lambda>_.
     io_bind (failing T_Send (send_wire_msg E send_stream (EndpointVerificationReq tests_local_addr))) (\<lambda>_.
     io_bind (expect_verdict E recv_stream False
       ''received unexpected message when EndpointVerificationResp(false) was expected'') (\<lambda>_.
     io_ret ((send_stream, recv_stream), p1_handle)))))))))"

definition test_endpoint_verification ::
  "'w env \<Rightarrow> tls \<Rightarrow> 'w test_env \<Rightarrow> ('w, TestReport failure, unit) io" where
  "test_endpoint_verification E T X =
     io_bind (test_peers E T Config_default) (\<lambda>(config, peer1, peer2).
     io_bind (io_do (q_set_default_client_config E peer2 (ic_client config))) (\<lambda>_.
     io_bind (rpc_setup E X peer1 peer2) (\<lambda>(p1_tx, p2_conn, p2_incoming).
     io_bind (verification_check E X peer1 p1_tx) (\<lambda>((send_stream, recv_stream), p1_conn, p1_incoming).
     io_bind (dropped X [H_Conn p1_conn, H_Incoming p1_incoming, H_Recv recv_stream, H_Send send_stream,
                         H_Conn p2_conn, H_Incoming p2_incoming, H_Conn p1_tx]) (\<lambda>_.
     idle_peers E X peer1 peer2)))))"

end
