(* ===== verification/Uni_Steps.thy ===== *)
theory Uni_Steps
  imports Bi_Listener
begin

text \<open>
  The listener for unidirectional streams one step at a time, for the composition with the other
  tasks of a connection: what a step forwards, what it leaves for later, what it touches, and
  how much work is left.
\<close>

section \<open>The listener for unidirectional streams, step by step\<close>

text \<open>
  The streams the listener still has to read, the results it will get out of them, and a bound
  on the steps this takes.
\<close>

definition uni_pending ::
  "recv_id option \<Rightarrow> (quinn_ConnectionError + recv_id) list \<Rightarrow> (quinn_ConnectionError + recv_id) list" where
  "uni_pending current streams = (case current of None \<Rightarrow> streams | Some r \<Rightarrow> Inr r # streams)"

definition uni_left ::
  "'w env \<Rightarrow> 'w ghost \<Rightarrow> conn_id \<Rightarrow> recv_id option \<Rightarrow> 'w \<Rightarrow> (RecvError + bytes) list" where
  "uni_left E G c current w = uni_results E (g_avail G w) (g_fate G w) (uni_pending current (g_uni G w c))"

definition uni_size :: "'w ghost \<Rightarrow> conn_id \<Rightarrow> recv_id option \<Rightarrow> 'w \<Rightarrow> nat" where
  "uni_size G c current w =
     (case current of None \<Rightarrow> 0 | Some r \<Rightarrow> length (g_avail G w r) + 1)
     + sum_list (map (\<lambda>r. length (g_avail G w r) + 2) (rights (g_uni G w c)))"

definition uni_open ::
  "'w ghost \<Rightarrow> conn_id \<Rightarrow> chan_id \<Rightarrow> recv_id set \<Rightarrow> recv_id option \<Rightarrow> 'w \<Rightarrow> bool" where
  "uni_open G c ch streams current w \<longleftrightarrow>
     ch \<in> g_live_ch G w \<and> g_rx_open G w ch \<and> c \<in> g_live_conn G w \<and> streams \<subseteq> g_live_rx G w
     \<and> distinct (rights (uni_pending current (g_uni G w c)))
     \<and> set (rights (uni_pending current (g_uni G w c))) \<subseteq> streams"

lemma sum_avail_same:
  "(\<And>r. r \<in> set xs \<Longrightarrow> avail' r = avail r) \<Longrightarrow>
     sum_list (map (\<lambda>r. length (avail' r) + k) xs) = sum_list (map (\<lambda>r. length (avail r) + k) xs)"
  by (intro arg_cong [of _ _ sum_list] map_cong) auto

text \<open>A step of somebody else changes none of it.\<close>

lemma uni_frame:
  assumes "uni_open G c ch streams current w" "same_streams G R S C w w'" "R \<inter> streams = {}"
    "g_uni G w' c = g_uni G w c"
  shows "uni_open G c ch streams current w'" "uni_left E G c current w' = uni_left E G c current w"
    "uni_size G c current w' = uni_size G c current w"
proof -
  from assms(1,2,4) show "uni_open G c ch streams current w'"
    by (auto simp: uni_open_def same_streams_def)
  have same: "g_avail G w' r = g_avail G w r" "g_fate G w' r = g_fate G w r"
    if "r \<in> set (rights (uni_pending current (g_uni G w c)))" for r
  proof -
    from that assms(1,3) have "r \<in> g_live_rx G w" "r \<notin> R" by (auto simp: uni_open_def)
    with same_streamsD(1,2) [OF assms(2), of r] show "g_avail G w' r = g_avail G w r" "g_fate G w' r = g_fate G w r" by auto
  qed
  then show "uni_left E G c current w' = uni_left E G c current w"
    unfolding uni_left_def assms(4) by (intro uni_results_cong) auto
  have "sum_list (map (\<lambda>r. length (g_avail G w' r) + 2) (rights (g_uni G w c))) =
      sum_list (map (\<lambda>r. length (g_avail G w r) + 2) (rights (g_uni G w c)))"
    using same by (intro sum_avail_same) (auto simp: uni_pending_def split: option.splits)
  with same assms(4) show "uni_size G c current w' = uni_size G c current w"
    by (cases current) (simp_all add: uni_size_def uni_pending_def)
qed

text \<open>What polling for the next result achieves.\<close>

definition uni_polled ::
  "'w env \<Rightarrow> 'w ghost \<Rightarrow> conn_id \<Rightarrow> chan_id \<Rightarrow> recv_id set \<Rightarrow> recv_id option \<Rightarrow> 'w
   \<Rightarrow> uni_event \<Rightarrow> recv_id option \<Rightarrow> 'w \<Rightarrow> bool" where
  "uni_polled E G c ch streams current w ev current' w' \<longleftrightarrow>
     (case ev of
        U_End \<Rightarrow> uni_left E G c current w = []
      | U_More \<Rightarrow> uni_left E G c current w = uni_left E G c current' w'
          \<and> uni_open G c ch streams current' w' \<and> uni_size G c current' w' < uni_size G c current w
      | U_Item res \<Rightarrow>
          if lost_result res then uni_left E G c current w = [res]
          else uni_left E G c current w = res # uni_left E G c current' w'
            \<and> uni_open G c ch streams current' w' \<and> uni_size G c current' w' < uni_size G c current w)"

definition uni_guarantee :: "'w ghost \<Rightarrow> conn_id \<Rightarrow> recv_id set \<Rightarrow> chan_id set \<Rightarrow> 'w \<Rightarrow> 'w \<Rightarrow> bool" where
  "uni_guarantee G c streams C w w' \<longleftrightarrow> same_streams G streams {} C w w'
     \<and> (\<forall>d \<in> g_live_conn G w. g_bi G w' d = g_bi G w d \<and> (d \<noteq> c \<longrightarrow> g_uni G w' d = g_uni G w d))"

context runtime_laws
begin

lemma uni_poll_accepts:
  assumes "uni_open G c ch streams None w" "uni_poll E c None w = (ev, current', w')"
  shows "uni_polled E G c ch streams None w ev current' w'" "uni_guarantee G c streams {} w w'"
proof -
  have "uni_polled E G c ch streams None w ev current' w' \<and> uni_guarantee G c streams {} w w'"
  proof (cases "g_uni G w c")
    case Nil
    from next_uni_end [OF Nil] assms(2) have u: "ev = U_End" "unchanged G {} {} {} w w'"
      by (auto simp: uni_poll_def filter_benign_close_def)
    with Nil unchanged_incoming [OF u(2)] same_streams_mono [OF unchanged_same_streams [OF u(2)]]
    show ?thesis by (simp add: uni_polled_def uni_left_def uni_pending_def uni_guarantee_def)
  next
    case (Cons x xs)
    from next_uni [OF Cons] obtain w1 where w1: "q_next_uni E c w = (Some x, w1)" "g_uni G w1 c = xs"
      "same_streams G {} {} {} w w1"
      "\<forall>d \<in> g_live_conn G w. g_bi G w1 d = g_bi G w d \<and> (d \<noteq> c \<longrightarrow> g_uni G w1 d = g_uni G w d)" by blast
    then have g: "uni_guarantee G c streams {} w w1"
      using same_streams_mono [OF w1(3)] by (simp add: uni_guarantee_def)
    show ?thesis
    proof (cases x)
      case (Inl e)
      with Cons w1(1) assms(2) g show ?thesis
        by (auto simp: uni_poll_def filter_benign_close_def uni_polled_def uni_left_def uni_pending_def Let_def
            split: if_splits)
    next
      case (Inr r)
      with w1(1) assms(2) have out: "ev = U_More" "current' = Some r" "w' = w1"
        by (auto simp: uni_poll_def filter_benign_close_def)
      have "uni_open G c ch streams (Some r) w1"
        using assms(1) w1(2,3) Cons Inr by (auto simp: uni_open_def uni_pending_def same_streams_def)
      moreover have same: "g_avail G w1 q = g_avail G w q" "g_fate G w1 q = g_fate G w q"
        if "q \<in> set (r # rights xs)" for q
        using that assms(1) Cons Inr same_streamsD(1,2) [OF w1(3), of q] by (auto simp: uni_open_def uni_pending_def)
      then have "uni_left E G c (Some r) w1 = uni_left E G c None w"
        unfolding uni_left_def uni_pending_def using Cons Inr w1(2) by (auto intro!: uni_results_cong)
      moreover have "sum_list (map (\<lambda>q. length (g_avail G w1 q) + 2) (rights xs)) =
          sum_list (map (\<lambda>q. length (g_avail G w q) + 2) (rights xs))"
        using same by (intro sum_avail_same) auto
      then have "uni_size G c (Some r) w1 < uni_size G c None w"
        using Cons Inr w1(2) same(1) [of r] by (simp add: uni_size_def)
      ultimately show ?thesis using out g by (simp add: uni_polled_def)
    qed
  qed
  then show "uni_polled E G c ch streams None w ev current' w'" "uni_guarantee G c streams {} w w'" by auto
qed

lemma uni_poll_reads:
  assumes o: "uni_open G c ch streams (Some r) w" and "uni_poll E c (Some r) w = (ev, current', w')"
  shows "uni_polled E G c ch streams (Some r) w ev current' w'" "uni_guarantee G c streams {} w w'"
proof -
  let ?bs = "g_avail G w r" and ?fin = "g_fate G w r" and ?xs = "g_uni G w c"
  from o have live: "ch \<in> g_live_ch G w" "g_rx_open G w ch" "r \<in> g_live_rx G w" "r \<in> streams" "c \<in> g_live_conn G w"
    "r \<notin> set (rights ?xs)" "set (rights ?xs) \<subseteq> g_live_rx G w"
    by (auto simp: uni_open_def uni_pending_def)
  obtain res rest w1 where
    dec: "decode_frame E ?bs ?fin = (res, rest)" and rd: "read_from_stream E r w = (res, w1)"
      "g_avail G w1 r = rest" "frame_complete ?bs \<longrightarrow> g_fate G w1 r = ?fin" and
    u1: "unchanged G {r} {} {} w w1"
    by (rule read_step [OF live(1-3)])
  have g: "uni_guarantee G c streams {} w w1"
    using live(4) unchanged_incoming [OF u1]
    by (auto simp: uni_guarantee_def intro!: same_streams_mono [OF unchanged_same_streams [OF u1]])
  have uni: "g_uni G w1 c = ?xs" using unchanged_incoming(1) [OF u1 live(5)] .
  have o1: "uni_open G c ch streams cur w1" if "cur = None \<or> cur = Some r" for cur
    using that o unchanged_same_streams [OF u1] uni by (auto simp: uni_open_def uni_pending_def same_streams_def)
  have same: "g_avail G w1 q = g_avail G w q" "g_fate G w1 q = g_fate G w q" if "q \<in> set (rights ?xs)" for q
  proof -
    from that live(6,7) have "q \<in> g_live_rx G w" "q \<noteq> r" by auto
    with unchangedD(1,2) [OF u1, of q] show "g_avail G w1 q = g_avail G w q" "g_fate G w1 q = g_fate G w q" by auto
  qed
  have later: "uni_results E (g_avail G w1) (g_fate G w1) ?xs = uni_results E (g_avail G w) (g_fate G w) ?xs"
    by (rule uni_results_cong) (simp add: same)
  have "sum_list (map (\<lambda>q. length (g_avail G w1 q) + 2) (rights ?xs)) =
      sum_list (map (\<lambda>q. length (g_avail G w q) + 2) (rights ?xs))"
    using same by (intro sum_avail_same)
  then have size: "uni_size G c None w1 < uni_size G c (Some r) w"
    "length rest < length ?bs \<Longrightarrow> uni_size G c (Some r) w1 < uni_size G c (Some r) w"
    using uni rd(2) by (simp_all add: uni_size_def)
  from dec rd(1) have "uni_polled E G c ch streams (Some r) w ev current' w' \<and> w' = w1"
  proof (cases rule: uni_poll_decode [where c = c])
    case (item b)
    from dec item(1) have "frame_complete ?bs" "length rest < length ?bs" by (auto dest: decode_frame_Some)
    with item assms(2) later size o1 rd(2,3) uni show ?thesis
      by (simp add: uni_polled_def uni_left_def uni_pending_def)
  next
    case over
    with assms(2) later size o1 uni show ?thesis by (simp add: uni_polled_def uni_left_def uni_pending_def)
  next
    case (error e)
    with assms(2) later size o1 uni show ?thesis by (auto simp: uni_polled_def uni_left_def uni_pending_def)
  qed
  with g show "uni_polled E G c ch streams (Some r) w ev current' w'" "uni_guarantee G c streams {} w w'" by auto
qed

lemma uni_poll_step:
  assumes "uni_open G c ch streams current w" "uni_poll E c current w = (ev, current', w')"
  shows "uni_polled E G c ch streams current w ev current' w'" "uni_guarantee G c streams {} w w'"
proof -
  have "uni_polled E G c ch streams current w ev current' w' \<and> uni_guarantee G c streams {} w w'"
    using assms uni_poll_accepts [of c ch streams w ev current' w'] uni_poll_reads [of c ch streams _ w ev current' w']
    by (cases current) simp_all
  then show "uni_polled E G c ch streams current w ev current' w'" "uni_guarantee G c streams {} w w'" by auto
qed

end

section \<open>Steps and their invariant\<close>

lemma uni_guarantee_trans:
  assumes "uni_guarantee G c streams {} w w1" "unchanged G {} {} {ch} w1 w2"
  shows "uni_guarantee G c streams {ch} w w2"
proof -
  from assms(1) have s: "same_streams G streams {} {} w w1" by (simp add: uni_guarantee_def)
  have "same_streams G streams {} {ch} w w2"
    by (rule same_streams_trans [OF same_streams_mono [OF s] same_streams_mono [OF unchanged_same_streams [OF assms(2)]]]) auto
  with assms(1) same_streamsD(10) [OF s] unchanged_incoming [OF assms(2)] show ?thesis
    by (simp add: uni_guarantee_def)
qed

context runtime_laws
begin

lemma uni_forward_taken:
  "uni_forward E ch res w = (b, w') \<Longrightarrow> g_taken G w' ch = g_taken G w ch"
  by (auto simp: uni_forward_def Let_def dest: msg_send_taken split: prod.splits sum.splits)

text \<open>Polling, and forwarding what it gives.\<close>

lemma uni_advance_step:
  assumes o: "uni_open G c ch streams current w"
    and run: "uni_advance E c ch waiting resolved current w = (u', w')"
  obtains items where "g_log G w' ch = g_log G w ch @ map uni_item items" "length items \<le> 1"
    "g_taken G w' ch = g_taken G w ch" "uni_guarantee G c streams {ch} w w'"
    "u' = U_Stopped \<and> uni_left E G c current w = items
     \<or> (\<exists>current'. (u' = waiting current' \<or> u' = U_Select current' resolved)
          \<and> uni_left E G c current w = items @ uni_left E G c current' w'
          \<and> uni_open G c ch streams current' w' \<and> uni_size G c current' w' < uni_size G c current w)"
proof -
  obtain ev current' w1 where poll: "uni_poll E c current w = (ev, current', w1)" by (metis surj_pair)
  note polled = uni_poll_step [OF o poll]
  from o polled(2) have ch: "g_log G w1 ch = g_log G w ch" "g_taken G w1 ch = g_taken G w ch" "g_rx_open G w1 ch"
    by (auto simp: uni_open_def uni_guarantee_def same_streamsD)
  note quiet = uni_guarantee_trans [OF polled(2) unchanged_refl, of ch]
  show thesis
  proof (cases ev)
    case (U_Item res)
    from uni_forward_open [OF ch(3), of res] obtain w2 where
      w2: "uni_forward E ch res w1 = (lost_result res, w2)"
        "g_log G w2 ch = g_log G w1 ch @ [uni_item res]" "unchanged G {} {} {ch} w1 w2" .
    have out: "w' = w2" "u' = (if lost_result res then U_Stopped else U_Select current' resolved)"
      using run poll U_Item w2(1) by (auto simp: uni_advance_def split: bool.splits)
    have "lost_result res \<or> uni_open G c ch streams current' w1"
      using polled(1) U_Item by (simp add: uni_polled_def split: if_splits)
    then have "lost_result res \<or> uni_open G c ch streams current' w2
        \<and> uni_left E G c current' w2 = uni_left E G c current' w1 \<and> uni_size G c current' w2 = uni_size G c current' w1"
      using uni_frame [OF _ unchanged_same_streams [OF w2(3)], of c ch streams current'] unchanged_incoming(1) [OF w2(3)]
      by (auto simp: uni_open_def)
    then have "u' = U_Stopped \<and> uni_left E G c current w = [res]
        \<or> (\<exists>x. (u' = waiting x \<or> u' = U_Select x resolved) \<and> uni_left E G c current w = [res] @ uni_left E G c x w'
            \<and> uni_open G c ch streams x w' \<and> uni_size G c x w' < uni_size G c current w)"
      using out polled(1) U_Item by (cases "lost_result res") (auto simp: uni_polled_def)
    then show thesis
      using that [of "[res]"] out(1) w2(2) ch uni_forward_taken [OF w2(1)] uni_guarantee_trans [OF polled(2) w2(3)]
      by simp
  next
    case U_More
    with run poll have "u' = waiting current'" "w' = w1" by (auto simp: uni_advance_def)
    with that [of "[]"] ch quiet polled(1) U_More show thesis by (auto simp: uni_polled_def)
  next
    case U_End
    with run poll have "u' = U_Stopped" "w' = w1" by (auto simp: uni_advance_def)
    with that [of "[]"] ch quiet polled(1) U_End show thesis by (auto simp: uni_polled_def)
  qed
qed

end

text \<open>
  The invariant, relative to the state the listener was started in: the results it has forwarded
  and those still to come are the specified ones. Once it has stopped, the results are a prefix,
  and all of them when a handle of the connection was held all the time. As long as nothing is
  sent over the \<open>alive\<close> channel, the loop does not come near the panic.
\<close>

fun uni_current :: "uni_state \<Rightarrow> recv_id option option" where
  "uni_current (U_Select current resolved) = Some current"
| "uni_current (U_Await current) = Some current"
| "uni_current _ = None"

fun uni_unresolved :: "uni_state \<Rightarrow> bool" where
  "uni_unresolved (U_Select current resolved) = (\<not> resolved)"
| "uni_unresolved U_Stopped = True"
| "uni_unresolved _ = False"

definition never_signalled :: "'w env \<Rightarrow> alive_id \<Rightarrow> bool" where
  "never_signalled E alive \<longleftrightarrow> (\<forall>w. t_select E alive w \<noteq> RightOk)"

lemma handles_held_never_signalled: "handles_held E alive \<Longrightarrow> never_signalled E alive"
  unfolding handles_held_def never_signalled_def by (metis select_outcome.distinct(3,7))

definition uni_total :: "'w env \<Rightarrow> 'w ghost \<Rightarrow> conn_id \<Rightarrow> 'w \<Rightarrow> (RecvError + bytes) list" where
  "uni_total E G c w = uni_results E (g_avail G w) (g_fate G w) (g_uni G w c)"

definition uni_inv ::
  "'w env \<Rightarrow> 'w ghost \<Rightarrow> conn_id \<Rightarrow> alive_id \<Rightarrow> chan_id \<Rightarrow> 'w \<Rightarrow> (RecvError + bytes) list \<Rightarrow> uni_state \<Rightarrow> 'w \<Rightarrow> bool" where
  "uni_inv E G c alive ch w0 results u w \<longleftrightarrow>
     (case uni_current u of
        Some current \<Rightarrow> uni_open G c ch (set (rights (g_uni G w0 c))) current w
          \<and> uni_total E G c w0 = results @ uni_left E G c current w
      | None \<Rightarrow> prefix results (uni_total E G c w0))
     \<and> (never_signalled E alive \<longrightarrow> uni_unresolved u)
     \<and> (handles_held E alive \<and> u = U_Stopped \<longrightarrow> results = uni_total E G c w0)"

fun uni_work :: "'w ghost \<Rightarrow> conn_id \<Rightarrow> uni_state \<Rightarrow> 'w \<Rightarrow> nat" where
  "uni_work G c (U_Select current resolved) w = uni_size G c current w + (if resolved then 1 else 2)"
| "uni_work G c (U_Await current) w = uni_size G c current w + 1"
| "uni_work G c u w = 0"

lemma uni_inv_prefix: "uni_inv E G c alive ch w0 results u w \<Longrightarrow> prefix results (uni_total E G c w0)"
  by (auto simp: uni_inv_def split: option.splits)

lemma uni_inv_init:
  assumes "uni_open G c ch (set (rights (g_uni G w c))) None w"
  shows "uni_inv E G c alive ch w [] (U_Select None False) w"
  using assms by (simp add: uni_inv_def uni_left_def uni_total_def uni_pending_def)

lemma uni_inv_frame:
  assumes "uni_inv E G c alive ch w0 results u w" "same_streams G R S C w w'"
    "R \<inter> set (rights (g_uni G w0 c)) = {}" "g_uni G w' c = g_uni G w c"
  shows "uni_inv E G c alive ch w0 results u w'" "uni_work G c u w' = uni_work G c u w"
proof -
  have f: "uni_open G c ch (set (rights (g_uni G w0 c))) current w'
      \<and> uni_left E G c current w' = uni_left E G c current w \<and> uni_size G c current w' = uni_size G c current w"
    if "uni_current u = Some current" for current
    using uni_frame [OF _ assms(2-4)] assms(1) that by (auto simp: uni_inv_def)
  with assms(1) show "uni_inv E G c alive ch w0 results u w'" by (auto simp: uni_inv_def split: option.splits)
  show "uni_work G c u w' = uni_work G c u w" using f by (cases u) auto
qed

definition uni_stepped ::
  "'w env \<Rightarrow> 'w ghost \<Rightarrow> conn_id \<Rightarrow> alive_id \<Rightarrow> chan_id \<Rightarrow> 'w \<Rightarrow> (RecvError + bytes) list
   \<Rightarrow> uni_state \<Rightarrow> 'w \<Rightarrow> uni_state \<Rightarrow> 'w \<Rightarrow> bool" where
  "uni_stepped E G c alive ch w0 results u w u' w' \<longleftrightarrow>
     (\<exists>items. g_log G w' ch = g_log G w ch @ map uni_item items \<and> length items \<le> 1
        \<and> g_taken G w' ch = g_taken G w ch
        \<and> uni_guarantee G c (set (rights (g_uni G w0 c))) {ch} w w'
        \<and> uni_inv E G c alive ch w0 (results @ items) u' w' \<and> uni_work G c u' w' < uni_work G c u w)"

context runtime_laws
begin

lemma uni_stepped_advance:
  assumes inv: "uni_inv E G c alive ch w0 results u w" and cur: "uni_current u = Some current"
    and run: "uni_advance E c ch waiting resolved current w = (u', w')"
    and shape: "\<And>x. uni_current (waiting x) = Some x"
      "\<And>x. uni_work G c (waiting x) w' \<le> uni_size G c x w' + (if resolved then 1 else 2)"
      "uni_size G c current w + (if resolved then 1 else 2) \<le> uni_work G c u w"
      "\<And>x. never_signalled E alive \<Longrightarrow> uni_unresolved (waiting x) \<and> \<not> resolved"
  shows "uni_stepped E G c alive ch w0 results u w u' w'"
proof -
  from inv cur have o: "uni_open G c ch (set (rights (g_uni G w0 c))) current w"
    and total: "uni_total E G c w0 = results @ uni_left E G c current w"
    by (auto simp: uni_inv_def)
  obtain items where items: "g_log G w' ch = g_log G w ch @ map uni_item items" "length items \<le> 1"
    "g_taken G w' ch = g_taken G w ch" "uni_guarantee G c (set (rights (g_uni G w0 c))) {ch} w w'"
    "u' = U_Stopped \<and> uni_left E G c current w = items
     \<or> (\<exists>current'. (u' = waiting current' \<or> u' = U_Select current' resolved)
          \<and> uni_left E G c current w = items @ uni_left E G c current' w'
          \<and> uni_open G c ch (set (rights (g_uni G w0 c))) current' w' \<and> uni_size G c current' w' < uni_size G c current w)"
    by (rule uni_advance_step [OF o run])
  from items(5) have "uni_inv E G c alive ch w0 (results @ items) u' w' \<and> uni_work G c u' w' < uni_work G c u w"
  proof (elim disjE exE conjE)
    fix x
    assume x: "u' = waiting x" "uni_left E G c current w = items @ uni_left E G c x w'"
      "uni_open G c ch (set (rights (g_uni G w0 c))) x w'" "uni_size G c x w' < uni_size G c current w"
    have "u' \<noteq> U_Stopped" using x(1) shape(1) [of x] by auto
    moreover have "uni_work G c u' w' < uni_work G c u w" using x(1,4) shape(2) [of x] shape(3) by auto
    ultimately show ?thesis using x shape(1) [of x] shape(4) [of x] total by (simp add: uni_inv_def)
  qed (use total shape(3,4) in \<open>auto simp: uni_inv_def split: if_splits\<close>)
  with items(1-4) show ?thesis unfolding uni_stepped_def by blast
qed

lemma uni_step_inv:
  assumes "uni_step E c alive ch u w = (u', w')" "\<not> uni_done u" and inv: "uni_inv E G c alive ch w0 results u w"
  shows "uni_stepped E G c alive ch w0 results u w u' w'"
proof (cases u)
  case (U_Select current resolved)
  have ns: "never_signalled E alive \<Longrightarrow> \<not> resolved" using inv U_Select by (simp add: uni_inv_def)
  have stay: "uni_stepped E G c alive ch w0 results u w u' w'"
    if "w' = w" "uni_work G c u' w < uni_work G c u w" "uni_inv E G c alive ch w0 results u' w"
    using that unfolding uni_stepped_def by (intro exI [of _ "[]"]) (simp add: uni_guarantee_def)
  have p: "prefix results (uni_total E G c w0)" by (rule uni_inv_prefix [OF inv])
  have go: "uni_stepped E G c alive ch w0 results u w u' w'"
    if "uni_advance E c ch (\<lambda>x. U_Select x resolved) resolved current w = (u', w')"
    by (rule uni_stepped_advance [OF inv _ that]) (use U_Select ns in auto)
  show ?thesis
  proof (cases "t_select E alive w")
    case RightOk
    then have "\<not> never_signalled E alive" "\<not> handles_held E alive"
      using handles_held_never_signalled by (auto simp: never_signalled_def)
    with stay assms(1) U_Select RightOk inv p show ?thesis by (auto simp: uni_inv_def split: if_splits)
  next
    case RightErr
    then have "\<not> handles_held E alive" by (metis handles_held_def select_outcome.distinct(5,9))
    with stay assms(1) U_Select RightErr ns p show ?thesis by (auto simp: uni_inv_def split: if_splits)
  next
    case LeftFirst
    with stay go assms(1) U_Select ns p handles_held_never_signalled show ?thesis
      by (auto simp: uni_inv_def split: if_splits)
  qed (use go assms(1) U_Select in simp)
next
  case (U_Await current)
  then have ns: "\<not> never_signalled E alive" using inv by (simp add: uni_inv_def)
  show ?thesis
    by (rule uni_stepped_advance [OF inv _ assms(1) [unfolded U_Await uni_step.simps]]) (use U_Await ns in auto)
qed (use assms(2) in simp_all)

end

end
