(* ===== verification/Connection_System.thy ===== *)
theory Connection_System
  imports Uni_Steps
begin

text \<open>
  The tasks of a connection together: the listener for unidirectional streams, the listener for
  bidirectional ones and the application that receives from their common channel, in every
  interleaving with each other and with the rest of the program.

  One step is an iteration of a task, which reads from streams that no other task reads from.
  The invariant of each task is stable under the steps of the others, which is proved task by
  task from what each step guarantees to touch.
\<close>

section \<open>The tasks of a connection\<close>

text \<open>
  What belongs to a connection: the arguments \<open>Connection::new\<close> passes to the two listeners it
  starts, and the receiving half it gives to the application.
\<close>

record link =
  lk_endpoint :: endpoint_id
  lk_peer :: SocketAddr
  lk_conn :: conn_id
  lk_incoming :: ConnectionIncoming

abbreviation lk_ch :: "link \<Rightarrow> chan_id" where
  "lk_ch L \<equiv> message_rx (lk_incoming L)"

abbreviation lk_alive :: "link \<Rightarrow> alive_id" where
  "lk_alive L \<equiv> incoming_alive_tx (lk_incoming L)"

text \<open>The state of the two listeners, and what the application has received so far.\<close>

record conn_tasks =
  ct_uni :: uni_state
  ct_bi :: bi_state
  ct_got :: "(RecvError + (bytes \<times> SendStream option) option) list"

definition conn_start :: conn_tasks where
  "conn_start = \<lparr>ct_uni = U_Select None False, ct_bi = B_Serving True [], ct_got = []\<rparr>"

text \<open>
  The receive streams of a connection, and the steps of the rest of the program: they may write
  to any stream and change the handles that exist, but they leave alone what the listeners read
  and the channel they feed.
\<close>

definition conn_rx :: "'w ghost \<Rightarrow> conn_id \<Rightarrow> 'w \<Rightarrow> recv_id set" where
  "conn_rx G c w = set (rights (g_uni G w c)) \<union> snd ` set (rights (g_bi G w c))"

definition undisturbed :: "'w ghost \<Rightarrow> link \<Rightarrow> recv_id set \<Rightarrow> 'w \<Rightarrow> 'w \<Rightarrow> bool" where
  "undisturbed G L rx w w' \<longleftrightarrow> same_streams G (- rx) UNIV (- {lk_ch L}) w w'
     \<and> g_uni G w' (lk_conn L) = g_uni G w (lk_conn L) \<and> g_bi G w' (lk_conn L) = g_bi G w (lk_conn L)"

datatype actor = By_Uni | By_Bi | By_App | By_Others

text \<open>
  The tasks run in any interleaving. The application takes a step when there is an item to
  receive: until then it waits.
\<close>

inductive conn_step ::
  "'w env \<Rightarrow> 'w ghost \<Rightarrow> link \<Rightarrow> recv_id set \<Rightarrow> conn_tasks \<times> 'w \<Rightarrow> actor \<Rightarrow> conn_tasks \<times> 'w \<Rightarrow> bool"
  for E G L rx where
  uni: "\<not> uni_done (ct_uni t) \<Longrightarrow>
    uni_step E (lk_conn L) (lk_alive L) (lk_ch L) (ct_uni t) w = (u', w') \<Longrightarrow>
    conn_step E G L rx (t, w) By_Uni (t\<lparr>ct_uni := u'\<rparr>, w')"
| bi: "bi_step E (lk_endpoint L) (lk_peer L) (lk_conn L) (lk_alive L) (lk_ch L) (ct_bi t, w) (b', w') \<Longrightarrow>
    conn_step E G L rx (t, w) By_Bi (t\<lparr>ct_bi := b'\<rparr>, w')"
| app: "g_taken G w (lk_ch L) < length (g_log G w (lk_ch L)) \<Longrightarrow>
    next_with_stream E (lk_incoming L) w = (res, w') \<Longrightarrow>
    conn_step E G L rx (t, w) By_App (t\<lparr>ct_got := ct_got t @ [res]\<rparr>, w')"
| others: "undisturbed G L rx w w' \<Longrightarrow> conn_step E G L rx (t, w) By_Others (t, w')"

text \<open>Runs, with who took each step.\<close>

inductive conn_run ::
  "'w env \<Rightarrow> 'w ghost \<Rightarrow> link \<Rightarrow> recv_id set \<Rightarrow> conn_tasks \<times> 'w \<Rightarrow> actor list \<Rightarrow> conn_tasks \<times> 'w \<Rightarrow> bool"
  for E G L rx x where
  start: "conn_run E G L rx x [] x"
| step: "conn_run E G L rx x as y \<Longrightarrow> conn_step E G L rx y a z \<Longrightarrow> conn_run E G L rx x (as @ [a]) z"

section \<open>The invariant\<close>

definition conn_live :: "'w ghost \<Rightarrow> link \<Rightarrow> recv_id set \<Rightarrow> 'w \<Rightarrow> bool" where
  "conn_live G L rx w \<longleftrightarrow> lk_ch L \<in> g_live_ch G w \<and> g_rx_open G w (lk_ch L)
     \<and> lk_conn L \<in> g_live_conn G w \<and> rx \<subseteq> g_live_rx G w"

definition conn_ready :: "'w ghost \<Rightarrow> link \<Rightarrow> 'w \<Rightarrow> bool" where
  "conn_ready G L w \<longleftrightarrow> conn_live G L (conn_rx G (lk_conn L) w) w
     \<and> distinct (rights (g_uni G w (lk_conn L)) @ map snd (rights (g_bi G w (lk_conn L))))"

text \<open>The application has received the items of the channel in order, from the \<open>n\<close>-th one on.\<close>

definition received ::
  "(RecvError + (bytes \<times> SendStream option) option) list \<Rightarrow> nat \<Rightarrow> msg_item list \<Rightarrow> bool" where
  "received got n items \<longleftrightarrow> got = map item_result (take (length got) (drop n items))"

lemma received_append:
  assumes "received got n items"
  shows "received got n (items @ items2)"
proof -
  have "length got = min (length got) (length items - n)"
    using arg_cong [OF assms [unfolded received_def], of length] by simp
  then have "length got - (length items - n) = 0" by simp
  with assms show ?thesis by (simp add: received_def)
qed

lemma received_next:
  assumes "received got n items" "n + length got < length items"
  shows "received (got @ [item_result (items ! (n + length got))]) n items"
  using assms by (simp add: received_def take_Suc_conv_app_nth nth_append)

definition conn_inv ::
  "'w env \<Rightarrow> 'w ghost \<Rightarrow> link \<Rightarrow> 'w \<Rightarrow> history \<Rightarrow> (RecvError + bytes) list \<Rightarrow> conn_tasks \<Rightarrow> 'w \<Rightarrow> bool" where
  "conn_inv E G L w0 h results t w \<longleftrightarrow>
     conn_live G L (conn_rx G (lk_conn L) w0) w
     \<and> g_log G w (lk_ch L) = g_log G w0 (lk_ch L) @ map snd h
     \<and> fst ` set h \<subseteq> insert From_Uni (From_Bi ` set (rights (g_bi G w0 (lk_conn L))))
     \<and> sent_by From_Uni h = map uni_item results
     \<and> uni_inv E G (lk_conn L) (lk_alive L) (lk_ch L) w0 results (ct_uni t) w
     \<and> bi_state_inv E G (lk_conn L) (lk_ch L) w0 h (ct_bi t) w
     \<and> g_taken G w (lk_ch L) = g_taken G w0 (lk_ch L) + length (ct_got t)
     \<and> received (ct_got t) (g_taken G w0 (lk_ch L)) (g_log G w (lk_ch L))"

lemma map_snd_tagged [simp]: "map snd (map (Pair k) items) = items"
  by (simp add: o_def)

lemma conn_live_same: "conn_live G L rx w \<Longrightarrow> same_streams G R S C w w' \<Longrightarrow> conn_live G L rx w'"
  by (auto simp: conn_live_def same_streams_def)

lemma conn_inv_init:
  assumes "conn_ready G L w"
  shows "conn_inv E G L w [] [] conn_start w"
proof -
  from assms have "uni_open G (lk_conn L) (lk_ch L) (set (rights (g_uni G w (lk_conn L)))) None w"
    "bi_ready G (lk_conn L) (lk_ch L) (rights (g_bi G w (lk_conn L))) w"
    by (auto simp: conn_ready_def conn_live_def conn_rx_def uni_open_def uni_pending_def bi_ready_def)
  from uni_inv_init [OF this(1), of E "lk_alive L"] bi_inv_init [OF this(2), of E] assms show ?thesis
    by (simp add: conn_inv_def conn_start_def conn_ready_def received_def)
qed

text \<open>Nobody's step but those of the three tasks changes the invariant or the work.\<close>

lemma ready_disjoint:
  assumes "conn_ready G L w0"
  shows "set (rights (g_uni G w0 (lk_conn L))) \<inter> snd ` set (rights (g_bi G w0 (lk_conn L))) = {}"
  using assms by (auto simp: conn_ready_def)

context runtime_laws
begin

lemma conn_inv_uni:
  assumes ready: "conn_ready G L w0" and inv: "conn_inv E G L w0 h results t w"
    and "\<not> uni_done (ct_uni t)" "uni_step E (lk_conn L) (lk_alive L) (lk_ch L) (ct_uni t) w = (u', w')"
  obtains items results' where "conn_inv E G L w0 (h @ map (Pair From_Uni) items) results' (t\<lparr>ct_uni := u'\<rparr>) w'"
    "length items \<le> 1" "uni_work G (lk_conn L) u' w' < uni_work G (lk_conn L) (ct_uni t) w"
    "bi_work G (lk_conn L) (ct_bi t) w' = bi_work G (lk_conn L) (ct_bi t) w"
    "g_log G w' (lk_ch L) = g_log G w (lk_ch L) @ items" "g_taken G w' (lk_ch L) = g_taken G w (lk_ch L)"
    "uni_guarantee G (lk_conn L) (set (rights (g_uni G w0 (lk_conn L)))) {lk_ch L} w w'"
proof -
  let ?c = "lk_conn L" and ?ch = "lk_ch L"
  from inv have i: "uni_inv E G ?c (lk_alive L) ?ch w0 results (ct_uni t) w"
    "bi_state_inv E G ?c ?ch w0 h (ct_bi t) w" "?c \<in> g_live_conn G w"
    by (auto simp: conn_inv_def conn_live_def)
  from uni_step_inv [OF assms(4,3) i(1)] obtain items where
    s: "g_log G w' ?ch = g_log G w ?ch @ map uni_item items" "length items \<le> 1"
      "g_taken G w' ?ch = g_taken G w ?ch"
      "uni_guarantee G ?c (set (rights (g_uni G w0 ?c))) {?ch} w w'"
      "uni_inv E G ?c (lk_alive L) ?ch w0 (results @ items) u' w'"
      "uni_work G ?c u' w' < uni_work G ?c (ct_uni t) w"
    unfolding uni_stepped_def by blast
  have rec: "received (ct_got t) (g_taken G w0 ?ch) (g_log G w' ?ch)"
    unfolding s(1) using inv by (intro received_append) (auto simp: conn_inv_def)
  let ?h = "h @ map (Pair From_Uni) (map uni_item items)"
  from s(4) i(3) have g: "same_streams G (set (rights (g_uni G w0 ?c))) {} {?ch} w w'" "g_bi G w' ?c = g_bi G w ?c"
    by (auto simp: uni_guarantee_def)
  have "sent_by (From_Bi p) ?h = sent_by (From_Bi p) h" for p by (simp del: map_map)
  note bi = bi_state_inv_frame [OF i(2) g(1) ready_disjoint [OF ready] this g(2)]
    bi_work_frame [OF i(2) g(1) ready_disjoint [OF ready] g(2)]
  have "conn_inv E G L w0 ?h (results @ items) (t\<lparr>ct_uni := u'\<rparr>) w'"
    using inv s bi(1) conn_live_same [OF _ g(1)] rec
    by (auto simp: conn_inv_def simp del: map_map)
  from that [OF this] s bi(2) show thesis by (simp del: map_map)
qed

lemma conn_inv_bi:
  assumes ready: "conn_ready G L w0" and inv: "conn_inv E G L w0 h results t w"
    and step: "bi_step E (lk_endpoint L) (lk_peer L) (lk_conn L) (lk_alive L) (lk_ch L) (ct_bi t, w) (b', w')"
  obtains k items where "conn_inv E G L w0 (h @ map (Pair k) items) results (t\<lparr>ct_bi := b'\<rparr>) w'"
    "length items \<le> 1" "g_log G w' (lk_ch L) = g_log G w (lk_ch L) @ items"
    "uni_work G (lk_conn L) (ct_uni t) w' = uni_work G (lk_conn L) (ct_uni t) w"
    "bi_work G (lk_conn L) b' w' < bi_work G (lk_conn L) (ct_bi t) w"
    "bi_guarantee G (lk_conn L) (lk_ch L) (rights (g_bi G w0 (lk_conn L))) w w'"
proof -
  let ?c = "lk_conn L" and ?ch = "lk_ch L" and ?streams = "rights (g_bi G w0 (lk_conn L))"
  from inv have i: "uni_inv E G ?c (lk_alive L) ?ch w0 results (ct_uni t) w"
    "bi_state_inv E G ?c ?ch w0 h (ct_bi t) w" "?c \<in> g_live_conn G w"
    by (auto simp: conn_inv_def conn_live_def)
  from bi_step_inv [OF step i(2)] obtain p items where
    s: "g_log G w' ?ch = g_log G w ?ch @ items" "items \<noteq> [] \<longrightarrow> p \<in> set ?streams"
      "bi_state_inv E G ?c ?ch w0 (h @ map (Pair (From_Bi p)) items) b' w'" "bi_guarantee G ?c ?ch ?streams w w'"
    by blast
  have rec: "received (ct_got t) (g_taken G w0 ?ch) (g_log G w' ?ch)"
    unfolding s(1) using inv by (intro received_append) (auto simp: conn_inv_def)
  let ?h = "h @ map (Pair (From_Bi p)) items"
  from s(4) i(3) have g: "same_streams G (snd ` set ?streams) (fst ` set ?streams) {?ch} w w'"
    "g_uni G w' ?c = g_uni G w ?c" "g_taken G w' ?ch = g_taken G w ?ch"
    by (auto simp: bi_guarantee_def)
  have "snd ` set ?streams \<inter> set (rights (g_uni G w0 ?c)) = {}" using ready_disjoint [OF ready] by auto
  note uni = uni_inv_frame [OF i(1) g(1) this g(2)]
  have "fst ` set ?h \<subseteq> insert From_Uni (From_Bi ` set ?streams)"
    using inv s(2) by (cases items) (auto simp: conn_inv_def)
  then have "conn_inv E G L w0 ?h results (t\<lparr>ct_bi := b'\<rparr>) w'"
    using inv s(1,3) g(3) uni(1) conn_live_same [OF _ g(1)] rec
    by (auto simp: conn_inv_def simp del: map_map)
  moreover from s(1,4) have "length items \<le> 1" by (simp add: bi_guarantee_def)
  ultimately show thesis using that [of "From_Bi p" items] s(1,4) uni(2) bi_step_work [OF step i(2)] by blast
qed

lemma conn_inv_app:
  assumes ready: "conn_ready G L w0" and inv: "conn_inv E G L w0 h results t w"
    and "g_taken G w (lk_ch L) < length (g_log G w (lk_ch L))"
    and "next_with_stream E (lk_incoming L) w = (res, w')"
  shows "conn_inv E G L w0 h results (t\<lparr>ct_got := ct_got t @ [res]\<rparr>) w'"
    and "uni_work G (lk_conn L) (ct_uni t) w' = uni_work G (lk_conn L) (ct_uni t) w"
    and "bi_work G (lk_conn L) (ct_bi t) w' = bi_work G (lk_conn L) (ct_bi t) w"
    and "g_log G w' (lk_ch L) = g_log G w (lk_ch L)" "g_taken G w' (lk_ch L) = Suc (g_taken G w (lk_ch L))"
    and "unchanged G {} {} {lk_ch L} w w'"
proof -
  let ?c = "lk_conn L" and ?ch = "lk_ch L"
  from inv have i: "uni_inv E G ?c (lk_alive L) ?ch w0 results (ct_uni t) w"
    "bi_state_inv E G ?c ?ch w0 h (ct_bi t) w" "?c \<in> g_live_conn G w"
    "g_taken G w ?ch = g_taken G w0 ?ch + length (ct_got t)" "received (ct_got t) (g_taken G w0 ?ch) (g_log G w ?ch)"
    by (auto simp: conn_inv_def conn_live_def)
  from next_with_stream_item [OF assms(3)] assms(4)
  have app: "res = item_result (g_log G w ?ch ! g_taken G w ?ch)" "g_taken G w' ?ch = Suc (g_taken G w ?ch)"
    "g_log G w' ?ch = g_log G w ?ch" by (metis prod.inject)+
  obtain x where "t_msg_recv E ?ch w = (x, w')"
    using assms(4) by (auto simp: next_with_stream_def split: prod.splits option.splits sum.splits)
  with msg_recv_keeps show u: "unchanged G {} {} {?ch} w w'" by (rule keepsD)
  note s = unchanged_same_streams [OF u] and g = unchanged_incoming [OF u i(3)]
  note uni = uni_inv_frame [OF i(1) s _ g(1)] and bi = bi_state_inv_frame [OF i(2) s _ _ g(2)] bi_work_frame [OF i(2) s _ g(2)]
  show "uni_work G ?c (ct_uni t) w' = uni_work G ?c (ct_uni t) w" "bi_work G ?c (ct_bi t) w' = bi_work G ?c (ct_bi t) w"
    using uni(2) bi(2) by auto
  show "g_log G w' ?ch = g_log G w ?ch" "g_taken G w' ?ch = Suc (g_taken G w ?ch)" by (fact app)+
  have "received (ct_got t @ [res]) (g_taken G w0 ?ch) (g_log G w' ?ch)"
    using received_next [OF i(5)] assms(3) i(4) app(1,3) by simp
  with inv uni(1) bi(1) app conn_live_same [OF _ s] show "conn_inv E G L w0 h results (t\<lparr>ct_got := ct_got t @ [res]\<rparr>) w'"
    by (auto simp: conn_inv_def)
qed

lemma conn_inv_others:
  assumes inv: "conn_inv E G L w0 h results t w" and u: "undisturbed G L (conn_rx G (lk_conn L) w0) w w'"
  shows "conn_inv E G L w0 h results t w'"
    and "uni_work G (lk_conn L) (ct_uni t) w' = uni_work G (lk_conn L) (ct_uni t) w"
    and "bi_work G (lk_conn L) (ct_bi t) w' = bi_work G (lk_conn L) (ct_bi t) w"
    and "g_log G w' (lk_ch L) = g_log G w (lk_ch L)" "g_taken G w' (lk_ch L) = g_taken G w (lk_ch L)"
proof -
  let ?c = "lk_conn L" and ?ch = "lk_ch L" and ?rx = "conn_rx G (lk_conn L) w0"
  from inv have i: "uni_inv E G ?c (lk_alive L) ?ch w0 results (ct_uni t) w"
    "bi_state_inv E G ?c ?ch w0 h (ct_bi t) w" "?ch \<in> g_live_ch G w"
    by (auto simp: conn_inv_def conn_live_def)
  from u have s: "same_streams G (- ?rx) UNIV (- {?ch}) w w'" and g: "g_uni G w' ?c = g_uni G w ?c" "g_bi G w' ?c = g_bi G w ?c"
    by (auto simp: undisturbed_def)
  have d: "- ?rx \<inter> set (rights (g_uni G w0 ?c)) = {}" "- ?rx \<inter> snd ` set (rights (g_bi G w0 ?c)) = {}"
    by (auto simp: conn_rx_def)
  note uni = uni_inv_frame [OF i(1) s d(1) g(1)] and bi = bi_state_inv_frame [OF i(2) s d(2) _ g(2)] bi_work_frame [OF i(2) s d(2) g(2)]
  show "uni_work G ?c (ct_uni t) w' = uni_work G ?c (ct_uni t) w" "bi_work G ?c (ct_bi t) w' = bi_work G ?c (ct_bi t) w"
    using uni(2) bi(2) by auto
  show log: "g_log G w' ?ch = g_log G w ?ch" "g_taken G w' ?ch = g_taken G w ?ch"
    using same_streamsD(4,5) [OF s i(3)] by auto
  from inv uni(1) bi(1) log conn_live_same [OF _ s] show "conn_inv E G L w0 h results t w'"
    by (auto simp: conn_inv_def)
qed

end

section \<open>Runs\<close>

definition conn_work :: "'w ghost \<Rightarrow> link \<Rightarrow> conn_tasks \<times> 'w \<Rightarrow> nat" where
  "conn_work G L x =
     (case x of (t, w) \<Rightarrow> 2 * (uni_work G (lk_conn L) (ct_uni t) w + bi_work G (lk_conn L) (ct_bi t) w)
        + (length (g_log G w (lk_ch L)) - g_taken G w (lk_ch L)))"

text \<open>What a step of one of the tasks may change, as seen by everybody else.\<close>

definition conn_guarantee :: "'w ghost \<Rightarrow> link \<Rightarrow> recv_id set \<Rightarrow> 'w \<Rightarrow> 'w \<Rightarrow> bool" where
  "conn_guarantee G L rx w w' \<longleftrightarrow> same_streams G rx UNIV {lk_ch L} w w'
     \<and> (\<forall>d \<in> g_live_conn G w. d \<noteq> lk_conn L \<longrightarrow> g_uni G w' d = g_uni G w d \<and> g_bi G w' d = g_bi G w d)"

definition conn_ok :: "'w env \<Rightarrow> 'w ghost \<Rightarrow> link \<Rightarrow> 'w \<Rightarrow> conn_tasks \<times> 'w \<Rightarrow> bool" where
  "conn_ok E G L w0 x \<longleftrightarrow> (\<exists>h results. conn_inv E G L w0 h results (fst x) (snd x))"

context runtime_laws
begin

lemma conn_step_ok:
  assumes ready: "conn_ready G L w0" and ok: "conn_ok E G L w0 x"
    and step: "conn_step E G L (conn_rx G (lk_conn L) w0) x a y"
  shows "conn_ok E G L w0 y"
    and "if a = By_Others then conn_work G L y = conn_work G L x else conn_work G L y < conn_work G L x"
    and "a \<noteq> By_Others \<Longrightarrow> conn_guarantee G L (conn_rx G (lk_conn L) w0) (snd x) (snd y)"
proof -
  let ?rx = "conn_rx G (lk_conn L) w0"
  from ok obtain h results where inv: "conn_inv E G L w0 h results (fst x) (snd x)" by (auto simp: conn_ok_def)
  from step have "conn_ok E G L w0 y
    \<and> (if a = By_Others then conn_work G L y = conn_work G L x else conn_work G L y < conn_work G L x)
    \<and> (a \<noteq> By_Others \<longrightarrow> conn_guarantee G L ?rx (snd x) (snd y))"
  proof cases
    case (uni t w u' w')
    with inv have "conn_inv E G L w0 h results t w" by simp
    from conn_inv_uni [OF ready this uni(4,5)] obtain items results' where
      s: "conn_inv E G L w0 (h @ map (Pair From_Uni) items) results' (t\<lparr>ct_uni := u'\<rparr>) w'"
        "length items \<le> 1" "uni_work G (lk_conn L) u' w' < uni_work G (lk_conn L) (ct_uni t) w"
        "bi_work G (lk_conn L) (ct_bi t) w' = bi_work G (lk_conn L) (ct_bi t) w"
        "g_log G w' (lk_ch L) = g_log G w (lk_ch L) @ items" "g_taken G w' (lk_ch L) = g_taken G w (lk_ch L)"
        "uni_guarantee G (lk_conn L) (set (rights (g_uni G w0 (lk_conn L)))) {lk_ch L} w w'" .
    from s(7) have "conn_guarantee G L ?rx w w'"
      by (auto simp: uni_guarantee_def conn_guarantee_def conn_rx_def intro: same_streams_mono)
    with s uni(1-3) show ?thesis by (auto simp: conn_ok_def conn_work_def)
  next
    case (bi t w b' w')
    with inv have "conn_inv E G L w0 h results t w" by simp
    from conn_inv_bi [OF ready this bi(4)] obtain k items where
      s: "conn_inv E G L w0 (h @ map (Pair k) items) results (t\<lparr>ct_bi := b'\<rparr>) w'"
        "length items \<le> 1" "g_log G w' (lk_ch L) = g_log G w (lk_ch L) @ items"
        "uni_work G (lk_conn L) (ct_uni t) w' = uni_work G (lk_conn L) (ct_uni t) w"
        "bi_work G (lk_conn L) b' w' < bi_work G (lk_conn L) (ct_bi t) w"
        "bi_guarantee G (lk_conn L) (lk_ch L) (rights (g_bi G w0 (lk_conn L))) w w'" .
    from s(6) have "conn_guarantee G L ?rx w w'"
      by (auto simp: bi_guarantee_def conn_guarantee_def conn_rx_def intro: same_streams_mono)
    with s bi(1-3) show ?thesis by (auto simp: conn_ok_def conn_work_def bi_guarantee_def)
  next
    case (app w res w' t)
    with inv have i: "conn_inv E G L w0 h results t w" by simp
    note s = conn_inv_app [OF ready i app(4,5)]
    from s(6) have "conn_guarantee G L ?rx w w'"
      by (auto simp: unchanged_def conn_guarantee_def intro: same_streams_mono)
    with s app(1-4) show ?thesis by (auto simp: conn_ok_def conn_work_def)
  next
    case (others w w' t)
    with inv have "conn_inv E G L w0 h results t w" by simp
    from conn_inv_others [OF this others(4)] others(1-3) show ?thesis by (auto simp: conn_ok_def conn_work_def)
  qed
  then show "conn_ok E G L w0 y"
    and "if a = By_Others then conn_work G L y = conn_work G L x else conn_work G L y < conn_work G L x"
    and "a \<noteq> By_Others \<Longrightarrow> conn_guarantee G L ?rx (snd x) (snd y)" by auto
qed

lemma conn_run_ok:
  assumes "conn_run E G L (conn_rx G (lk_conn L) w0) (conn_start, w0) as y" "conn_ready G L w0"
  shows "conn_ok E G L w0 y"
    and "length (filter (\<lambda>a. a \<noteq> By_Others) as) + conn_work G L y \<le> conn_work G L (conn_start, w0)"
proof -
  have "conn_ok E G L w0 y
    \<and> length (filter (\<lambda>a. a \<noteq> By_Others) as) + conn_work G L y \<le> conn_work G L (conn_start, w0)"
    using assms(1)
  proof induction
    case start
    from conn_inv_init [OF assms(2), of E] show ?case by (auto simp: conn_ok_def)
  next
    case (step as y a z)
    from conn_step_ok(1,2) [OF assms(2) _ step.hyps(2)] step.IH show ?case by (auto split: if_splits)
  qed
  then show "conn_ok E G L w0 y"
    "length (filter (\<lambda>a. a \<noteq> By_Others) as) + conn_work G L y \<le> conn_work G L (conn_start, w0)" by auto
qed

end

text \<open>Both listeners have stopped and the application has received everything.\<close>

definition conn_finished :: "'w ghost \<Rightarrow> link \<Rightarrow> conn_tasks \<times> 'w \<Rightarrow> bool" where
  "conn_finished G L x \<longleftrightarrow> uni_done (ct_uni (fst x)) \<and> bi_stopped (ct_bi (fst x))
     \<and> length (g_log G (snd x) (lk_ch L)) \<le> g_taken G (snd x) (lk_ch L)"

context runtime_laws
begin

text \<open>Until then, one of them can go on.\<close>

lemma conn_step_progress:
  assumes "\<not> conn_finished G L x"
  obtains a y where "conn_step E G L rx x a y" "a \<noteq> By_Others"
proof -
  obtain t w where x: "x = (t, w)" by fastforce
  consider "\<not> uni_done (ct_uni t)" | "\<not> bi_stopped (ct_bi t)"
    | "g_taken G w (lk_ch L) < length (g_log G w (lk_ch L))"
    using assms x by (auto simp: conn_finished_def)
  then show thesis
  proof cases
    case 1
    obtain u' w' where "uni_step E (lk_conn L) (lk_alive L) (lk_ch L) (ct_uni t) w = (u', w')" by fastforce
    from conn_step.uni [OF 1 this] that x show thesis by blast
  next
    case 2
    obtain b' w' where "bi_step E (lk_endpoint L) (lk_peer L) (lk_conn L) (lk_alive L) (lk_ch L) (ct_bi t, w) (b', w')"
      by (rule bi_step_progress [OF 2])
    from conn_step.bi [OF this] that x show thesis by blast
  next
    case 3
    obtain res w' where "next_with_stream E (lk_incoming L) w = (res, w')" by fastforce
    from conn_step.app [OF 3 this] that x show thesis by blast
  qed
qed

end

section \<open>Complete runs\<close>

text \<open>
  A connection that is closed in an ordinary way: its bidirectional streams end, perhaps with a
  close that counts as benign, and with nothing behind it.
\<close>

fun bi_closes :: "(quinn_ConnectionError + 'a) list \<Rightarrow> bool" where
  "bi_closes [] = True"
| "bi_closes (Inr x # xs) = bi_closes xs"
| "bi_closes (Inl e # xs) = (is_benign (ConnectionError_from_quinn e) \<and> xs = [])"

fun bi_closing :: "'w ghost \<Rightarrow> conn_id \<Rightarrow> bi_state \<Rightarrow> 'w \<Rightarrow> bool" where
  "bi_closing G c (B_Serving True running) w = bi_closes (g_bi G w c)"
| "bi_closing G c (B_Serving False running) w = (g_bi G w c = [])"
| "bi_closing G c B_Ended w = (g_bi G w c = [])"
| "bi_closing G c st w = False"

lemma bi_closing_frame: "g_bi G w' c = g_bi G w c \<Longrightarrow> bi_closing G c st w' = bi_closing G c st w"
  by (cases "(G, c, st, w)" rule: bi_closing.cases) auto

context runtime_laws
begin

lemma bi_iteration_incoming:
  assumes "bi_open G c ch streams running w" "(s, r) \<in> set running" "bi_iteration E ep peer ch s r w = (go, w')"
  shows "g_bi G w' c = g_bi G w c"
proof -
  note live = bi_open_live [OF assms(1)]
  from bi_iteration_progress [OF live(1,2) live(4) [OF assms(2)], of s ep peer] assms(3)
  have "unchanged G {r} {s} {ch} w w'" by (simp add: bi_progress_def)
  from unchanged_incoming(2) [OF this live(3)] show ?thesis .
qed

lemma bi_step_closing:
  assumes "bi_step E ep peer c alive ch (st, w) (st', w')" "bi_state_inv E G c ch w0 h st w"
    and "handles_held E alive" "bi_closing G c st w"
  shows "bi_closing G c st' w'"
  using assms(1)
proof cases
  case (serve s r acc before after)
  with assms(2) have "bi_open G c ch (rights (g_bi G w0 c)) (before @ (s, r) # after) w" by (simp add: bi_inv_def)
  from bi_iteration_incoming [OF this _ serve(3)] bi_closing_frame [of G w' c w] assms(4) serve show ?thesis by simp
next
  case (finish s r acc before after)
  with assms(2) have "bi_open G c ch (rights (g_bi G w0 c)) (before @ (s, r) # after) w" by (simp add: bi_inv_def)
  from bi_iteration_incoming [OF this _ finish(3)] assms(4) finish show ?thesis by (cases acc) simp_all
next
  case (accept s r running)
  with assms(2) have o: "bi_open G c ch (rights (g_bi G w0 c)) running w" by (simp add: bi_inv_def)
  from accept(3) have "q_next_bi E c w = (Some (Inr (s, r)), w')"
    by (rule filter_benign_close_inv) metis
  with next_bi_cases(3) [OF _ bi_open_live(3) [OF o]] have "g_bi G w c = Inr (s, r) # g_bi G w' c" by blast
  with accept assms(4) show ?thesis by simp
next
  case (no_more running)
  with assms(2) have o: "bi_open G c ch (rights (g_bi G w0 c)) running w" by (simp add: bi_inv_def)
  obtain z where z: "q_next_bi E c w = (z, w')"
    "z = None \<or> (\<exists>e. z = Some (Inl e) \<and> is_benign (ConnectionError_from_quinn e))"
    by (rule filter_benign_close_inv [OF no_more(3)]) blast
  note n = next_bi_cases [OF z(1) bi_open_live(3) [OF o]]
  from z(2) n(2,3) no_more assms(4) show ?thesis by (cases z) fastforce+
next
  case (fail e running)
  with assms(2) have o: "bi_open G c ch (rights (g_bi G w0 c)) running w" by (simp add: bi_inv_def)
  from fail(3) obtain e' where "q_next_bi E c w = (Some (Inl e'), w')" "\<not> is_benign (ConnectionError_from_quinn e')"
    by (auto simp: filter_benign_close_def Let_def split: prod.splits option.splits sum.splits if_splits)
  with next_bi_cases(3) [OF _ bi_open_live(3) [OF o]] fail assms(4) show ?thesis by fastforce
next
  case (dropped acc running)
  with assms(3) show ?thesis unfolding handles_held_def by (metis select_outcome.distinct(3,5,7,9))
qed (use assms(4) in simp)

lemma conn_run_closing:
  assumes "conn_run E G L (conn_rx G (lk_conn L) w0) (conn_start, w0) as y" "conn_ready G L w0"
    and "handles_held E (lk_alive L)" "bi_closes (g_bi G w0 (lk_conn L))"
  shows "bi_closing G (lk_conn L) (ct_bi (fst y)) (snd y)"
  using assms(1)
proof induction
  case start
  with assms(4) show ?case by (simp add: conn_start_def)
next
  case (step as y a z)
  from conn_run_ok(1) [OF step.hyps(1) assms(2)] obtain h results where
    inv: "conn_inv E G L w0 h results (fst y) (snd y)" by (auto simp: conn_ok_def)
  then have i: "bi_state_inv E G (lk_conn L) (lk_ch L) w0 h (ct_bi (fst y)) (snd y)"
    "lk_conn L \<in> g_live_conn G (snd y)" by (auto simp: conn_inv_def conn_live_def)
  from step.hyps(2) show ?case
  proof cases
    case (uni t w u' w')
    with inv conn_inv_uni [OF assms(2) _ uni(4,5)] have "g_bi G w' (lk_conn L) = g_bi G w (lk_conn L)"
      using i(2) by (auto simp: uni_guarantee_def)
    with uni step.IH bi_closing_frame [of G w' "lk_conn L" w] show ?thesis by simp
  next
    case (bi t w b' w')
    with i(1) step.IH bi_step_closing [OF bi(4) _ assms(3)] show ?thesis by simp
  next
    case (app w res w' t)
    with inv conn_inv_app(6) [OF assms(2) _ app(4,5)] i(2) have "g_bi G w' (lk_conn L) = g_bi G w (lk_conn L)"
      using unchanged_incoming(2) by fastforce
    with app step.IH bi_closing_frame [of G w' "lk_conn L" w] show ?thesis by simp
  next
    case (others w w' t)
    with step.IH bi_closing_frame [of G w' "lk_conn L" w] show ?thesis by (simp add: undisturbed_def)
  qed
qed

end

end
