(* ===== verification/Delivery.thy ===== *)
theory Delivery
  imports Peer_Props Connection_System
begin

text \<open>
  From one side to the other: what one side writes in one call is what the other side reads in
  one call, whatever was exchanged before; for the requests and replies of the RPCs, and for a
  message that the listener of the other side hands over.
\<close>

lemma runtime_framed:
  assumes "runtime_laws E G" and "bincode_laws E"
  shows "framed_stream_laws E (g_avail G) (g_fate G)" "send_stream_laws E (g_sent G)" "transport_laws E G"
  using assms by (simp_all add: framed_stream_laws_def transport_laws_def runtime_laws_def)

text \<open>What \<open>r\<close> has to deliver in \<open>v\<close> begins with what was written to \<open>s\<close> between \<open>w\<close> and \<open>w'\<close>.\<close>

definition carried :: "'w ghost \<Rightarrow> send_id \<Rightarrow> 'w \<Rightarrow> 'w \<Rightarrow> recv_id \<Rightarrow> 'w \<Rightarrow> bool" where
  "carried G s w w' r v \<longleftrightarrow> prefix (drop (length (g_sent G w s)) (g_sent G w' s)) (g_avail G v r)"

lemma carried_read:
  assumes "runtime_laws E G" and "bincode_laws E" and "write_to_stream E msg s w = (Inr (), w')"
    and "carried G s w w' r v" and "sendable msg"
  obtains v' where "read_from_stream E r v = (Inr (Some msg), v')"
proof -
  note laws = runtime_framed [OF assms(1,2)]
  obtain bs where "encode_frame E msg = Inr bs" "g_sent G w' s = g_sent G w s @ bs"
    using send_stream_laws.write_refines [OF laws(2) assms(3)] by auto
  moreover from this assms(4) obtain rest where "g_avail G v r = bs @ rest" by (auto simp: carried_def prefix_def)
  ultimately show thesis
    using framed_stream_laws.read_frame [OF laws(1) _ assms(5), of bs v r rest] that by blast
qed

lemma rpc_request_read:
  assumes "runtime_laws E G" and "bincode_laws E"
    and "open_bi E contact w = (Inr (cs, cr), w1)" and "send_wire_msg E cs req w1 = (Inr (), w2)"
    and "g_avail G v sr = g_sent G w2 cs" and "g_sent G v ss = []" and "ss \<in> g_live_tx G v"
    and "sendable req"
  obtains v1 where "read_from_stream E sr v = (Inr (Some req), v1)" "g_sent G v1 ss = []" "ss \<in> g_live_tx G v1"
proof -
  note t = runtime_framed(3) [OF assms(1,2)]
  have "g_sent G w1 cs = []"
    using assms(3) transport_laws.open_bi_new [OF t] by (auto simp: open_bi_def io_inv)
  with assms(5) have "carried G cs w1 w2 sr v" by (simp add: carried_def)
  then obtain v1 where v1: "read_from_stream E sr v = (Inr (Some req), v1)"
    by (rule carried_read [OF assms(1,2) assms(4) [unfolded send_wire_msg_def] _ assms(8)])
  from unchangedD(3,8) [OF keepsD [OF transport_laws.read_from_stream_keeps [OF t] v1] assms(7)] assms(6)
  show thesis by (intro that [OF v1]) simp_all
qed

lemma rpc_reply_read:
  assumes "runtime_laws E G" and "bincode_laws E"
    and "open_bi E contact w = (Inr (cs, cr), w1)" and "send_wire_msg E cs req w1 = (Inr (), w2)"
    and "\<not> t_expired E ECHO_SERVICE_QUERY_TIMEOUT w2"
    and "write_to_stream E resp ss v1 = (Inr (), v')" and "g_sent G v1 ss = []"
    and "g_avail G w2 cr = g_sent G v' ss" and "sendable resp"
  obtains w3 where "exchange E contact req w (Some resp) w3"
proof -
  from assms(7,8) have "carried G ss v1 v' cr w2" by (simp add: carried_def)
  then obtain w3 where "read_from_stream E cr w2 = (Inr (Some resp), w3)"
    by (rule carried_read [OF assms(1,2,6) _ assms(9)])
  with assms(3-5) have "exchange E contact req w (Some resp) w3"
    unfolding exchange_def next_wire_msg_def by blast
  with that show thesis .
qed

section \<open>A request served\<close>

text \<open>
  What the client wrote to \<open>cs\<close> between \<open>w\<close> and \<open>w'\<close> reaches the server on \<open>sr\<close>, its task serves
  the stream with a write that succeeds, and what it wrote to \<open>ss\<close> is there on \<open>cr\<close> in \<open>u\<close>; the
  check of an address has the outcome \<open>out\<close>.
\<close>

definition echo_served_back ::
  "'w env \<Rightarrow> 'w ghost \<Rightarrow> endpoint_id \<Rightarrow> SocketAddr \<Rightarrow> send_id \<times> recv_id \<Rightarrow> 'w \<Rightarrow> 'w \<Rightarrow> 'w \<Rightarrow> bool" where
  "echo_served_back E G endpoint peer = (\<lambda>(cs, cr) w w' u.
     \<exists>ss sr ch v go v'. carried G cs w w' sr v
       \<and> bi_iteration E endpoint peer ch ss sr v = (go, v')
       \<and> fst (write_to_stream E (EndpointEchoResp peer) ss (snd (read_from_stream E sr v))) = Inr ()
       \<and> carried G ss (snd (read_from_stream E sr v)) v' cr u)"

definition verification_served_back ::
  "'w env \<Rightarrow> 'w ghost \<Rightarrow> endpoint_id \<Rightarrow> SocketAddr \<Rightarrow> SocketAddr \<Rightarrow> unit + RpcError + unit
   \<Rightarrow> send_id \<times> recv_id \<Rightarrow> 'w \<Rightarrow> 'w \<Rightarrow> 'w \<Rightarrow> bool" where
  "verification_served_back E G endpoint peer addr out = (\<lambda>(cs, cr) w w' u.
     \<exists>ss sr ch v go v' v2. carried G cs w w' sr v
       \<and> bi_iteration E endpoint peer ch ss sr v = (go, v')
       \<and> with_timeout E ENDPOINT_VERIFICATION_TIMEOUT (verify_endpoint E endpoint addr)
           (snd (read_from_stream E sr v)) = (out, v2)
       \<and> fst (write_to_stream E (EndpointVerificationResp (out = Inr (Inr ()))) ss v2) = Inr ()
       \<and> carried G ss v2 v' cr u)"

lemma echo_served_back_read:
  assumes "runtime_laws E G" and "bincode_laws E" and "send_wire_msg E cs EndpointEchoReq w = (Inr (), w')"
    and "echo_served_back E G endpoint peer (cs, cr) w w' u" and "canonical_addr peer"
  obtains u' where "next_wire_msg E cr u = (Inr (Some (EndpointEchoResp peer)), u')"
proof -
  from assms(4) obtain ss sr ch v go v' where s: "carried G cs w w' sr v"
    "bi_iteration E endpoint peer ch ss sr v = (go, v')"
    "fst (write_to_stream E (EndpointEchoResp peer) ss (snd (read_from_stream E sr v))) = Inr ()"
    "carried G ss (snd (read_from_stream E sr v)) v' cr u" by (auto simp: echo_served_back_def)
  from s(1) obtain v1 where v1: "read_from_stream E sr v = (Inr (Some EndpointEchoReq), v1)"
    by (rule carried_read [OF assms(1,2) assms(3) [unfolded send_wire_msg_def]]) (simp add: sendable_def)
  with s(2,3) have "write_to_stream E (EndpointEchoResp peer) ss v1 = (Inr (), v')"
    by (auto simp: bi_iteration_def handle_endpoint_echo_def prod_eq_iff)
  then obtain u' where "read_from_stream E cr u = (Inr (Some (EndpointEchoResp peer)), u')"
    by (rule carried_read [OF assms(1,2)]) (use s(4) v1 assms(5) in \<open>simp_all add: sendable_def\<close>)
  with that show thesis by (simp add: next_wire_msg_def)
qed

lemma verification_served_back_read:
  assumes "runtime_laws E G" and "bincode_laws E"
    and "send_wire_msg E cs (EndpointVerificationReq addr) w = (Inr (), w')"
    and "verification_served_back E G endpoint peer addr out (cs, cr) w w' u" and "canonical_addr addr"
  obtains u' where "next_wire_msg E cr u = (Inr (Some (EndpointVerificationResp (out = Inr (Inr ())))), u')"
proof -
  let ?resp = "EndpointVerificationResp (out = Inr (Inr ()))"
  from assms(4) obtain ss sr ch v go v' v2 where s: "carried G cs w w' sr v"
    "bi_iteration E endpoint peer ch ss sr v = (go, v')"
    "with_timeout E ENDPOINT_VERIFICATION_TIMEOUT (verify_endpoint E endpoint addr) (snd (read_from_stream E sr v)) = (out, v2)"
    "fst (write_to_stream E ?resp ss v2) = Inr ()" "carried G ss v2 v' cr u"
    by (auto simp: verification_served_back_def)
  from s(1) obtain v1 where v1: "read_from_stream E sr v = (Inr (Some (EndpointVerificationReq addr)), v1)"
    by (rule carried_read [OF assms(1,2) assms(3) [unfolded send_wire_msg_def]]) (use assms(5) in \<open>simp add: sendable_def\<close>)
  with s(2-4) have "write_to_stream E ?resp ss v2 = (Inr (), v')"
    by (auto simp: bi_iteration_def handle_endpoint_verification_def Let_def prod_eq_iff verified_is_ok)
  then obtain u' where "read_from_stream E cr u = (Inr (Some ?resp), u')"
    by (rule carried_read [OF assms(1,2) _ s(5)]) (simp add: sendable_def)
  with that show thesis by (simp add: next_wire_msg_def)
qed

section \<open>A message handed over\<close>

lemma uni_items_frame:
  assumes "bincode_laws E" and "encode_frame E (UserMsg m) = Inr bs" and "m \<noteq> []"
  shows "uni_items E bs Finished = [Inr m]"
proof -
  have "uni_items E [] Finished = []" by (simp add: uni_items.simps decode_frame_def)
  moreover have "decode_frame E bs Finished = (Inr (Some (UserMsg m)), [])"
    using bincode_laws.decode_encode(1) [OF assms(1,2), of "[]"] assms(3) by simp
  ultimately show ?thesis by (simp add: uni_items.simps [of E bs])
qed

text \<open>
  The connection \<open>L\<close> was made in \<open>w0\<close>. The first stream that the peer opens on it carries what was
  written to \<open>s\<close> between \<open>w\<close> and \<open>w'\<close>, there are no bidirectional streams, and by \<open>u\<close> the listeners
  have handed over something, which the application has not taken yet.
\<close>

definition handed_over ::
  "'w env \<Rightarrow> 'w ghost \<Rightarrow> link \<Rightarrow> 'w \<Rightarrow> send_id \<Rightarrow> 'w \<Rightarrow> 'w \<Rightarrow> 'w \<Rightarrow> bool" where
  "handed_over E G L w0 s w w' u \<longleftrightarrow>
     conn_ready G L w0 \<and> g_log G w0 (lk_ch L) = [] \<and> g_taken G w0 (lk_ch L) = 0
     \<and> (\<exists>r rs. g_uni G w0 (lk_conn L) = Inr r # rs \<and> g_fate G w0 r = Finished
           \<and> g_avail G w0 r = drop (length (g_sent G w s)) (g_sent G w' s))
     \<and> rights (g_bi G w0 (lk_conn L)) = []
     \<and> (\<exists>as t. conn_run E G L (conn_rx G (lk_conn L) w0) (conn_start, w0) as (t, u) \<and> ct_got t = [])
     \<and> g_log G u (lk_ch L) \<noteq> []"

lemma sent_by_all: "fst ` set h \<subseteq> {k} \<Longrightarrow> sent_by k h = map snd h"
  by (induction h) (auto simp: sent_by_def)

context runtime_laws
begin

text \<open>Without bidirectional streams, the channel has a prefix of what the other streams carry.\<close>

lemma uni_only_log:
  assumes "conn_ready G L w0" and "conn_run E G L (conn_rx G (lk_conn L) w0) (conn_start, w0) as (t, w)"
    and "rights (g_bi G w0 (lk_conn L)) = []"
  obtains items where "g_log G w (lk_ch L) = g_log G w0 (lk_ch L) @ map uni_item items"
    "prefix items (uni_total E G (lk_conn L) w0)" "g_taken G w (lk_ch L) = g_taken G w0 (lk_ch L) + length (ct_got t)"
proof -
  from conn_run_ok(1) [OF assms(2,1)] obtain h results where inv: "conn_inv E G L w0 h results t w"
    by (auto simp: conn_ok_def)
  then have "prefix results (uni_total E G (lk_conn L) w0)" by (auto simp: conn_inv_def dest: uni_inv_prefix)
  moreover from inv assms(3) have "map snd h = map uni_item results"
    using sent_by_all [of h From_Uni] by (simp add: conn_inv_def)
  ultimately show thesis using inv that by (simp add: conn_inv_def)
qed

lemma handed_over_next:
  assumes "bincode_laws E" and "handed_over E G L w0 s w w' u"
    and "send_user_msg E s m w = (Inr (), w')" and "m \<noteq> []"
  obtains u' where "ConnectionIncoming_next E (lk_incoming L) u = (Inr (Some m), u')"
proof -
  let ?ch = "lk_ch L"
  from assms(2) obtain r rs as t where h: "conn_ready G L w0" "g_log G w0 ?ch = []" "g_taken G w0 ?ch = 0"
    "g_uni G w0 (lk_conn L) = Inr r # rs" "g_fate G w0 r = Finished"
    "g_avail G w0 r = drop (length (g_sent G w s)) (g_sent G w' s)" "rights (g_bi G w0 (lk_conn L)) = []"
    "conn_run E G L (conn_rx G (lk_conn L) w0) (conn_start, w0) as (t, u)" "ct_got t = []" "g_log G u ?ch \<noteq> []"
    unfolding handed_over_def by blast
  obtain items where items: "g_log G u ?ch = map uni_item items" "prefix items (uni_total E G (lk_conn L) w0)"
    "g_taken G u ?ch = 0"
    by (rule uni_only_log [OF h(1,8,7)]) (use h(2,3,9) in simp)
  obtain bs where bs: "encode_frame E (UserMsg m) = Inr bs" "g_sent G w' s = g_sent G w s @ bs"
    using write_refines [OF assms(3) [unfolded send_user_msg_def]] by auto
  with h(4-6) uni_items_frame [OF assms(1) bs(1) assms(4)] obtain more where
    "uni_total E G (lk_conn L) w0 = Inr m # more" by (simp add: uni_total_def)
  with items h(10) obtain items' where "items = Inr m # items'" by (cases items) auto
  with items(1,3) obtain u' where "next_with_stream E (lk_incoming L) u = (Inr (Some (m, None)), u')"
    using next_with_stream_item [of u "lk_incoming L"] by (auto simp: uni_item_def)
  with that show thesis by (simp add: ConnectionIncoming_next_def)
qed

end

section \<open>Requests served in memory\<close>

lemma echo_served:
  shows "read_from_stream net_env 3 echo_world =
      (Inr (Some EndpointEchoReq), echo_world\<lparr>n_rx := (n_rx echo_world)(3 := ([[]], Finished))\<rparr>)"
    and "\<exists>v'. write_to_stream net_env (EndpointEchoResp (V4 (Ipv4 10 0 0 2) 7000)) 8
      (echo_world\<lparr>n_rx := (n_rx echo_world)(3 := ([[]], Finished))\<rparr>) = (Inr (), v') \<and> n_tx v' 8 = echo_reply"
proof -
  have "n_rx echo_world 3 = ([[0, 1, 0, 0, 0, 4, 1, 0, 0, 0], [0, 0, 0]], Finished)"
    by (simp add: echo_world_def)
  then show "read_from_stream net_env 3 echo_world =
      (Inr (Some EndpointEchoReq), echo_world\<lparr>n_rx := (n_rx echo_world)(3 := ([[]], Finished))\<rparr>)"
    by (simp add: net_read_defs bc_deserialize_def bc_body_def)
  have "n_tx echo_world 8 = []" "n_tx_limit echo_world 8 = None"
    by (simp_all add: echo_world_def net_init_def)
  then show "\<exists>v'. write_to_stream net_env (EndpointEchoResp (V4 (Ipv4 10 0 0 2) 7000)) 8
      (echo_world\<lparr>n_rx := (n_rx echo_world)(3 := ([[]], Finished))\<rparr>) = (Inr (), v') \<and> n_tx v' 8 = echo_reply"
    by (simp add: write_to_stream_def MsgHeader_new_def net_write_all_def Let_def le_bytes_4_small le_bytes_2
      MsgHeader_to_bytes_def u16_to_be_bytes_def u32_to_be_bytes_def MSG_PROTOCOL_VERSION_def
      ECHO_SRVC_MSG_FLAG_def echo_reply_def)
qed

text \<open>A server that is asked to verify an address at which a peer answers.\<close>

definition verifying :: net where
  "verifying = verification_world\<lparr>n_dial := (\<lambda>a. Inr (Inr 1)), n_reply := (\<lambda>c r. ([echo_reply], Finished))\<rparr>"

abbreviation verifying_read :: net where
  "verifying_read \<equiv> verifying\<lparr>n_rx := (n_rx verifying)(3 := ([[]], Finished))\<rparr>"

lemma verifying_reads:
  "read_from_stream net_env 3 verifying =
     (Inr (Some (EndpointVerificationReq (V4 (Ipv4 10 0 0 2) 7000))), verifying_read)"
proof -
  have "n_rx verifying 3 = ([[0, 1, 0, 0, 0, 14, 1, 0, 0, 2, 0, 0, 0, 0, 0, 0, 0, 10, 0, 0, 2, 88, 27]], Finished)"
    by (simp add: verifying_def verification_world_def)
  then show ?thesis by (simp add: net_read_defs bc_deserialize_def bc_body_def bc_read_addr_def)
qed

lemma verifying_verifies:
  "\<exists>v. verify_endpoint net_env endpoint (V4 (Ipv4 10 0 0 2) 7000) verifying_read = (Inr (), v)
     \<and> n_tx v 8 = [] \<and> n_tx_limit v 8 = None"
  by (simp add: verify_endpoint_def verifying_def verification_world_def net_init_def net_connect_def net_connecting_def
      net_open_bi_def write_to_stream_def le_bytes_4_small MsgHeader_new_def net_write_all_def
      Let_def net_read_echo_reply)

lemma net_write_verdict:
  assumes "n_tx w 8 = []" "n_tx_limit w 8 = None"
  shows "write_to_stream net_env (EndpointVerificationResp valid) 8 w =
    (Inr (), w\<lparr>n_tx := (n_tx w)(8 := verdict_reply valid)\<rparr>)"
  using assms
  by (simp add: write_to_stream_def MsgHeader_new_def net_write_all_def Let_def le_bytes_4_small
      MsgHeader_to_bytes_def u16_to_be_bytes_def u32_to_be_bytes_def MSG_PROTOCOL_VERSION_def
      ECHO_SRVC_MSG_FLAG_def verdict_reply_def)

end
