(* ===== verification/Test_Props.thy ===== *)
theory Test_Props
  imports Connection_Tests Delivery
begin

text \<open>
  The unit tests of \<open>src/connection.rs\<close> pass, over any transport and channels that obey their
  laws, when the set-up succeeds and the transport carries what was written to the other side
  in time. Each theorem composes what was shown of the two sides.
\<close>

section \<open>The tests pass\<close>

lemma fold_drop [simp]: "dropped X hs w = (Inr (), fold (x_drop X) hs w)"
  by (simp add: dropped_def)

lemma failing_ok: "m w = (Inr x, w') \<Longrightarrow> failing report m w = (Inr x, w')"
  by (simp add: failing_def)

lemma in_time_ok: "\<not> t_expired E (from_millis 500) w \<Longrightarrow> f w = (Inr x, w') \<Longrightarrow> in_time E report f w = (Inr x, w')"
  by (simp add: in_time_def tests_timeout_def with_timeout_def failing_def io_bind_def io_map_err_def)

text \<open>Both endpoints become idle in time, one after the other, and then the test has passed.\<close>

definition idle_in_time :: "'w env \<Rightarrow> 'w test_env \<Rightarrow> endpoint_id \<Rightarrow> 'w \<Rightarrow> bool" where
  "idle_in_time E X peer1 w \<longleftrightarrow>
     \<not> t_expired E (from_millis 500) w \<and> \<not> t_expired E (from_millis 500) (x_wait_idle X peer1 w)"

lemma idle_peers_ok:
  "idle_in_time E X peer1 w \<Longrightarrow>
     idle_peers E X peer1 peer2 w = (Inr (), x_wait_idle X peer2 (x_wait_idle X peer1 w))"
  by (simp add: idle_in_time_def idle_peers_def tests_timeout_def with_timeout_def failing_def io_bind_def
      io_map_err_def io_do_def)

lemma expect_msg_ok:
  "\<not> t_expired E (from_millis 500) w \<Longrightarrow> next_wire_msg E r w = (Inr (Some msg), w') \<Longrightarrow> expect_msg E r w = (Inr msg, w')"
  by (simp add: expect_msg_def in_time_ok)



text \<open>All senders of the channel are gone: nothing is added to it while somebody waits for an item.\<close>

definition no_more_items :: "'w env \<Rightarrow> 'w ghost \<Rightarrow> chan_id \<Rightarrow> 'w \<Rightarrow> bool" where
  "no_more_items E G ch w \<longleftrightarrow>
     (\<forall>item w'. t_msg_recv E ch w = (Some item, w') \<longrightarrow> g_log G w' ch = g_log G w ch)"

context runtime_laws
begin

lemma no_item_received:
  assumes "no_more_items E G (message_rx rx) w" and "g_log G w (message_rx rx) = []"
  shows "\<exists>w'. ConnectionIncoming_next E rx w = (Inr None, w')"
proof (cases "t_msg_recv E (message_rx rx) w")
  case (Pair item w')
  then have "item = None"
  proof (cases item)
    case (Some x)
    with Pair assms(1) have "g_log G w' (message_rx rx) = []" using assms(2) by (simp add: no_more_items_def)
    with msg_recv_some Pair Some show ?thesis by fastforce
  qed simp
  with Pair show ?thesis by (simp add: ConnectionIncoming_next_def next_with_stream_def io_bind_def)
qed

end

text \<open>
  C16. The test of a connection that is lost in a benign way passes. Let the connection time out
  without a stream opened on it. Then sending fails with exactly that error, without a retry; and
  whatever steps the listeners of the other side took, they have handed over neither a message
  nor the error, so that receiving there, once they are gone, gives \<open>None\<close>.
\<close>

theorem loss_test_passes:
  assumes "runtime_laws E G"
    and "loss_setup E T X w = (Inr (p1_tx, p2_rx), w0)" and "x_sleep X (from_secs 2) w0 = w1"
    and "q_open_uni E (conn_inner p1_tx) w1 = (Inl Q_TimedOut, w2)"
    and "lk_incoming L = p2_rx" and "conn_ready G L w0" and "g_log G w0 (lk_ch L) = []"
    and "g_uni G w0 (lk_conn L) = [Inl Q_TimedOut]" and "g_bi G w0 (lk_conn L) = [Inl Q_TimedOut]"
    and "conn_run E G L (conn_rx G (lk_conn L) w0) (conn_start, w0) as (t, w2)"
    and "no_more_items E G (lk_ch L) w2"
  shows "\<exists>w'. benign_connection_loss E T X w = (Inr (), w')"
proof -
  have "default_retry_config p1_tx = None"
    using assms(2) by (auto simp: loss_setup_def test_connect_def Connection_new_def io_inv io_lift_def Let_def
        split: prod.splits)
  with assms(4) have sent: "send E p1_tx (into_bytes ''hello'') w1 =
      (Inl (SendError.ConnectionLost ConnectionError.TimedOut), w2)"
    by (simp add: send_def send_with_def send_uni_def open_uni_def)
  have none: "uni_total E G (lk_conn L) w0 = []" using assms(8) by (simp add: uni_total_def)
  have "g_log G w2 (lk_ch L) = []"
    by (rule runtime_laws.uni_only_log [OF assms(1,6,10)]) (use assms(7,9) none in simp_all)
  with runtime_laws.no_item_received [OF assms(1)] assms(5,11) obtain w3 where
    "ConnectionIncoming_next E p2_rx w2 = (Inr None, w3)" by blast
  with sent show ?thesis by (auto simp: benign_connection_loss_def loss_check_def io_match_def assms(2,3))
qed

text \<open>
  The test of the echo RPC passes: if the request is served and the answer is back in time,
  and the other endpoint has for the connection the address that the first one is bound to, then
  the assertion holds, and the test succeeds when the two endpoints become idle in time.
\<close>

theorem echo_test_passes:
  assumes "runtime_laws E G" and "bincode_laws E"
    and "test_peers E T Config_default w = (Inr (config, peer1, peer2), w0)"
    and "rpc_setup E X peer1 peer2 w0 = (Inr (p1_tx, p2_conn, p2_incoming), w1)"
    and "open_bi E p1_tx w1 = (Inr (cs, cr), w2)"
    and "send_wire_msg E cs EndpointEchoReq w2 = (Inr (), w3)"
    and "\<not> t_expired E (from_millis 500) w3"
    and "echo_served_back E G peer2 addr (cs, cr) w2 w3 w3"
    and "q_local_addr E peer1 (snd (next_wire_msg E cr w3)) = (Inr addr, w4)" and "canonical_addr addr"
    and "fold (x_drop X) [H_Recv cr, H_Send cs, H_Conn p2_conn, H_Incoming p2_incoming, H_Conn p1_tx] w4 = w5"
    and "idle_in_time E X peer1 w5"
  shows "test_endpoint_echo E T X w = (Inr (), x_wait_idle X peer2 (x_wait_idle X peer1 w5))"
proof -
  obtain u where u: "next_wire_msg E cr w3 = (Inr (Some (EndpointEchoResp addr)), u)"
    by (rule echo_served_back_read [OF assms(1,2,6,8,10)])
  with assms(9) have "echo_check E peer1 p1_tx w1 = (Inr (cs, cr), w4)"
    by (simp add: echo_check_def failing_ok assms(5,6) expect_msg_ok [OF assms(7) u] assert_eq_def)
  then have "test_endpoint_echo E T X w = idle_peers E X peer1 peer2 w5"
    by (simp add: test_endpoint_echo_def assms(3,4) assms(11) [symmetric])
  with idle_peers_ok [OF assms(12)] show ?thesis by simp
qed


section \<open>The tests run in memory\<close>

definition test_world :: net where
  "test_world = net_init\<lparr>n_local := V4 (Ipv4 10 0 0 2) 7000, n_dial := (\<lambda>a. Inr (Inr 5)),
     n_arrivals := (\<lambda>ep. [2]), n_dialling := (\<lambda>i. Inr 6)\<rparr>"

lemmas net_setup_defs = test_connect_def test_accept_def in_time_def tests_timeout_def with_timeout_def
  next_established_def failing_def Connection_new_def ConnectionIncoming_new_def start_message_listeners_def
  net_connect_def net_connecting_def net_fresh_def net_msg_channel_def pop_def Let_def

lemma net_test_peers:
  obtains config where "test_peers net_env net_tls cfg w =
    (Inr (config, n_next w, Suc (n_next w)), w\<lparr>n_next := Suc (Suc (n_next w))\<rparr>)"
  using net_config [of cfg]
  by (auto simp: test_peers_def checked_config_def failing_def net_fresh_def)

text \<open>The two endpoints are 10 and 11, the connections 5 and 6, and their channels 14 and 16.\<close>

definition test_script :: "net \<Rightarrow> bool" where
  "test_script w \<longleftrightarrow> n_next w = 10 \<and> \<not> n_slow w \<and> n_dial w = (\<lambda>a. Inr (Inr 5)) \<and> n_arrivals w = (\<lambda>ep. [2])
     \<and> n_dialling w = (\<lambda>i. Inr 6) \<and> n_log w = (\<lambda>c. []) \<and> n_taken w = (\<lambda>c. 0) \<and> n_rx_open w = (\<lambda>c. True)"

definition test_tx1 :: Connection where
  "test_tx1 = \<lparr>conn_inner = 5, default_retry_config = None, conn_alive_tx = 13\<rparr>"

definition test_rx1 :: ConnectionIncoming where
  "test_rx1 = \<lparr>message_rx = 14, incoming_alive_tx = 13\<rparr>"

definition test_tx2 :: Connection where
  "test_tx2 = \<lparr>conn_inner = 6, default_retry_config = None, conn_alive_tx = 15\<rparr>"

definition test_rx2 :: ConnectionIncoming where
  "test_rx2 = \<lparr>message_rx = 16, incoming_alive_tx = 15\<rparr>"

lemmas test_peer_defs = test_tx1_def test_rx1_def test_tx2_def test_rx2_def

abbreviation connected :: "net \<Rightarrow> task list \<Rightarrow> net" where
  "connected w ts \<equiv> w\<lparr>n_dialling := (\<lambda>i. Inr 6)(12 := Inr 5), n_next := 15, n_tasks := ts\<rparr>"

abbreviation accepted :: "net \<Rightarrow> task list \<Rightarrow> net" where
  "accepted w ts \<equiv> w\<lparr>n_dialling := (\<lambda>i. Inr 6)(12 := Inr 5), n_arrivals := (\<lambda>ep. [2])(11 := []),
     n_next := 17, n_tasks := ts\<rparr>"

lemma const_upd: "(\<lambda>c. x)(k := x) = (\<lambda>c. x)"
  by auto

lemma net_test_setup:
  assumes "test_script w"
  obtains config ts1 ts2 where
    "test_peers net_env net_tls cfg w = (Inr (config, 10, 11), w\<lparr>n_next := 12\<rparr>)"
    "test_connect net_env 10 11 (w\<lparr>n_next := 12\<rparr>) = (Inr (test_tx1, test_rx1), connected w ts1)"
    "test_accept net_env 11 (connected w ts1) = (Inr (test_tx2, test_rx2), accepted w ts2)"
proof -
  from assms have w: "n_next w = 10" "\<not> n_slow w" "n_dial w = (\<lambda>a. Inr (Inr 5))" "n_arrivals w = (\<lambda>ep. [2])"
    "n_dialling w = (\<lambda>i. Inr 6)" "n_log w = (\<lambda>c. [])" "n_taken w = (\<lambda>c. 0)" "n_rx_open w = (\<lambda>c. True)"
    by (simp_all add: test_script_def)
  obtain config where peers: "test_peers net_env net_tls cfg w = (Inr (config, 10, 11), w\<lparr>n_next := 12\<rparr>)"
    by (rule net_test_peers [of cfg w]) (simp add: w)
  have "\<exists>ts. test_connect net_env 10 11 (w\<lparr>n_next := 12\<rparr>) = (Inr (test_tx1, test_rx1), connected w ts)"
    using w by (simp add: net_setup_defs test_peer_defs const_upd) (intro exI, (rule net.equality; simp))
  then obtain ts1 where c: "test_connect net_env 10 11 (w\<lparr>n_next := 12\<rparr>) = (Inr (test_tx1, test_rx1), connected w ts1)"
    by blast
  have "\<exists>ts. test_accept net_env 11 (connected w ts1) = (Inr (test_tx2, test_rx2), accepted w ts)"
    using w by (simp add: net_setup_defs test_peer_defs const_upd) (intro exI, (rule net.equality; simp))
  then show thesis using that peers c by blast
qed

definition times_out :: "net test_env" where
  "times_out = \<lparr>x_sleep = (\<lambda>d w. w\<lparr>n_in_uni := (n_in_uni w)(6 := []), n_in_bi := (n_in_bi w)(6 := []),
                                       n_lost := (\<lambda>c. Some Q_TimedOut)\<rparr>),
                x_wait_idle = (\<lambda>ep w. w), x_drop = (\<lambda>h w. w)\<rparr>"

definition timing_out :: net where
  "timing_out = test_world\<lparr>n_in_uni := (\<lambda>c. [Inl Q_TimedOut]), n_in_bi := (\<lambda>c. [Inl Q_TimedOut])\<rparr>"

definition test_link2 :: link where
  "test_link2 = \<lparr>lk_endpoint = 11, lk_peer = V4 (Ipv4 127 0 0 1) 5000, lk_conn = 6, lk_incoming = test_rx2\<rparr>"

lemma timing_out_run:
  "conn_run net_env net_ghost test_link2 (conn_rx net_ghost (lk_conn test_link2) (accepted timing_out ts)) (conn_start, accepted timing_out ts)
     [By_Uni, By_Bi, By_Others]
     (\<lparr>ct_uni = U_Stopped, ct_bi = B_Serving False [], ct_got = []\<rparr>, x_sleep times_out d (accepted timing_out ts))"
proof -
  let ?w = "accepted timing_out ts"
  let ?u = "?w\<lparr>n_in_uni := (n_in_uni ?w)(6 := [])\<rparr>"
  let ?b = "?u\<lparr>n_in_bi := (n_in_bi ?w)(6 := [])\<rparr>"
  let ?t = "conn_start\<lparr>ct_uni := U_Stopped\<rparr>"
  let ?rx = "conn_rx net_ghost (lk_conn test_link2) ?w"
  have u: "conn_step net_env net_ghost test_link2 ?rx (conn_start, ?w) By_Uni (?t, ?u)"
    by (rule conn_step.uni) (simp_all add: conn_start_def uni_advance_def uni_poll_def filter_benign_close_def
        timing_out_def test_link2_def pop_def)
  have b: "conn_step net_env net_ghost test_link2 ?rx (?t, ?u) By_Bi (?t\<lparr>ct_bi := B_Serving False []\<rparr>, ?b)"
    by (rule conn_step.bi) (simp add: conn_start_def, rule bi_step.no_more,
        simp add: filter_benign_close_def timing_out_def test_link2_def pop_def)
  have o: "conn_step net_env net_ghost test_link2 ?rx (?t\<lparr>ct_bi := B_Serving False []\<rparr>, ?b) By_Others
      (?t\<lparr>ct_bi := B_Serving False []\<rparr>, x_sleep times_out d ?w)"
    by (rule conn_step.others) (simp add: undisturbed_def same_streams_def times_out_def)
  from conn_run.step [OF conn_run.step [OF conn_run.step [OF conn_run.start u] b] o]
  show ?thesis by (simp add: conn_start_def)
qed

theorem loss_test_passes_witness:
  "\<exists>w'. benign_connection_loss net_env net_tls times_out timing_out = (Inr (), w')"
proof -
  have "test_script timing_out" by (simp add: test_script_def timing_out_def test_world_def net_init_def)
  then obtain config ts1 ts where
    "test_peers net_env net_tls (Config_default\<lparr>cfg_idle_timeout := Some (from_secs 1)\<rparr>) timing_out =
       (Inr (config, 10, 11), timing_out\<lparr>n_next := 12\<rparr>)"
    "test_connect net_env 10 11 (timing_out\<lparr>n_next := 12\<rparr>) = (Inr (test_tx1, test_rx1), connected timing_out ts1)"
    "test_accept net_env 11 (connected timing_out ts1) = (Inr (test_tx2, test_rx2), accepted timing_out ts)"
    by (rule net_test_setup)
  then have start: "loss_setup net_env net_tls times_out timing_out = (Inr (test_tx1, test_rx2), accepted timing_out ts)"
    by (simp add: loss_setup_def times_out_def)
  show ?thesis
    by (rule loss_test_passes [OF net_runtime.runtime_laws_axioms start refl, where L = test_link2,
          OF _ _ _ _ _ _ timing_out_run])
      (simp_all add: test_link2_def test_peer_defs timing_out_def test_world_def net_init_def times_out_def net_open_uni_def
        conn_ready_def conn_live_def conn_rx_def no_more_items_def net_msg_recv_def)
qed

definition quiet :: "net test_env" where
  "quiet = \<lparr>x_sleep = (\<lambda>d w. w), x_wait_idle = (\<lambda>ep w. w), x_drop = (\<lambda>h w. w)\<rparr>"

definition answering :: "bytes \<Rightarrow> net" where
  "answering reply = test_world\<lparr>n_reply := (\<lambda>c r. ([reply], Finished))\<rparr>"

text \<open>The stream 17 that the tests open, with what was written to it and what it has to deliver.\<close>

abbreviation streaming :: "net \<Rightarrow> bytes \<Rightarrow> bytes \<Rightarrow> net" where
  "streaming w written reply \<equiv> w\<lparr>n_tx := (\<lambda>s. [])(17 := written), n_rx := (\<lambda>r. ([], Finished))(17 := ([reply], Finished)), n_next := 18\<rparr>"

lemma answering_start:
  obtains config ts where
    "test_peers net_env net_tls Config_default (answering reply) = (Inr (config, 10, 11), (answering reply)\<lparr>n_next := 12\<rparr>)"
    "rpc_setup net_env quiet 10 11 ((answering reply)\<lparr>n_next := 12\<rparr>) = (Inr (test_tx1, test_tx2, test_rx2), accepted (answering reply) ts)"
    "open_bi net_env test_tx1 (accepted (answering reply) ts) = (Inr (17, 17), streaming (accepted (answering reply) ts) [] reply)"
proof -
  have "test_script (answering reply)" by (simp add: test_script_def answering_def test_world_def net_init_def)
  then obtain config ts1 ts where t:
    "test_peers net_env net_tls Config_default (answering reply) = (Inr (config, 10, 11), (answering reply)\<lparr>n_next := 12\<rparr>)"
    "test_connect net_env 10 11 ((answering reply)\<lparr>n_next := 12\<rparr>) = (Inr (test_tx1, test_rx1), connected (answering reply) ts1)"
    "test_accept net_env 11 (connected (answering reply) ts1) = (Inr (test_tx2, test_rx2), accepted (answering reply) ts)"
    by (rule net_test_setup)
  then have "rpc_setup net_env quiet 10 11 ((answering reply)\<lparr>n_next := 12\<rparr>) =
      (Inr (test_tx1, test_tx2, test_rx2), accepted (answering reply) ts)"
    by (simp add: rpc_setup_def quiet_def)
  moreover have "open_bi net_env test_tx1 (accepted (answering reply) ts) =
      (Inr (17, 17), streaming (accepted (answering reply) ts) [] reply)"
    by (simp add: open_bi_def net_open_bi_def test_tx1_def answering_def test_world_def net_init_def)
  ultimately show thesis using t(1) that by blast
qed

abbreviation echo_request :: bytes where
  "echo_request \<equiv> [0, 1, 0, 0, 0, 4, 1, 0, 0, 0, 0, 0, 0]"

lemma net_write_echo_request:
  assumes "n_tx w s = []" "n_tx_limit w s = None"
  shows "write_to_stream net_env EndpointEchoReq s w = (Inr (), w\<lparr>n_tx := (n_tx w)(s := echo_request)\<rparr>)"
  using assms by (simp add: write_to_stream_def MsgHeader_new_def net_write_all_def Let_def le_bytes_4_small
      MsgHeader_to_bytes_def u16_to_be_bytes_def u32_to_be_bytes_def MSG_PROTOCOL_VERSION_def ECHO_SRVC_MSG_FLAG_def)

lemma echo_world_serves:
  assumes "n_tx w 17 = []" "n_tx w' 17 = echo_request" "fst (n_rx u 17) = [echo_reply]"
  shows "echo_served_back net_env net_ghost endpoint (V4 (Ipv4 10 0 0 2) 7000) (17, 17) w w' u"
proof -
  obtain v' where v': "write_to_stream net_env (EndpointEchoResp (V4 (Ipv4 10 0 0 2) 7000)) 8
      (echo_world\<lparr>n_rx := (n_rx echo_world)(3 := ([[]], Finished))\<rparr>) = (Inr (), v')" "n_tx v' 8 = echo_reply"
    using echo_served(2) by blast
  then have "bi_iteration net_env endpoint (V4 (Ipv4 10 0 0 2) 7000) 5 8 3 echo_world = (True, v')"
    by (simp add: bi_iteration_def handle_endpoint_echo_def echo_served(1))
  moreover have "n_tx echo_world 8 = []" "concat (fst (n_rx echo_world 3)) = echo_request"
    by (simp_all add: echo_world_def net_init_def)
  then have "carried net_ghost 17 w w' 3 echo_world"
    "carried net_ghost 8 (snd (read_from_stream net_env 3 echo_world)) v' 17 u"
    using v' assms by (simp_all add: carried_def echo_served(1))
  moreover have "fst (write_to_stream net_env (EndpointEchoResp (V4 (Ipv4 10 0 0 2) 7000)) 8
      (snd (read_from_stream net_env 3 echo_world))) = Inr ()" using v' by (simp add: echo_served(1))
  ultimately show ?thesis unfolding echo_served_back_def prod.case by blast
qed

lemma quiet_idle: "\<not> n_slow w \<Longrightarrow> idle_in_time net_env quiet p (fold (x_drop quiet) hs w)"
proof -
  have "fold (x_drop quiet) hs w = w" by (induction hs) (simp_all add: quiet_def)
  moreover assume "\<not> n_slow w"
  ultimately show ?thesis by (simp add: idle_in_time_def quiet_def)
qed

theorem echo_test_passes_witness:
  "\<exists>w'. test_endpoint_echo net_env net_tls quiet (answering echo_reply) = (Inr (), w')"
proof -
  obtain config ts where start:
    "test_peers net_env net_tls Config_default (answering echo_reply) = (Inr (config, 10, 11), (answering echo_reply)\<lparr>n_next := 12\<rparr>)"
    "rpc_setup net_env quiet 10 11 ((answering echo_reply)\<lparr>n_next := 12\<rparr>) = (Inr (test_tx1, test_tx2, test_rx2), accepted (answering echo_reply) ts)"
    "open_bi net_env test_tx1 (accepted (answering echo_reply) ts) = (Inr (17, 17), streaming (accepted (answering echo_reply) ts) [] echo_reply)"
    by (rule answering_start)
  let ?w = "streaming (accepted (answering echo_reply) ts)"
  have sent: "send_wire_msg net_env 17 EndpointEchoReq (?w [] echo_reply) = (Inr (), ?w echo_request echo_reply)"
    by (simp add: send_wire_msg_def net_write_echo_request answering_def test_world_def net_init_def)
  have world: "\<not> n_slow (answering echo_reply)" "n_local (answering echo_reply) = V4 (Ipv4 10 0 0 2) 7000"
    by (simp_all add: answering_def test_world_def net_init_def)
  have "next_wire_msg net_env 17 (?w echo_request echo_reply) =
      (Inr (Some (EndpointEchoResp (V4 (Ipv4 10 0 0 2) 7000))), ?w echo_request [])"
    by (simp add: next_wire_msg_def net_read_echo_reply)
  then have loc: "q_local_addr net_env 10 (snd (next_wire_msg net_env 17 (?w echo_request echo_reply))) =
      (Inr (V4 (Ipv4 10 0 0 2) 7000), ?w echo_request [])" using world(2) by simp
  have "\<not> n_slow (?w echo_request [])" using world(1) by simp
  note idle = quiet_idle [OF this]
  from echo_test_passes [OF net_runtime.runtime_laws_axioms net_bincode.bincode_laws_axioms start sent _ _ loc _ refl idle]
  show ?thesis using world(1) by (auto simp: echo_world_serves)
qed




























end
