(* ===== verification/Connecting.thy ===== *)
theory Connecting
  imports Endpoint_Props
begin

text \<open>
  Connections as they are made: the two halves that the program hands out belong together, and
  bootstrapping takes the connection that one of the addresses gave. The RPCs of an endpoint leave
  everything that was there alone.
\<close>

section \<open>The two halves of a connection\<close>

text \<open>
  Both halves hold the same \<open>alive\<close> channel, so that the listeners run until both are dropped;
  and the receiving half is the open end of a channel that nothing was taken from.
\<close>

fun well_formed :: "'w ghost \<Rightarrow> 'w \<Rightarrow> Connection \<times> ConnectionIncoming \<Rightarrow> bool" where
  "well_formed G w (conn, inc) \<longleftrightarrow> conn_alive_tx conn = incoming_alive_tx inc
     \<and> message_rx inc \<in> g_live_ch G w \<and> g_rx_open G w (message_rx inc)
     \<and> g_taken G w (message_rx inc) = 0"

context connection_laws
begin

lemma formed_Connection_new:
  assumes "Connection_new E ep rc c w = (p, w')"
  shows "well_formed G w' p"
proof -
  obtain conn inc where p: "p = (conn, inc)" by fastforce
  obtain alive w1 where w1: "t_watch_channel E w = (alive, w1)" by fastforce
  from assms w1 p have new: "ConnectionIncoming_new E ep (q_remote_address E c w1) c alive w1 = (inc, w')"
    by (auto simp: Connection_new_def Let_def split: prod.splits)
  from ConnectionIncoming_new_channel [OF new] Connection_new_halves(3) [OF assms [unfolded p]] p
  show ?thesis by simp
qed

lemma connect_to_formed:
  assumes "connect_to E self addr w = (Inr p, w')"
  shows "well_formed G w' p"
proof -
  obtain w1 where "connect_attempt E self addr w1 = (Inr p, w')"
    using new_connection_attempt [OF assms [unfolded connect_to_def]] by auto
  then show ?thesis by (auto simp: connect_attempt_def io_inv dest: formed_Connection_new)
qed

lemma rpc_keeps:
  assumes "\<And>reply. keeps G {} {} {} (f reply)"
  shows "keeps G {} {} {} (io_bind (io_map_err g (open_bi E contact)) (\<lambda>(s, r).
           io_bind (io_map_err h (send_wire_msg E s req)) (\<lambda>_. io_bind (await_reply E r) f)))"
  unfolding open_bi_def io_map_err_comp
  by (rule keeps_open_bi)
    (auto simp: send_wire_msg_def await_reply_def next_wire_msg_def
      intro!: keeps_intros with_timeout_keeps keeps_mono [OF write_to_stream_keeps]
        keeps_mono [OF read_from_stream_keeps] keeps_mono [OF assms])

lemma endpoint_echo_keeps: "keeps G {} {} {} (endpoint_echo E self contact)"
  unfolding endpoint_echo_def by (rule rpc_keeps) (auto intro!: keeps_intros split: option.splits WireMsg.splits)

lemma endpoint_verification_keeps: "keeps G {} {} {} (endpoint_verification E self contact addr)"
  unfolding endpoint_verification_def by (rule rpc_keeps) (auto intro!: keeps_intros split: option.splits WireMsg.splits)

end

section \<open>Bootstrapping\<close>

text \<open>The transport does not let the endpoint connect to an address, at once or when the handshake fails.\<close>

definition refused :: "'w env \<Rightarrow> Endpoint \<Rightarrow> SocketAddr \<Rightarrow> 'w \<Rightarrow> bool" where
  "refused E self addr w \<longleftrightarrow>
     (case q_connect E (quinn_endpoint self) addr SERVER_NAME w of
        (Inl error, w1) \<Rightarrow> True
      | (Inr connecting, w1) \<Rightarrow> isl (fst (q_connecting E connecting w1)))"

context connection_laws
begin

lemma new_connection_keeps: "keeps G {} {} {} (new_connection E self addr)"
proof (rule keepsI)
  fix w res w'
  assume "new_connection E self addr w = (res, w')"
  then obtain w1 where "unchanged G {} {} {} w w1"
    "case res of Inr x \<Rightarrow> connect_attempt E self addr w1 = (Inr x, w')
     | Inl e \<Rightarrow> connect_attempt E self addr w1 = (Inl (Transient e), w')"
    by (rule new_connection_attempt)
  then show "unchanged G {} {} {} w w'"
    by (cases res) (auto intro: unchanged_trans dest!: keepsD [OF connect_attempt_keeps])
qed

lemma new_connection_refused:
  assumes "new_connection E self addr w = (Inl e, w')"
  obtains w1 where "unchanged G {} {} {} w w1" "refused E self addr w1"
  using new_connection_err [OF assms] that by (auto simp: refused_def)

end

text \<open>
  C26. Bootstrapping. What \<open>connect_to_any\<close> returns is a connection that the transport established,
  during this call, to one of the given addresses under the fixed server name. It carries the
  endpoint's retry settings, shares its \<open>alive\<close> channel with its receiving half, and that half has a
  new channel, open and empty when the call returns. It returns none only if each of the
  addresses, during this call, was refused by the transport; with no addresses it does nothing at
  all. Nothing that was there before is changed.
\<close>

theorem connect_to_any_selects:
  assumes "connection_laws E G" and "select_run_laws E G" and "connect_to_any E self addrs w = (res, w')"
  shows "(case res of
            Some (conn, inc) \<Rightarrow>
              (\<exists>addr \<in> set addrs. \<exists>w1 w2 w3 connecting. unchanged G {} {} {} w w1
                 \<and> q_connect E (quinn_endpoint self) addr SERVER_NAME w1 = (Inr connecting, w2)
                 \<and> q_connecting E connecting w2 = (Inr (conn_inner conn), w3))
              \<and> default_retry_config conn = Some (ep_retry_config self)
              \<and> conn_alive_tx conn = incoming_alive_tx inc
              \<and> message_rx inc \<notin> g_live_ch G w
              \<and> g_log G w' (message_rx inc) = [] \<and> g_rx_open G w' (message_rx inc)
          | None \<Rightarrow>
              (\<forall>addr \<in> set addrs. \<exists>w1. unchanged G {} {} {} w w1 \<and> refused E self addr w1)
              \<and> (addrs = [] \<longrightarrow> w' = w))
       \<and> unchanged G {} {} {} w w'"
proof (cases "addrs = []")
  case True
  with assms(3) show ?thesis by (auto simp: connect_to_any_def)
next
  case False
  let ?fs = "map (new_connection E self) addrs"
  have keeps: "keeps G {} {} {} f" if "f \<in> set ?fs" for f
    using that connection_laws.new_connection_keeps [OF assms(1)] by auto
  from False have "select_run (unchanged G {} {} {}) ?fs w (f_select_ok E ?fs w)"
    by (intro select_run_laws.select_run [OF assms(2)]) simp
  from select_run_states [OF this keeps] have run: "case f_select_ok E ?fs w of
      (Inr x, w') \<Rightarrow> \<exists>addr \<in> set addrs. \<exists>v v'. unchanged G {} {} {} w v
         \<and> new_connection E self addr v = (Inr x, v') \<and> unchanged G {} {} {} v' w'
    | (Inl e, w') \<Rightarrow> (\<forall>addr \<in> set addrs. \<exists>v e' v'. unchanged G {} {} {} w v
         \<and> new_connection E self addr v = (Inl e', v')) \<and> unchanged G {} {} {} w w'"
    by (auto split: prod.splits sum.splits)
  show ?thesis
  proof (cases res)
    case None
    with assms(3) False run have "\<forall>addr \<in> set addrs. \<exists>v e' v'. unchanged G {} {} {} w v
         \<and> new_connection E self addr v = (Inl e', v')" "unchanged G {} {} {} w w'"
      by (auto simp: connect_to_any_def split: prod.splits sum.splits)
    with None False show ?thesis
      by (auto intro: unchanged_trans elim!: connection_laws.new_connection_refused [OF assms(1)] dest!: bspec)
  next
    case (Some pair)
    obtain conn inc where pair: "pair = (conn, inc)" by fastforce
    from Some assms(3) False run obtain addr v v' where v: "addr \<in> set addrs" "unchanged G {} {} {} w v"
      "new_connection E self addr v = (Inr (conn, inc), v')" "unchanged G {} {} {} v' w'"
      by (auto simp: connect_to_any_def pair split: prod.splits sum.splits)
    note ok = connection_laws.new_connection_ok [OF assms(1) v(3)]
    have "well_formed G v' (conn, inc)"
      using connection_laws.connect_to_formed [OF assms(1), of self addr v] v(3) by (simp add: connect_to_def)
    then have live: "message_rx inc \<in> g_live_ch G v'" by simp
    from ok unchangedD(9) [OF v(2)] unchangedD(4,6) [OF v(4) live]
    have chan: "message_rx inc \<notin> g_live_ch G w" "g_log G w' (message_rx inc) = []" "g_rx_open G w' (message_rx inc)"
      by auto
    have "unchanged G {} {} {} w w'" using ok v(2,4) by (blast intro: unchanged_trans)
    moreover have "\<exists>addr \<in> set addrs. \<exists>w1 w2 w3 connecting. unchanged G {} {} {} w w1
        \<and> q_connect E (quinn_endpoint self) addr SERVER_NAME w1 = (Inr connecting, w2)
        \<and> q_connecting E connecting w2 = (Inr (conn_inner conn), w3)"
      using ok v(1,2) by (blast intro: unchanged_trans)
    ultimately show ?thesis using ok chan Some pair by auto
  qed
qed

theorem connect_to_any_selects_witness:
  "(\<exists>conn inc w'. connect_to_any net_env some_endpoint [peer_b] dial_world = (Some (conn, inc), w')
      \<and> conn_inner conn = 5 \<and> n_log w' (message_rx inc) = [] \<and> n_rx_open w' (message_rx inc)
      \<and> (\<exists>w1 w2 w3 i. q_connect net_env 1 peer_b SERVER_NAME w1 = (Inr i, w2) \<and> q_connecting net_env i w2 = (Inr 5, w3)))
   \<and> connect_to_any net_env some_endpoint [peer_a] no_route = (None, no_route)
   \<and> (\<exists>w1. unchanged net_ghost {} {} {} no_route w1 \<and> refused net_env some_endpoint peer_a w1)"
proof -
  note law = connect_to_any_selects [OF net_connection.connection_laws_axioms net_select.select_run_laws_axioms]
  have "n_dial dial_world peer_b = Inr (Inr 5)" by (simp add: dial_world_def)
  from new_connection_b [OF this] obtain conn inc w'
    where run: "connect_to_any net_env some_endpoint [peer_b] dial_world = (Some (conn, inc), w')"
      and "conn_inner conn = 5"
    by (auto simp: connect_to_any_def)
  with law [OF run] have "\<exists>conn inc w'. connect_to_any net_env some_endpoint [peer_b] dial_world = (Some (conn, inc), w')
      \<and> conn_inner conn = 5 \<and> n_log w' (message_rx inc) = [] \<and> n_rx_open w' (message_rx inc)
      \<and> (\<exists>w1 w2 w3 i. q_connect net_env 1 peer_b SERVER_NAME w1 = (Inr i, w2) \<and> q_connecting net_env i w2 = (Inr 5, w3))"
    by (auto simp: some_endpoint_def)
  moreover have none: "connect_to_any net_env some_endpoint [peer_a] no_route = (None, no_route)"
    using connect_to_no_route by (simp add: connect_to_any_def connect_to_def)
  moreover from law [OF none] have "\<exists>w1. unchanged net_ghost {} {} {} no_route w1 \<and> refused net_env some_endpoint peer_a w1"
    by simp
  ultimately show ?thesis by blast
qed

end
