(* ===== verification/Program.thy ===== *)
theory Program
  imports Connection_System Connecting
begin

text \<open>
  A program with connections that come and go: it dials and accepts them while the tasks of those
  it has run, and sends messages over them, in every interleaving. Seen from one connection,
  all the rest is somebody else's steps, so what holds of a connection on its own holds in every
  such program.
\<close>

section \<open>Programs\<close>

text \<open>
  The connections that were made so far, each with the state of its tasks and, for the
  specification, the state of the environment it was made in.
\<close>

type_synonym 'w connections = "link \<rightharpoonup> conn_tasks \<times> 'w"

definition link_of :: "endpoint_id \<Rightarrow> SocketAddr \<Rightarrow> Connection \<times> ConnectionIncoming \<Rightarrow> link" where
  "link_of ep peer p =
     \<lparr>lk_endpoint = ep, lk_peer = peer, lk_conn = conn_inner (fst p), lk_incoming = snd p\<rparr>"

text \<open>A connection that the transport hands over is not one of those there are, and its streams are its own.\<close>

definition new_streams :: "'w ghost \<Rightarrow> 'w connections \<Rightarrow> conn_id \<Rightarrow> 'w \<Rightarrow> bool" where
  "new_streams G cs c w \<longleftrightarrow> c \<in> g_live_conn G w \<and> conn_rx G c w \<subseteq> g_live_rx G w
     \<and> distinct (rights (g_uni G w c) @ map snd (rights (g_bi G w c)))
     \<and> (\<forall>L t w0. cs L = Some (t, w0) \<longrightarrow> lk_conn L \<noteq> c \<and> conn_rx G (lk_conn L) w0 \<inter> conn_rx G c w = {})"

inductive program_step ::
  "'w env \<Rightarrow> 'w ghost \<Rightarrow> 'w connections \<times> 'w \<Rightarrow> 'w connections \<times> 'w \<Rightarrow> bool"
  for E G where
  task: "cs L = Some (t, w0) \<Longrightarrow> conn_step E G L (conn_rx G (lk_conn L) w0) (t, w) a (t', w') \<Longrightarrow>
    a \<noteq> By_Others \<Longrightarrow> program_step E G (cs, w) (cs(L \<mapsto> (t', w0)), w')"
| dialled: "connect_to E self addr w = (Inr p, w') \<Longrightarrow> new_streams G cs (conn_inner (fst p)) w' \<Longrightarrow>
    program_step E G (cs, w) (cs(link_of (quinn_endpoint self) peer p \<mapsto> (conn_start, w')), w')"
| refused: "connect_to E self addr w = (Inl e, w') \<Longrightarrow> program_step E G (cs, w) (cs, w')"
| accepted: "Connection_new E ep rc c w = (p, w') \<Longrightarrow> new_streams G cs c w' \<Longrightarrow>
    program_step E G (cs, w) (cs(link_of ep peer p \<mapsto> (conn_start, w')), w')"
| sending: "send_with E conn msg priority retry w = (res, w') \<Longrightarrow> program_step E G (cs, w) (cs, w')"
| reply: "send_user_msg E s msg w = (res, w') \<Longrightarrow> program_step E G (cs, w) (cs, w')"
| echo: "endpoint_echo E self conn w = (seen, w') \<Longrightarrow> program_step E G (cs, w) (cs, w')"
| verification: "endpoint_verification E self conn addr w = (valid, w') \<Longrightarrow> program_step E G (cs, w) (cs, w')"

abbreviation program_run :: "'w env \<Rightarrow> 'w ghost \<Rightarrow> 'w \<Rightarrow> 'w connections \<times> 'w \<Rightarrow> bool" where
  "program_run E G v x \<equiv> (program_step E G)\<^sup>*\<^sup>* (Map.empty, v) x"

section \<open>Seen from one connection\<close>

text \<open>A task of one connection is somebody else for all the others, and so is whatever touches no channel.\<close>

lemma guarantee_undisturbed:
  assumes "conn_guarantee G L rx w w'" "conn_live G M rx' w" "rx \<inter> rx' = {}"
    "lk_conn L \<noteq> lk_conn M" "lk_ch L \<noteq> lk_ch M"
  shows "undisturbed G M rx' w w'"
proof -
  from assms(1) have "same_streams G rx UNIV {lk_ch L} w w'" by (simp add: conn_guarantee_def)
  then have "same_streams G (- rx') UNIV (- {lk_ch M}) w w'"
    by (rule same_streams_mono) (use assms(3,5) in auto)
  with assms show ?thesis by (auto simp: undisturbed_def conn_guarantee_def conn_live_def)
qed

lemma unchanged_undisturbed:
  assumes "unchanged G {} S {} w w'" "conn_live G L rx w"
  shows "undisturbed G L rx w w'"
proof -
  have "same_streams G (- rx) UNIV (- {lk_ch L}) w w'"
    by (rule same_streams_mono [OF unchanged_same_streams [OF assms(1)]]) auto
  with unchanged_incoming [OF assms(1)] assms(2) show ?thesis by (simp add: undisturbed_def conn_live_def)
qed

text \<open>Each connection has run on its own since it was made, with a new channel; and no two share anything.\<close>

definition on_its_own :: "'w env \<Rightarrow> 'w ghost \<Rightarrow> 'w \<Rightarrow> link \<Rightarrow> conn_tasks \<times> 'w \<Rightarrow> bool" where
  "on_its_own E G w L x \<longleftrightarrow> conn_ready G L (snd x) \<and> g_log G (snd x) (lk_ch L) = [] \<and> g_taken G (snd x) (lk_ch L) = 0
     \<and> (\<exists>as. conn_run E G L (conn_rx G (lk_conn L) (snd x)) (conn_start, snd x) as (fst x, w))"

definition apart :: "'w ghost \<Rightarrow> link \<Rightarrow> 'w \<Rightarrow> link \<Rightarrow> 'w \<Rightarrow> bool" where
  "apart G L v M w \<longleftrightarrow> lk_conn L \<noteq> lk_conn M \<and> lk_ch L \<noteq> lk_ch M
     \<and> conn_rx G (lk_conn L) v \<inter> conn_rx G (lk_conn M) w = {}"

definition program_ok :: "'w env \<Rightarrow> 'w ghost \<Rightarrow> 'w connections \<times> 'w \<Rightarrow> bool" where
  "program_ok E G x \<longleftrightarrow>
     (\<forall>L y. fst x L = Some y \<longrightarrow> on_its_own E G (snd x) L y)
     \<and> (\<forall>L y M z. fst x L = Some y \<longrightarrow> fst x M = Some z \<longrightarrow> L \<noteq> M \<longrightarrow> apart G L (snd y) M (snd z))"

text \<open>A connection that was just made, with a channel of its own.\<close>

definition made :: "'w ghost \<Rightarrow> 'w connections \<Rightarrow> 'w \<Rightarrow> link \<Rightarrow> 'w \<Rightarrow> bool" where
  "made G cs w L w' \<longleftrightarrow> new_streams G cs (lk_conn L) w'
     \<and> lk_ch L \<notin> g_live_ch G w \<and> lk_ch L \<in> g_live_ch G w' \<and> g_rx_open G w' (lk_ch L)
     \<and> g_log G w' (lk_ch L) = [] \<and> g_taken G w' (lk_ch L) = 0"

lemma apart_sym: "apart G L v M w \<Longrightarrow> apart G M w L v"
  by (auto simp: apart_def)

context connection_laws
begin

lemma on_its_own_live:
  assumes "on_its_own E G w L (t, w0)"
  shows "conn_live G L (conn_rx G (lk_conn L) w0) w" "conn_ok E G L w0 (t, w)"
proof -
  from assms conn_run_ok(1) show "conn_ok E G L w0 (t, w)" by (auto simp: on_its_own_def)
  then show "conn_live G L (conn_rx G (lk_conn L) w0) w" by (auto simp: conn_ok_def conn_inv_def)
qed

lemma on_its_own_step:
  assumes "on_its_own E G w L (t, w0)" "conn_step E G L (conn_rx G (lk_conn L) w0) (t, w) a (t', w')"
  shows "on_its_own E G w' L (t', w0)"
  using assms by (auto simp: on_its_own_def intro: conn_run.step)

lemma on_its_own_unchanged:
  assumes "on_its_own E G w L y" "unchanged G {} S {} w w'"
  shows "on_its_own E G w' L y"
proof -
  obtain t w0 where y: "y = (t, w0)" by fastforce
  from unchanged_undisturbed [OF assms(2) on_its_own_live(1)] assms(1) y
  have "undisturbed G L (conn_rx G (lk_conn L) w0) w w'" by blast
  from on_its_own_step [OF _ conn_step.others [OF this]] assms(1) y show ?thesis by simp
qed

lemma program_ok_unchanged:
  "program_ok E G (cs, w) \<Longrightarrow> unchanged G {} S {} w w' \<Longrightarrow> program_ok E G (cs, w')"
  by (auto simp: program_ok_def intro: on_its_own_unchanged)

text \<open>A task of one connection does not disturb another.\<close>

lemma task_undisturbed:
  assumes "program_ok E G (cs, w)" "cs L = Some (t, w0)" "a \<noteq> By_Others"
    and "conn_step E G L (conn_rx G (lk_conn L) w0) (t, w) a (t', w')"
    and "cs M = Some (u, v)" "L \<noteq> M"
  shows "undisturbed G M (conn_rx G (lk_conn M) v) w w'"
proof -
  from assms(1,2) have own: "on_its_own E G w L (t, w0)" by (auto simp: program_ok_def)
  then have ready: "conn_ready G L w0" by (simp add: on_its_own_def)
  from conn_step_ok(3) [OF ready on_its_own_live(2) [OF own] assms(4,3)]
  have g: "conn_guarantee G L (conn_rx G (lk_conn L) w0) w w'" by simp
  from assms(1,5) have other: "on_its_own E G w M (u, v)" by (auto simp: program_ok_def)
  from assms(1,2,5,6) have "apart G L w0 M v" by (fastforce simp: program_ok_def)
  then show ?thesis
    by (intro guarantee_undisturbed [OF g on_its_own_live(1) [OF other]]) (auto simp: apart_def)
qed

lemma program_ok_task:
  assumes "program_ok E G (cs, w)" "cs L = Some (t, w0)" "a \<noteq> By_Others"
    and "conn_step E G L (conn_rx G (lk_conn L) w0) (t, w) a (t', w')"
  shows "program_ok E G (cs(L \<mapsto> (t', w0)), w')"
proof -
  from assms(1,2) have own: "on_its_own E G w L (t, w0)" by (auto simp: program_ok_def)
  have "on_its_own E G w' M (u, v)" if "cs M = Some (u, v)" "M \<noteq> L" for M u v
  proof -
    from assms(1) that have other: "on_its_own E G w M (u, v)" by (auto simp: program_ok_def)
    from that have "undisturbed G M (conn_rx G (lk_conn M) v) w w'" by (intro task_undisturbed [OF assms]) auto
    from on_its_own_step [OF other conn_step.others [OF this]] show ?thesis .
  qed
  with assms(1,2) on_its_own_step [OF own assms(4)] show ?thesis
    by (auto simp: program_ok_def split: if_splits)
qed

lemma program_ok_made:
  assumes "program_ok E G (cs, w)" and "unchanged G {} {} {} w w'" and "made G cs w L w'"
  shows "program_ok E G (cs(L \<mapsto> (conn_start, w')), w')"
proof -
  from assms(3) have "conn_ready G L w'" by (simp add: made_def conn_ready_def conn_live_def new_streams_def)
  with assms(3) have own: "on_its_own E G w' L (conn_start, w')"
    by (auto simp: on_its_own_def made_def intro: conn_run.start)
  have "apart G L w' M (snd y)" if "cs M = Some y" for M y
  proof -
    obtain t v where y: "y = (t, v)" by fastforce
    from assms(1) that y have "on_its_own E G w M (t, v)" by (auto simp: program_ok_def)
    from on_its_own_live(1) [OF this] assms(3) have "lk_ch M \<noteq> lk_ch L" by (auto simp: conn_live_def made_def)
    with assms(3) that y show ?thesis by (fastforce simp: apart_def made_def new_streams_def)
  qed
  with program_ok_unchanged [OF assms(1,2)] own show ?thesis
    by (auto simp: program_ok_def split: if_splits) (fastforce dest: apart_sym)+
qed

text \<open>The three kinds of steps: one of a task, one that makes a connection, and all the others.\<close>

lemma made_pair:
  assumes "new_streams G cs (conn_inner (fst p)) w'" and "message_rx (snd p) \<notin> g_live_ch G w"
    and "g_log G w' (message_rx (snd p)) = []" and "well_formed G w' p"
  shows "made G cs w (link_of ep peer p) w'"
  using assms by (cases p) (simp add: made_def link_of_def)

lemma program_step_kinds:
  assumes "program_step E G (cs, w) (cs', w')"
  obtains (task) L t w0 a t' where "cs L = Some (t, w0)" "a \<noteq> By_Others"
      "conn_step E G L (conn_rx G (lk_conn L) w0) (t, w) a (t', w')" "cs' = cs(L \<mapsto> (t', w0))"
  | (made) L where "unchanged G {} {} {} w w'" "made G cs w L w'" "cs' = cs(L \<mapsto> (conn_start, w'))"
  | (quiet) S where "unchanged G {} S {} w w'" "cs' = cs"
  using assms
proof cases
  case (dialled self addr p peer)
  from new_connection_ok [of self addr w "fst p" "snd p" w'] dialled(2)
  have "message_rx (snd p) \<notin> g_live_ch G w" "g_log G w' (message_rx (snd p)) = []" "unchanged G {} {} {} w w'"
    by (auto simp: connect_to_def)
  with dialled connect_to_formed [OF dialled(2)] show ?thesis
    by (intro that(2) [of "link_of (quinn_endpoint self) peer p"] made_pair) simp_all
next
  case (refused self addr e)
  then obtain w1 where "unchanged G {} {} {} w w1" "connect_attempt E self addr w1 = (Inl (Transient e), w')"
    using new_connection_attempt [of self addr w "Inl e" w'] by (auto simp: connect_to_def)
  then have "unchanged G {} {} {} w w'" using keepsD [OF connect_attempt_keeps] by (blast intro: unchanged_trans)
  with refused show ?thesis by (intro that(3) [of "{}"]) simp_all
next
  case (accepted ep rc c p peer)
  from Connection_new_halves [of ep rc c w "fst p" "snd p" w'] accepted(2)
  have "conn_inner (fst p) = c" "message_rx (snd p) \<notin> g_live_ch G w" "g_log G w' (message_rx (snd p)) = []"
    "unchanged G {} {} {} w w'" by simp_all
  with accepted formed_Connection_new [OF accepted(2)] show ?thesis
    by (intro that(2) [of "link_of ep peer p"] made_pair) simp_all
next
  case (sending conn msg priority retry res)
  then obtain w1 where u: "unchanged G {} {} {} w w1" and run: "send_uni E conn msg priority w1 = (res, w')"
    by (auto elim: send_with_attempt)
  from u keepsD [OF send_uni_keeps run] have "unchanged G {} {} {} w w'" by (rule unchanged_trans)
  with sending show ?thesis by (intro that(3) [of "{}"]) simp_all
next
  case (reply s msg res)
  then have "unchanged G {} {s} {} w w'"
    using keepsD [OF write_to_stream_keeps] by (simp add: send_user_msg_def)
  with reply show ?thesis by (intro that(3) [of "{s}"]) simp_all
next
  case (echo self conn seen)
  from keepsD [OF endpoint_echo_keeps echo(2)] echo show ?thesis by (intro that(3) [of "{}"]) simp_all
next
  case (verification self conn addr valid)
  from keepsD [OF endpoint_verification_keeps verification(2)] verification show ?thesis
    by (intro that(3) [of "{}"]) simp_all
qed (rule that(1))

lemma program_step_ok:
  assumes "program_step E G x y" "program_ok E G x"
  shows "program_ok E G y"
proof -
  obtain cs w cs' w' where xy: "x = (cs, w)" "y = (cs', w')" by (metis prod.exhaust)
  from assms(1) [unfolded xy] show ?thesis
  proof (cases rule: program_step_kinds)
    case (task L t w0 a t')
    with assms(2) program_ok_task xy show ?thesis by blast
  next
    case (made L)
    with assms(2) program_ok_made xy show ?thesis by blast
  next
    case (quiet S)
    with assms(2) program_ok_unchanged xy show ?thesis by blast
  qed
qed

text \<open>For a connection that is there, a step of the program is one of its own steps, perhaps somebody else's.\<close>

lemma program_step_project:
  assumes "program_step E G (cs, w) (cs', w')" "program_ok E G (cs, w)" "cs L = Some (t, w0)"
  shows "\<exists>a t'. cs' L = Some (t', w0) \<and> conn_step E G L (conn_rx G (lk_conn L) w0) (t, w) a (t', w')"
proof -
  from assms(2,3) have own: "on_its_own E G w L (t, w0)" by (auto simp: program_ok_def)
  note live = on_its_own_live(1) [OF own]
  have quiet: "conn_step E G L (conn_rx G (lk_conn L) w0) (t, w) By_Others (t, w')" if "unchanged G {} S {} w w'" for S
    by (rule conn_step.others [OF unchanged_undisturbed [OF that live]])
  from assms(1) show ?thesis
  proof (cases rule: program_step_kinds)
    case (task M u v a u')
    show ?thesis
    proof (cases "M = L")
      case True
      with task assms(3) show ?thesis by auto
    next
      case False
      with task_undisturbed [OF assms(2) task(1-3) assms(3)] task(4) assms(3) show ?thesis
        by (auto intro: conn_step.others)
    qed
  next
    case (made M)
    from made(2) assms(3) have "lk_conn L \<noteq> lk_conn M" unfolding made_def new_streams_def by blast
    then have "M \<noteq> L" by blast
    with made assms(3) quiet show ?thesis by auto
  qed (use assms(3) quiet in blast)
qed

lemma program_run_ok: "program_run E G v x \<Longrightarrow> program_ok E G x"
  by (induction rule: rtranclp_induct) (simp add: program_ok_def, blast intro: program_step_ok)

lemma program_run_connection:
  assumes "program_run E G v (cs, w)" "cs L = Some (t, w0)"
  obtains as where "conn_run E G L (conn_rx G (lk_conn L) w0) (conn_start, w0) as (t, w)" "conn_ready G L w0"
    "g_log G w0 (lk_ch L) = []" "g_taken G w0 (lk_ch L) = 0"
proof -
  from program_run_ok [OF assms(1)] assms(2) that show thesis by (fastforce simp: program_ok_def on_its_own_def)
qed

text \<open>From every state, the tasks of one connection can go on until they have finished.\<close>

lemma program_finishes:
  assumes "program_run E G v (cs, w)" "cs L = Some (t, w0)"
  shows "\<exists>t' w'. (program_step E G)\<^sup>*\<^sup>* (cs, w) (cs(L \<mapsto> (t', w0)), w') \<and> conn_finished G L (t', w')"
  using assms
proof (induction "conn_work G L (t, w)" arbitrary: cs t w rule: less_induct)
  case less
  show ?case
  proof (cases "conn_finished G L (t, w)")
    case True
    with less.prems(2) show ?thesis by (intro exI [of _ t] exI [of _ w]) (simp add: fun_upd_idem)
  next
    case False
    then obtain a t1 w1 where a: "conn_step E G L (conn_rx G (lk_conn L) w0) (t, w) a (t1, w1)" "a \<noteq> By_Others"
      by (metis conn_step_progress prod.exhaust)
    note step = program_step.task [of cs, OF less.prems(2) a]
    obtain as where "conn_run E G L (conn_rx G (lk_conn L) w0) (conn_start, w0) as (t, w)" "conn_ready G L w0"
      by (rule program_run_connection [OF less.prems])
    from conn_step_ok(2) [OF this(2) conn_run_ok(1) [OF this] a(1)] a(2)
    have "conn_work G L (t1, w1) < conn_work G L (t, w)" by simp
    from less.hyps [OF this rtranclp.rtrancl_into_rtrancl [OF less.prems(1) step]]
    obtain t' w' where "(program_step E G)\<^sup>*\<^sup>* (cs(L \<mapsto> (t1, w0)), w1) (cs(L \<mapsto> (t', w0)), w')"
      "conn_finished G L (t', w')" by auto
    with step show ?thesis by (blast intro: converse_rtranclp_into_rtranclp)
  qed
qed

end

end
