(* ===== verification/Mailbox.thy ===== *)
theory Mailbox
  imports Program
begin

text \<open>
  The contract of a connection's receiving side, as an abstract machine, and that the program
  implements it: what is sent over each stream is handed over item by item and in order to one
  queue, and the application takes from its front. Nothing is said of listeners, channels or
  how reading a stream works.
\<close>

section \<open>The abstract machine\<close>

record mailbox =
  mb_streams :: "origin \<Rightarrow> msg_item list"
  mb_queue :: "msg_item list"
  mb_got :: "(RecvError + (bytes \<times> SendStream option) option) list"

inductive mailbox_step :: "mailbox \<Rightarrow> mailbox \<Rightarrow> bool" where
  hand_over: "mb_streams m k = x # xs \<Longrightarrow>
    mailbox_step m (m\<lparr>mb_streams := (mb_streams m)(k := xs), mb_queue := mb_queue m @ [x]\<rparr>)"
| receive: "mb_queue m = x # q \<Longrightarrow>
    mailbox_step m (m\<lparr>mb_queue := q, mb_got := mb_got m @ [item_result x]\<rparr>)"

text \<open>What the streams of a connection carry when it is made.\<close>

fun stream_items :: "'w env \<Rightarrow> 'w ghost \<Rightarrow> conn_id \<Rightarrow> 'w \<Rightarrow> origin \<Rightarrow> msg_item list" where
  "stream_items E G c w From_Uni = map uni_item (uni_total E G c w)"
| "stream_items E G c w (From_Bi (s, r)) =
     (if (s, r) \<in> set (rights (g_bi G w c)) then bi_items E s (g_avail G w r) (g_fate G w r) else [])"

definition mailbox_start :: "'w env \<Rightarrow> 'w ghost \<Rightarrow> conn_id \<Rightarrow> 'w \<Rightarrow> mailbox" where
  "mailbox_start E G c w = \<lparr>mb_streams = stream_items E G c w, mb_queue = [], mb_got = []\<rparr>"

text \<open>
  What the machine promises: what the application got, followed by what is queued for it, is an
  interleaving of the streams, each in order; and a stream is what was handed over of it followed
  by what is still to come.
\<close>

lemma sent_by_single [simp]: "sent_by k [(j, x)] = (if j = k then [x] else [])"
  by (simp add: sent_by_def)

lemma mailbox_run_order:
  assumes "mailbox_step\<^sup>*\<^sup>* m0 m" "mb_queue m0 = []" "mb_got m0 = []"
  shows "\<exists>h. mb_got m @ map item_result (mb_queue m) = map item_result (map snd h)
    \<and> (\<forall>k. mb_streams m0 k = sent_by k h @ mb_streams m k)"
  using assms(1)
proof (induction rule: rtranclp_induct)
  case base
  from assms(2,3) show ?case by (intro exI [of _ "[]"]) simp
next
  case (step m m')
  then obtain h where h: "mb_got m @ map item_result (mb_queue m) = map item_result (map snd h)"
    "\<And>k. mb_streams m0 k = sent_by k h @ mb_streams m k" by blast
  from step.hyps(2) show ?case
  proof cases
    case (hand_over k x xs)
    with h show ?thesis by (intro exI [of _ "h @ [(k, x)]"]) simp
  next
    case (receive x q)
    with h show ?thesis by (intro exI [of _ h]) simp
  qed
qed

section \<open>The simulation\<close>

text \<open>The state of the machine that a connection is in, after the history \<open>h\<close> of what was handed over.\<close>

definition mailbox_of ::
  "'w env \<Rightarrow> 'w ghost \<Rightarrow> link \<Rightarrow> 'w \<Rightarrow> history \<Rightarrow> conn_tasks \<Rightarrow> 'w \<Rightarrow> mailbox" where
  "mailbox_of E G L w0 h t w =
     \<lparr>mb_streams = (\<lambda>k. drop (length (sent_by k h)) (stream_items E G (lk_conn L) w0 k)),
      mb_queue = drop (g_taken G w (lk_ch L)) (g_log G w (lk_ch L)), mb_got = ct_got t\<rparr>"

definition simulates ::
  "'w env \<Rightarrow> 'w ghost \<Rightarrow> link \<Rightarrow> 'w \<Rightarrow> conn_tasks \<times> 'w \<Rightarrow> mailbox \<Rightarrow> bool" where
  "simulates E G L w0 x m \<longleftrightarrow>
     (\<exists>h results. conn_inv E G L w0 h results (fst x) (snd x) \<and> m = mailbox_of E G L w0 h (fst x) (snd x))"

lemma conn_inv_streams:
  assumes "conn_inv E G L w0 h results t w"
  shows "prefix (sent_by k h) (stream_items E G (lk_conn L) w0 k)"
proof (cases "(E, G, lk_conn L, w0, k)" rule: stream_items.cases)
  case (1 E' G' c w)
  from assms have "prefix (map uni_item results) (map uni_item (uni_total E G (lk_conn L) w0))"
    by (auto simp: conn_inv_def dest!: uni_inv_prefix intro: map_mono_prefix)
  with 1 assms show ?thesis by (simp add: conn_inv_def)
next
  case (2 E' G' c w s r)
  show ?thesis
  proof (cases "(s, r) \<in> set (rights (g_bi G w0 (lk_conn L)))")
    case True
    with 2 assms bi_state_inv_prefix show ?thesis by (auto simp: conn_inv_def)
  next
    case False
    with assms have "From_Bi (s, r) \<notin> fst ` set h" by (auto simp: conn_inv_def)
    then have "sent_by (From_Bi (s, r)) h = []" by (auto simp: sent_by_def filter_empty_conv image_iff)
    with 2 show ?thesis by simp
  qed
qed

lemma conn_inv_taken:
  assumes "conn_inv E G L w0 h results t w" "g_taken G w0 (lk_ch L) = 0"
  shows "g_taken G w (lk_ch L) \<le> length (g_log G w (lk_ch L))"
proof -
  from assms have "length (ct_got t) = min (length (ct_got t)) (length (g_log G w (lk_ch L)))"
    unfolding conn_inv_def received_def by (metis drop0 length_map length_take min.commute)
  with assms show ?thesis by (simp add: conn_inv_def)
qed

text \<open>Handing over at most one item, or none, is at most one step.\<close>

lemma mailbox_of_handed:
  assumes inv: "conn_inv E G L w0 h results t w" "g_taken G w0 (lk_ch L) = 0"
    and inv': "conn_inv E G L w0 (h @ map (Pair k) items) results' t' w'"
    and "length items \<le> 1" "g_log G w' (lk_ch L) = g_log G w (lk_ch L) @ items"
    and "g_taken G w' (lk_ch L) = g_taken G w (lk_ch L)" "ct_got t' = ct_got t"
  shows "mailbox_step\<^sup>=\<^sup>= (mailbox_of E G L w0 h t w) (mailbox_of E G L w0 (h @ map (Pair k) items) t' w')"
proof (cases items)
  case Nil
  with assms(5-7) show ?thesis by (simp add: mailbox_of_def)
next
  case (Cons x xs)
  with assms(4) have items: "items = [x]" by simp
  let ?S = "stream_items E G (lk_conn L) w0"
  from conn_inv_streams [OF inv', of k] items obtain rest where "?S k = sent_by k h @ x # rest"
    by (auto simp: prefix_def)
  then have step: "mb_streams (mailbox_of E G L w0 h t w) k = x # rest"
    "drop (length (sent_by k (h @ map (Pair k) items))) (?S k) = rest"
    using items by (simp_all add: mailbox_of_def)
  have "mailbox_of E G L w0 (h @ map (Pair k) items) t' w' =
      (mailbox_of E G L w0 h t w)\<lparr>mb_streams := (mb_streams (mailbox_of E G L w0 h t w))(k := rest),
        mb_queue := mb_queue (mailbox_of E G L w0 h t w) @ [x]\<rparr>"
    using step(2) items assms(5-7) conn_inv_taken [OF inv] by (auto simp: mailbox_of_def fun_eq_iff)
  with mailbox_step.hand_over [OF step(1)] show ?thesis by simp
qed

context runtime_laws
begin

lemma simulates_start:
  assumes "conn_ready G L w0" "g_log G w0 (lk_ch L) = []"
  shows "simulates E G L w0 (conn_start, w0) (mailbox_start E G (lk_conn L) w0)"
  using conn_inv_init [OF assms(1), of E] assms(2) unfolding simulates_def
  by (intro exI [of _ "[]"]) (simp add: mailbox_of_def mailbox_start_def conn_start_def fun_eq_iff)

lemma simulates_step:
  assumes ready: "conn_ready G L w0" and zero: "g_taken G w0 (lk_ch L) = 0"
    and sim: "simulates E G L w0 x m" and step: "conn_step E G L (conn_rx G (lk_conn L) w0) x a y"
  shows "\<exists>m'. simulates E G L w0 y m' \<and> mailbox_step\<^sup>=\<^sup>= m m'"
proof -
  from sim obtain h results where inv: "conn_inv E G L w0 h results (fst x) (snd x)"
    and m: "m = mailbox_of E G L w0 h (fst x) (snd x)" by (auto simp: simulates_def)
  from step show ?thesis
  proof cases
    case (uni t w u' w')
    with inv have i: "conn_inv E G L w0 h results t w" by simp
    from conn_inv_uni [OF ready i uni(4,5)] obtain items results' where
      s: "conn_inv E G L w0 (h @ map (Pair From_Uni) items) results' (t\<lparr>ct_uni := u'\<rparr>) w'" "length items \<le> 1"
        "g_log G w' (lk_ch L) = g_log G w (lk_ch L) @ items" "g_taken G w' (lk_ch L) = g_taken G w (lk_ch L)" .
    from mailbox_of_handed [OF i zero s] s(1) m uni(1,3) show ?thesis by (auto simp: simulates_def)
  next
    case (bi t w b' w')
    with inv have i: "conn_inv E G L w0 h results t w" by simp
    from conn_inv_bi [OF ready i bi(4)] obtain k items where
      s: "conn_inv E G L w0 (h @ map (Pair k) items) results (t\<lparr>ct_bi := b'\<rparr>) w'" "length items \<le> 1"
        "g_log G w' (lk_ch L) = g_log G w (lk_ch L) @ items"
      and "bi_guarantee G (lk_conn L) (lk_ch L) (rights (g_bi G w0 (lk_conn L))) w w'" .
    then have "g_taken G w' (lk_ch L) = g_taken G w (lk_ch L)" by (simp add: bi_guarantee_def)
    from mailbox_of_handed [OF i zero s this] s(1) m bi(1,3) show ?thesis by (auto simp: simulates_def)
  next
    case (app w res w' t)
    with inv have i: "conn_inv E G L w0 h results t w" by simp
    note s = conn_inv_app [OF ready i app(4,5)]
    let ?ch = "lk_ch L"
    have res: "res = item_result (g_log G w ?ch ! g_taken G w ?ch)"
      using next_with_stream_item [OF app(4)] app(5) by (metis prod.inject)
    have q: "mb_queue m = g_log G w ?ch ! g_taken G w ?ch # drop (Suc (g_taken G w ?ch)) (g_log G w ?ch)"
      using app(1,4) m by (simp add: mailbox_of_def Cons_nth_drop_Suc)
    have "mailbox_of E G L w0 h (t\<lparr>ct_got := ct_got t @ [res]\<rparr>) w' =
        m\<lparr>mb_queue := drop (Suc (g_taken G w ?ch)) (g_log G w ?ch),
          mb_got := mb_got m @ [item_result (g_log G w ?ch ! g_taken G w ?ch)]\<rparr>"
      using m app(1) s(4,5) res by (simp add: mailbox_of_def)
    with mailbox_step.receive [OF q] have "mailbox_step m (mailbox_of E G L w0 h (t\<lparr>ct_got := ct_got t @ [res]\<rparr>) w')"
      by simp
    with s(1) show ?thesis unfolding app(3) simulates_def fst_conv snd_conv by blast
  next
    case (others w w' t)
    with inv have i: "conn_inv E G L w0 h results t w" by simp
    note s = conn_inv_others [OF i others(4)]
    from s(4,5) m others(1) have "m = mailbox_of E G L w0 h t w'" by (simp add: mailbox_of_def)
    with s(1) others(3) show ?thesis by (auto simp: simulates_def)
  qed
qed

end

context connection_laws
begin

text \<open>Every step of a program makes a mailbox or is at most one step of it.\<close>

lemma program_step_new:
  assumes "program_step E G (cs, w) (cs', w')" "cs L = None" "cs' L = Some (t', w0)"
  shows "t' = conn_start \<and> w0 = w'"
  using assms(1)
proof (cases rule: program_step_kinds)
  case (task L' t w1 a t1)
  with assms(2,3) show ?thesis by (cases "L' = L") simp_all
next
  case (made L')
  with assms(2,3) show ?thesis by (cases "L' = L") simp_all
next
  case quiet
  with assms(2,3) show ?thesis by simp
qed

lemma program_simulates_start:
  assumes "program_run E G v (cs, w)" "program_step E G (cs, w) (cs', w')" "cs L = None" "cs' L = Some (t', w0)"
  shows "simulates E G L w0 (t', w') (mailbox_start E G (lk_conn L) w0)"
proof -
  from assms(1,2) have "program_run E G v (cs', w')" by (rule rtranclp.rtrancl_into_rtrancl)
  then obtain as where "conn_ready G L w0" "g_log G w0 (lk_ch L) = []"
    by (rule program_run_connection) (rule assms(4))
  from simulates_start [OF this] program_step_new [OF assms(2-4)] show ?thesis by simp
qed

lemma program_simulates_step:
  assumes "program_run E G v (cs, w)" "program_step E G (cs, w) (cs', w')"
    and "cs L = Some (t, w0)" "simulates E G L w0 (t, w) m"
  shows "\<exists>t' m'. cs' L = Some (t', w0) \<and> simulates E G L w0 (t', w') m' \<and> mailbox_step\<^sup>=\<^sup>= m m'"
proof -
  obtain as where c: "conn_ready G L w0" "g_taken G w0 (lk_ch L) = 0"
    by (rule program_run_connection [OF assms(1,3)])
  obtain a t' where "cs' L = Some (t', w0)" and step: "conn_step E G L (conn_rx G (lk_conn L) w0) (t, w) a (t', w')"
    using program_step_project [OF assms(2) program_run_ok [OF assms(1)] assms(3)] by blast
  moreover note simulates_step [OF c assms(4) step]
  ultimately show ?thesis by blast
qed

end

end
