(* ===== verification/User_Streams.thy ===== *)
theory User_Streams
  imports Wire_Props Connection_System
begin

text \<open>
  Streams that carry user messages and nothing else: both listeners deliver exactly these
  messages, in order. A frame without payload on a unidirectional stream costs everything behind it.
\<close>

section \<open>Frames of user messages\<close>

definition user_stream :: "'w env \<Rightarrow> bytes list \<Rightarrow> bytes \<Rightarrow> bool" where
  "user_stream E ms bs \<longleftrightarrow> (\<forall>m \<in> set ms. m \<noteq> [] \<and> length m < 2 ^ 32) \<and> bs = encode_frames E (map UserMsg ms)"

lemma encode_frames_Nil [simp]: "encode_frames E [] = []"
  by (simp add: encode_frames_def)

lemma encode_frames_Cons:
  "encode_frame E m = Inr bs \<Longrightarrow> encode_frames E (m # ms) = bs @ encode_frames E ms"
  by (simp add: encode_frames_def)

text \<open>The frame of a user message, and what it is decoded to whatever follows it.\<close>

lemma user_frame:
  assumes "length m < 2 ^ 32"
  obtains bs where "encode_frame E (UserMsg m) = Inr bs" "frame_complete (bs @ rest)"
    "decode_frame E (bs @ rest) fin = (decode_payload E USER_MSG_FLAG m, rest)"
proof -
  from assms obtain h where h: "MsgHeader_new m USER_MSG_FLAG = Inr h" by (simp add: MsgHeader_new_def)
  from that [of "MsgHeader_to_bytes h @ m"] decode_frame_payload(1) [OF h, of E rest fin] decode_frame_payload(2) [OF h, of rest] show thesis
    by (simp add: encode_frame_def h)
qed

lemma uni_items_user_frames:
  assumes "\<forall>m \<in> set ms. m \<noteq> [] \<and> length m < 2 ^ 32"
  shows "uni_items E (encode_frames E (map UserMsg ms) @ rest) fin = map Inr ms @ uni_items E rest fin"
  using assms
proof (induction ms)
  case (Cons m ms)
  then obtain bs where "encode_frame E (UserMsg m) = Inr bs"
    "decode_frame E (bs @ encode_frames E (map UserMsg ms) @ rest) fin =
       (decode_payload E USER_MSG_FLAG m, encode_frames E (map UserMsg ms) @ rest)"
    by (metis list.set_intros(1) user_frame)
  with Cons show ?case
    by (simp add: encode_frames_Cons uni_items.simps [of E "bs @ _"] decode_payload_def)
qed simp

lemma bi_items_user_frames:
  assumes "\<forall>m \<in> set ms. m \<noteq> [] \<and> length m < 2 ^ 32"
  shows "bi_items E s (encode_frames E (map UserMsg ms) @ rest) fin = map (\<lambda>m. Inr (m, Some s)) ms @ bi_items E s rest fin"
  using assms
proof (induction ms)
  case (Cons m ms)
  then obtain bs where "encode_frame E (UserMsg m) = Inr bs"
    "decode_frame E (bs @ encode_frames E (map UserMsg ms) @ rest) fin =
       (decode_payload E USER_MSG_FLAG m, encode_frames E (map UserMsg ms) @ rest)"
    by (metis list.set_intros(1) user_frame)
  with Cons show ?case
    by (simp add: encode_frames_Cons bi_items.simps [of E s "bs @ _"] decode_payload_def)
qed simp

lemma items_at_end [simp]: "uni_items E [] Finished = []" "bi_items E s [] Finished = []"
  by (simp_all add: uni_items.simps bi_items.simps decode_frame_def)

lemma user_stream_items:
  assumes "user_stream E ms bs"
  shows "uni_items E bs Finished = map Inr ms" "bi_items E s bs Finished = map (\<lambda>m. Inr (m, Some s)) ms"
  using assms uni_items_user_frames [of ms E "[]" Finished] bi_items_user_frames [of ms E s "[]" Finished]
  by (simp_all add: user_stream_def)

text \<open>The unidirectional streams of a connection that is closed in an ordinary way.\<close>

lemma uni_results_user:
  assumes "list_all2 (\<lambda>r ms. user_stream E ms (avail r) \<and> fate r = Finished) (rights xs) mss"
    and "bi_closes xs"
  shows "uni_results E avail fate xs = map Inr (concat mss)"
  using assms
proof (induction xs arbitrary: mss rule: bi_closes.induct)
  case (2 r xs)
  then obtain ms mss' where mss: "mss = ms # mss'" "user_stream E ms (avail r)" "fate r = Finished"
    "list_all2 (\<lambda>r ms. user_stream E ms (avail r) \<and> fate r = Finished) (rights xs) mss'"
    by (auto simp: list_all2_Cons1)
  with 2 user_stream_items(1) [OF mss(2)] show ?case by auto
qed auto

section \<open>Empty messages\<close>

lemma uni_items_behind_empty:
  assumes "\<forall>m \<in> set ms. m \<noteq> [] \<and> length m < 2 ^ 32"
  shows "uni_items E (encode_frames E (map UserMsg (ms @ [] # later))) fin =
    map Inr ms @ [Inl (RecvError.Serialization (SerializationError_new ''Empty message received from peer''))]"
proof -
  obtain bs where bs: "encode_frame E (UserMsg []) = Inr bs"
    "decode_frame E (bs @ encode_frames E (map UserMsg later)) fin =
       (decode_payload E USER_MSG_FLAG [], encode_frames E (map UserMsg later))"
    by (rule user_frame [of "[]"]) simp
  have "encode_frames E (map UserMsg (ms @ [] # later)) =
      encode_frames E (map UserMsg ms) @ bs @ encode_frames E (map UserMsg later)"
    using bs(1) by (simp add: encode_frames_def)
  with uni_items_user_frames [OF assms, of E "bs @ encode_frames E (map UserMsg later)" fin] bs(2) show ?thesis
    by (simp add: uni_items.simps [of E "bs @ _"] decode_payload_def)
qed

text \<open>
  C38. An empty message is sent without any error and costs the messages behind it. As long as the
  transport accepts what is written, sending one succeeds, for the frame of an empty message can
  always be made. But when messages are sent over a unidirectional stream with an empty one among
  them, all of these sends without an error, the listener of the peer forwards the messages before
  the empty one and then an error, and goes on to the next stream: nothing behind it is delivered.
\<close>

theorem empty_message_not_delivered:
  assumes "runtime_laws E G" and "write_msgs E (map UserMsg (ms @ [] # later)) s w = (Inr (), w1)"
    and "g_sent G w s = []" and "\<forall>m \<in> set ms. m \<noteq> []"
    and "handles_held E alive" and "ch \<in> g_live_ch G v" and "g_rx_open G v ch" and "r \<in> g_live_rx G v"
    and "g_avail G v r = g_sent G w1 s"
  shows "(\<exists>v'. uni_loop E c alive ch (U_Select (Some r) False) v = uni_loop E c alive ch (U_Select None False) v'
         \<and> g_log G v' ch = g_log G v ch @ map (\<lambda>m. Inr (m, None)) ms
             @ [Inl (RecvError.Serialization (SerializationError_new ''Empty message received from peer''))])
    \<and> (\<forall>s u. (\<forall>bs u. fst (q_write_all E s bs u) = Inr ()) \<longrightarrow> fst (send_user_msg E s [] u) = Inr ())"
proof
  let ?empty = "RecvError.Serialization (SerializationError_new ''Empty message received from peer'')"
  have "send_stream_laws E (g_sent G)"
    using assms(1) by (simp add: runtime_laws_def transport_laws_def)
  from send_stream_laws.write_msgs_sent [OF this assms(2)] assms(3) have
    sent: "g_avail G v r = encode_frames E (map UserMsg (ms @ [] # later))" and
    framed: "\<forall>m \<in> set ms. \<exists>bs. encode_frame E (UserMsg m) = Inr bs"
    by (auto simp: assms(9))
  from framed have "\<forall>m \<in> set ms. length m < 2 ^ 32"
    by (auto simp: encode_frame_def MsgHeader_new_def split: if_splits)
  with assms(4) have items: "uni_items E (g_avail G v r) (g_fate G v r) = map Inr ms @ [Inl ?empty]"
    unfolding sent by (intro uni_items_behind_empty) simp
  from runtime_laws.uni_stream [OF assms(1,5-8), of c] show "\<exists>v'.
      uni_loop E c alive ch (U_Select (Some r) False) v = uni_loop E c alive ch (U_Select None False) v'
      \<and> g_log G v' ch = g_log G v ch @ map (\<lambda>m. Inr (m, None)) ms @ [Inl ?empty]"
    by (auto simp: items uni_item_def image_iff)
next
  show "\<forall>s u. (\<forall>bs u. fst (q_write_all E s bs u) = Inr ()) \<longrightarrow> fst (send_user_msg E s [] u) = Inr ()"
  proof (intro allI impI)
    fix s u
    assume ok: "\<forall>bs u. fst (q_write_all E s bs u) = Inr ()"
    then have "\<exists>u'. q_write_all E s bs u = (Inr (), u')" for bs u by (metis prod.collapse)
    then show "fst (send_user_msg E s [] u) = Inr ()"
      by (auto simp: send_user_msg_def write_to_stream_def MsgHeader_new_def Let_def io_bind_def io_map_err_def
          split: prod.splits sum.splits) (metis fst_conv ok sum.distinct(1))+
  qed
qed

theorem empty_message_not_delivered_witness:
  "\<exists>w1 v'. write_msgs net_env [UserMsg [4], UserMsg [], UserMsg [5]] 4 net_init = (Inr (), w1)
     \<and> uni_loop net_env 6 2 3 (U_Select (Some 5) False) (net_init\<lparr>n_rx := (\<lambda>_. ([n_tx w1 4], Finished))\<rparr>) =
         uni_loop net_env 6 2 3 (U_Select None False) v'
     \<and> n_log v' 3 = [Inr ([4], None),
         Inl (RecvError.Serialization (SerializationError_new ''Empty message received from peer''))]"
proof -
  obtain w1 where w1: "write_msgs net_env [UserMsg [4], UserMsg [], UserMsg [5]] 4 net_init = (Inr (), w1)"
    by (simp add: write_to_stream_def MsgHeader_new_def net_write_all_def net_init_def)
  then have "write_msgs net_env (map UserMsg ([[4]] @ [] # [[5]])) 4 net_init = (Inr (), w1)" by simp
  from empty_message_not_delivered [OF net_runtime.runtime_laws_axioms this, of 2 3
      "net_init\<lparr>n_rx := (\<lambda>_. ([n_tx w1 4], Finished))\<rparr>" 5 6] w1
  show ?thesis by (auto simp: handles_held_def net_init_def)
qed

end
