(* ===== verification/System_Props.thy ===== *)
theory System_Props
  imports Mailbox Connection_Props User_Streams
begin

text \<open>
  The properties of programs with connections, over any transport and channels that obey their
  laws, and in every interleaving, each with an instance on the in-memory transport.
\<close>

section \<open>A connection with both kinds of streams\<close>

definition mixed_streams :: net where
  "mixed_streams =
     net_init\<lparr>n_rx := (\<lambda>r. ([[0, 1, 0, 0, 0, 2, 0, 0, 0, 4, 5]], Finished)),
              n_in_uni := (\<lambda>c. [Inr 3, Inl Q_LocallyClosed]),
              n_in_bi := (\<lambda>c. [Inr (8, 4), Inl Q_LocallyClosed])\<rparr>"

text \<open>The state after a connection was made of it, and the connection.\<close>

definition mixed_start :: net where
  "mixed_start = snd (Connection_new net_env 0 None 6 mixed_streams)"

definition mixed_link :: link where
  "mixed_link = link_of 0 (V4 (Ipv4 127 0 0 1) 5000) (fst (Connection_new net_env 0 None 6 mixed_streams))"

lemma mixed_fields [simp]:
  "lk_conn mixed_link = 6" "n_rx mixed_start = n_rx mixed_streams"
  "n_in_uni mixed_start 6 = [Inr 3, Inl Q_LocallyClosed]"
  "n_in_bi mixed_start 6 = [Inr (8, 4), Inl Q_LocallyClosed]"
  by (simp_all add: mixed_link_def mixed_start_def link_of_def Connection_new_def ConnectionIncoming_new_def
      start_message_listeners_def net_fresh_def net_msg_channel_def Let_def mixed_streams_def)

lemma mixed_new: "new_streams net_ghost Map.empty 6 mixed_start"
proof -
  have "n_next mixed_start = 12"
    by (simp add: mixed_start_def Connection_new_def ConnectionIncoming_new_def start_message_listeners_def
        net_fresh_def net_msg_channel_def Let_def mixed_streams_def net_init_def)
  then show ?thesis by (simp add: new_streams_def conn_rx_def)
qed

lemma mixed_open:
  "handles_held net_env (lk_alive mixed_link)" "bi_closes (g_bi net_ghost mixed_start (lk_conn mixed_link))"
  by (simp_all add: handles_held_def)

lemma mixed_items:
  "map uni_item (uni_total net_env net_ghost 6 mixed_start) = [Inr ([4, 5], None)]"
  "bi_items net_env 8 (concat (fst (n_rx mixed_streams 4))) (snd (n_rx mixed_streams 4)) = [Inr ([4, 5], Some 8)]"
proof -
  show "map uni_item (uni_total net_env net_ghost 6 mixed_start) = [Inr ([4, 5], None)]"
    by (simp add: uni_total_def uni_item_def) (simp add: mixed_streams_def uni_items_4_5)
  have "bi_items net_env 8 [] Finished = []" by (simp add: bi_items.simps decode_frame_def)
  then show "bi_items net_env 8 (concat (fst (n_rx mixed_streams 4))) (snd (n_rx mixed_streams 4)) = [Inr ([4, 5], Some 8)]"
    by (subst bi_items.simps) (simp add: mixed_streams_def decode_user_4_5)
qed

lemma mixed_step:
  "program_step net_env net_ghost (Map.empty, mixed_streams) ([mixed_link \<mapsto> (conn_start, mixed_start)], mixed_start)"
proof -
  let ?made = "Connection_new net_env 0 None 6 mixed_streams"
  have "?made = (fst ?made, mixed_start)" by (simp add: mixed_start_def)
  from program_step.accepted [OF this, of net_ghost Map.empty "V4 (Ipv4 127 0 0 1) 5000"] mixed_new
  show ?thesis by (simp add: mixed_link_def)
qed

lemma mixed_made: "program_run net_env net_ghost mixed_streams ([mixed_link \<mapsto> (conn_start, mixed_start)], mixed_start)"
  by (rule r_into_rtranclp) (rule mixed_step)

lemma mixed_finishes:
  obtains t w where "program_run net_env net_ghost mixed_streams ([mixed_link \<mapsto> (t, mixed_start)], w)"
    "conn_finished net_ghost mixed_link (t, w)"
  using connection_laws.program_finishes [OF net_connection.connection_laws_axioms mixed_made, of mixed_link conn_start mixed_start]
    mixed_made by (auto intro: rtranclp_trans)

lemma sent_by_member: "x \<in> set (sent_by k h) \<Longrightarrow> x \<in> set (map snd h)"
  by (auto simp: sent_by_def)

section \<open>The contract of a connection\<close>

text \<open>
  C4. Every connection of every program is a mailbox. A connection that is made starts as the
  mailbox whose streams are those the peer opens on it; and whatever step the program takes then,
  each connection goes on as its mailbox does, by at most one step of the abstract machine. What
  the mailbox has queued is what waits in the channel, and what it has delivered is what the
  application has received.
\<close>

theorem connection_refines_mailbox:
  assumes "connection_laws E G" and "program_run E G v (cs, w)" and "program_step E G (cs, w) (cs', w')"
  shows "(\<forall>L t' w0. cs L = None \<and> cs' L = Some (t', w0) \<longrightarrow>
            simulates E G L w0 (t', w') (mailbox_start E G (lk_conn L) w0))
    \<and> (\<forall>L t w0 m. cs L = Some (t, w0) \<and> simulates E G L w0 (t, w) m \<longrightarrow>
         (\<exists>t' m'. cs' L = Some (t', w0) \<and> simulates E G L w0 (t', w') m' \<and> mailbox_step\<^sup>=\<^sup>= m m'))
    \<and> (\<forall>L t w0 m. simulates E G L w0 (t, w) m \<longrightarrow>
         mb_queue m = drop (g_taken G w (lk_ch L)) (g_log G w (lk_ch L)) \<and> mb_got m = ct_got t)"
proof (intro conjI allI impI; (elim conjE)?)
  fix L t' w0
  assume "cs L = None" "cs' L = Some (t', w0)"
  with assms show "simulates E G L w0 (t', w') (mailbox_start E G (lk_conn L) w0)"
    by (rule connection_laws.program_simulates_start)
next
  fix L t w0 m
  assume "cs L = Some (t, w0)" "simulates E G L w0 (t, w) m"
  with assms show "\<exists>t' m'. cs' L = Some (t', w0) \<and> simulates E G L w0 (t', w') m' \<and> mailbox_step\<^sup>=\<^sup>= m m'"
    by (rule connection_laws.program_simulates_step)
qed (auto simp: simulates_def mailbox_of_def)

theorem connection_refines_mailbox_witness:
  "simulates net_env net_ghost mixed_link mixed_start (conn_start, mixed_start) (mailbox_start net_env net_ghost 6 mixed_start)
   \<and> mb_streams (mailbox_start net_env net_ghost 6 mixed_start) From_Uni = [Inr ([4, 5], None)]
   \<and> mb_streams (mailbox_start net_env net_ghost 6 mixed_start) (From_Bi (8, 4)) = [Inr ([4, 5], Some 8)]"
proof -
  from connection_refines_mailbox [OF net_connection.connection_laws_axioms rtranclp.rtrancl_refl mixed_step]
  have "simulates net_env net_ghost mixed_link mixed_start (conn_start, mixed_start)
      (mailbox_start net_env net_ghost (lk_conn mixed_link) mixed_start)" by (elim conjE allE [of _ mixed_link]) simp
  then show ?thesis by (simp add: mailbox_start_def mixed_items)
qed

section \<open>What the application receives\<close>

text \<open>
  C3. In every program, however the tasks of its connections are interleaved, with each other,
  with new connections being made and with messages being sent, each connection keeps its order:
  its channel holds an interleaving of what its listeners got out of its streams, each stream's
  results in the order of the stream and none of them twice or invented, and the application has
  received a prefix of exactly that.
\<close>

theorem received_from_streams_in_order:
  assumes "connection_laws E G" and "program_run E G v (cs, w)" and "cs L = Some (t, w0)"
  shows "\<exists>h. g_log G w (lk_ch L) = map snd h
    \<and> fst ` set h \<subseteq> insert From_Uni (From_Bi ` set (rights (g_bi G w0 (lk_conn L))))
    \<and> prefix (sent_by From_Uni h) (map uni_item (uni_total E G (lk_conn L) w0))
    \<and> (\<forall>(s, r) \<in> set (rights (g_bi G w0 (lk_conn L))).
         prefix (sent_by (From_Bi (s, r)) h) (bi_items E s (g_avail G w0 r) (g_fate G w0 r)))
    \<and> (\<exists>n. ct_got t = map item_result (take n (map snd h)))"
proof -
  have laws: "runtime_laws E G" using assms(1) by (simp add: connection_laws_def)
  obtain as where run: "conn_run E G L (conn_rx G (lk_conn L) w0) (conn_start, w0) as (t, w)" "conn_ready G L w0"
    "g_log G w0 (lk_ch L) = []" "g_taken G w0 (lk_ch L) = 0"
    by (rule connection_laws.program_run_connection [OF assms])
  from runtime_laws.conn_run_ok(1) [OF laws run(1,2)] obtain h results where
    inv: "conn_inv E G L w0 h results t w" by (auto simp: conn_ok_def)
  then have "prefix (map uni_item results) (map uni_item (uni_total E G (lk_conn L) w0))"
    by (auto simp: conn_inv_def dest!: uni_inv_prefix intro: map_mono_prefix)
  with inv run(3,4) show ?thesis
    by (intro exI [of _ h]) (auto simp: conn_inv_def received_def dest: bi_state_inv_prefix)
qed

theorem received_from_streams_in_order_witness:
  "\<exists>t w h. program_run net_env net_ghost mixed_streams ([mixed_link \<mapsto> (t, mixed_start)], w)
     \<and> conn_finished net_ghost mixed_link (t, w) \<and> n_log w (lk_ch mixed_link) = map snd h
     \<and> prefix (sent_by From_Uni h) [Inr ([4, 5], None)] \<and> prefix (sent_by (From_Bi (8, 4)) h) [Inr ([4, 5], Some 8)]"
proof -
  obtain t w where run: "program_run net_env net_ghost mixed_streams ([mixed_link \<mapsto> (t, mixed_start)], w)"
    "conn_finished net_ghost mixed_link (t, w)"
    by (rule mixed_finishes)
  from received_from_streams_in_order [OF net_connection.connection_laws_axioms run(1), of mixed_link t mixed_start]
  have "\<exists>h. n_log w (lk_ch mixed_link) = map snd h \<and> prefix (sent_by From_Uni h) [Inr ([4, 5], None)]
      \<and> prefix (sent_by (From_Bi (8, 4)) h) [Inr ([4, 5], Some 8)]"
    by (auto simp: mixed_items)
  with run show ?thesis by blast
qed

text \<open>
  The application has received what the listeners specify, and nothing else: the results of the
  unidirectional streams and the items of each bidirectional stream, each in their order.
\<close>

definition all_received ::
  "'w env \<Rightarrow> 'w ghost \<Rightarrow> conn_id \<Rightarrow> 'w \<Rightarrow> history \<Rightarrow> (RecvError + (bytes \<times> SendStream option) option) list \<Rightarrow> bool" where
  "all_received E G c w0 h got \<longleftrightarrow> got = map item_result (map snd h)
     \<and> fst ` set h \<subseteq> insert From_Uni (From_Bi ` set (rights (g_bi G w0 c)))
     \<and> sent_by From_Uni h = map uni_item (uni_total E G c w0)
     \<and> (\<forall>(s, r) \<in> set (rights (g_bi G w0 c)).
          sent_by (From_Bi (s, r)) h = bi_items E s (g_avail G w0 r) (g_fate G w0 r))"

lemma finished_all_received:
  assumes "connection_laws E G" and "program_run E G v (cs, w)" and "cs L = Some (t, w0)"
    and "handles_held E (lk_alive L)" and "bi_closes (g_bi G w0 (lk_conn L))" and "conn_finished G L (t, w)"
  obtains h where "ct_uni t = U_Stopped" "ct_bi t = B_Ended" "all_received E G (lk_conn L) w0 h (ct_got t)"
proof -
  let ?c = "lk_conn L" and ?ch = "lk_ch L"
  have laws: "runtime_laws E G" using assms(1) by (simp add: connection_laws_def)
  obtain as where run: "conn_run E G L (conn_rx G ?c w0) (conn_start, w0) as (t, w)" "conn_ready G L w0"
    "g_log G w0 ?ch = []" "g_taken G w0 ?ch = 0"
    by (rule connection_laws.program_run_connection [OF assms(1-3)])
  from runtime_laws.conn_run_ok(1) [OF laws run(1,2)] obtain h results where
    inv: "conn_inv E G L w0 h results t w" by (auto simp: conn_ok_def)
  have "bi_closing G ?c (ct_bi t) w"
    using runtime_laws.conn_run_closing [OF laws run(1,2) assms(4,5)] by simp
  with assms(6) have b: "ct_bi t = B_Ended" "g_bi G w ?c = []" by (cases "ct_bi t"; simp add: conn_finished_def)+
  have "never_signalled E (lk_alive L)" using assms(4) by (rule handles_held_never_signalled)
  then have u: "ct_uni t = U_Stopped" "results = uni_total E G ?c w0"
    using inv assms(4,6) by (cases "ct_uni t"; simp add: conn_inv_def uni_inv_def conn_finished_def)+
  have "ct_got t = map item_result (map snd h)"
    using inv assms(6) run(3,4) by (auto simp: conn_inv_def received_def conn_finished_def)
  moreover have "sent_by (From_Bi (s, r)) h = bi_items E s (g_avail G w0 r) (g_fate G w0 r)"
    if "(s, r) \<in> set (rights (g_bi G w0 ?c))" for s r
    by (rule bi_inv_complete [where w = w and ch = ?ch and c = ?c]) (use inv b that in \<open>simp_all add: conn_inv_def\<close>)
  ultimately have "all_received E G ?c w0 h (ct_got t)" using inv u by (auto simp: all_received_def conn_inv_def)
  with u(1) b(1) that show thesis by blast
qed

text \<open>
  C2. Everything is received that the listeners are to deliver. In every program, while a handle of
  a connection is held and its bidirectional streams end in an ordinary way, once both listeners
  have stopped and the application has emptied the channel, the listeners have ended in order and
  the application has received, and nothing else, the results of the unidirectional streams and
  the items of each bidirectional stream. Where streams carry frames of non-empty user messages and
  are finished, these are exactly the messages: all those of the unidirectional streams, stream
  after stream, if the connection is closed in an ordinary way, and all those of each
  bidirectional stream. What else a stream may carry costs messages: a unidirectional stream is
  given up at its first error, and the listener for these streams stops when the connection is lost.
\<close>

theorem everything_received:
  assumes "connection_laws E G" and "program_run E G v (cs, w)" and "cs L = Some (t, w0)"
    and "handles_held E (lk_alive L)" and "bi_closes (g_bi G w0 (lk_conn L))" and "conn_finished G L (t, w)"
  shows "ct_uni t = U_Stopped \<and> ct_bi t = B_Ended
    \<and> (\<exists>h. ct_got t = map item_result (map snd h)
         \<and> fst ` set h \<subseteq> insert From_Uni (From_Bi ` set (rights (g_bi G w0 (lk_conn L))))
         \<and> sent_by From_Uni h = map uni_item (uni_total E G (lk_conn L) w0)
         \<and> (\<forall>(s, r) \<in> set (rights (g_bi G w0 (lk_conn L))).
              sent_by (From_Bi (s, r)) h = bi_items E s (g_avail G w0 r) (g_fate G w0 r))
         \<and> (\<forall>mss. bi_closes (g_uni G w0 (lk_conn L))
              \<and> list_all2 (\<lambda>r ms. user_stream E ms (g_avail G w0 r) \<and> g_fate G w0 r = Finished)
                  (rights (g_uni G w0 (lk_conn L))) mss \<longrightarrow>
              sent_by From_Uni h = map (\<lambda>m. Inr (m, None)) (concat mss))
         \<and> (\<forall>(s, r) \<in> set (rights (g_bi G w0 (lk_conn L))). \<forall>ms.
              user_stream E ms (g_avail G w0 r) \<and> g_fate G w0 r = Finished \<longrightarrow>
              sent_by (From_Bi (s, r)) h = map (\<lambda>m. Inr (m, Some s)) ms))"
proof -
  let ?c = "lk_conn L"
  obtain h where h: "ct_uni t = U_Stopped" "ct_bi t = B_Ended" "all_received E G ?c w0 h (ct_got t)"
    by (rule finished_all_received [OF assms])
  have "sent_by From_Uni h = map (\<lambda>m. Inr (m, None)) (concat mss)"
    if "bi_closes (g_uni G w0 ?c)" "list_all2 (\<lambda>r ms. user_stream E ms (g_avail G w0 r) \<and> g_fate G w0 r = Finished)
      (rights (g_uni G w0 ?c)) mss" for mss
    using h(3) uni_results_user [OF that(2,1)] by (simp add: all_received_def uni_total_def uni_item_def)
  moreover have "sent_by (From_Bi (s, r)) h = map (\<lambda>m. Inr (m, Some s)) ms"
    if "(s, r) \<in> set (rights (g_bi G w0 ?c))" "user_stream E ms (g_avail G w0 r)" "g_fate G w0 r = Finished" for s r ms
    using h(3) that user_stream_items(2) [OF that(2), of s] by (fastforce simp: all_received_def)
  ultimately show ?thesis using h unfolding all_received_def by blast
qed

theorem everything_received_witness:
  "\<exists>t w. program_run net_env net_ghost mixed_streams ([mixed_link \<mapsto> (t, mixed_start)], w)
     \<and> ct_uni t = U_Stopped \<and> ct_bi t = B_Ended
     \<and> Inr (Some ([4, 5], None)) \<in> set (ct_got t) \<and> Inr (Some ([4, 5], Some 8)) \<in> set (ct_got t)"
proof -
  obtain t w where run: "program_run net_env net_ghost mixed_streams ([mixed_link \<mapsto> (t, mixed_start)], w)"
    "conn_finished net_ghost mixed_link (t, w)"
    by (rule mixed_finishes)
  from everything_received [OF net_connection.connection_laws_axioms run(1) _ mixed_open run(2)]
  have end_state: "ct_uni t = U_Stopped" "ct_bi t = B_Ended" and
    "\<exists>h. ct_got t = map item_result (map snd h) \<and> sent_by From_Uni h = [Inr ([4, 5], None)]
       \<and> sent_by (From_Bi (8, 4)) h = [Inr ([4, 5], Some 8)]"
    by (auto simp: mixed_items simp del: map_map)
  then obtain h where h: "ct_got t = map item_result (map snd h)" "sent_by From_Uni h = [Inr ([4, 5], None)]"
    "sent_by (From_Bi (8, 4)) h = [Inr ([4, 5], Some 8)]" by blast
  from sent_by_member [of "Inr ([4, 5], None)" From_Uni h] sent_by_member [of "Inr ([4, 5], Some 8)" "From_Bi (8, 4)" h] h(2,3)
  have "Inr ([4, 5], None) \<in> set (map snd h)" "Inr ([4, 5], Some 8) \<in> set (map snd h)" by auto
  from this [THEN imageI, of item_result] h(1) have "Inr (Some ([4, 5], None)) \<in> set (ct_got t)"
    "Inr (Some ([4, 5], Some 8)) \<in> set (ct_got t)" by (simp_all only: set_map item_result.simps)
  with run(1) end_state show ?thesis by blast
qed

text \<open>
  C6. The tasks of a connection come to an end, provided that what its streams report once their
  bytes are read is a finite number of errors, which the model of a stream takes for granted.
  However a program came to its state, the two listeners and the receiving application of a
  connection have taken at most \<open>conn_work\<close> steps since it was made; and from there, steps of these
  three alone lead to where each listener has stopped, in one way or another, and the channel is
  empty. While a handle of the connection is held and its bidirectional streams end in an ordinary
  way, the listeners have then neither panicked nor failed nor been dropped, and the application
  has received all that they are to deliver.
\<close>

theorem connection_tasks_terminate:
  assumes "connection_laws E G" and "program_run E G v (cs, w)" and "cs L = Some (t, w0)"
  shows "(\<forall>as. conn_run E G L (conn_rx G (lk_conn L) w0) (conn_start, w0) as (t, w) \<longrightarrow>
            length (filter (\<lambda>a. a \<noteq> By_Others) as) \<le> conn_work G L (conn_start, w0))
    \<and> (\<exists>t' w'. (program_step E G)\<^sup>*\<^sup>* (cs, w) (cs(L \<mapsto> (t', w0)), w') \<and> conn_finished G L (t', w')
         \<and> (handles_held E (lk_alive L) \<and> bi_closes (g_bi G w0 (lk_conn L)) \<longrightarrow>
              ct_uni t' = U_Stopped \<and> ct_bi t' = B_Ended
              \<and> (\<exists>h. all_received E G (lk_conn L) w0 h (ct_got t'))))"
proof -
  have laws: "runtime_laws E G" using assms(1) by (simp add: connection_laws_def)
  obtain as where "conn_ready G L w0" by (rule connection_laws.program_run_connection [OF assms])
  then have bound: "length (filter (\<lambda>a. a \<noteq> By_Others) as) \<le> conn_work G L (conn_start, w0)"
    if "conn_run E G L (conn_rx G (lk_conn L) w0) (conn_start, w0) as (t, w)" for as
    using runtime_laws.conn_run_ok(2) [OF laws that] by simp
  from connection_laws.program_finishes [OF assms] obtain t' w' where
    fin: "(program_step E G)\<^sup>*\<^sup>* (cs, w) (cs(L \<mapsto> (t', w0)), w')" "conn_finished G L (t', w')" by blast
  have "ct_uni t' = U_Stopped \<and> ct_bi t' = B_Ended \<and> (\<exists>h. all_received E G (lk_conn L) w0 h (ct_got t'))"
    if "handles_held E (lk_alive L)" "bi_closes (g_bi G w0 (lk_conn L))"
    by (rule finished_all_received [OF assms(1) rtranclp_trans [OF assms(2) fin(1)] _ that fin(2)]) auto
  with bound fin show ?thesis by blast
qed

theorem connection_tasks_terminate_witness:
  "\<exists>t w h. (program_step net_env net_ghost)\<^sup>*\<^sup>* ([mixed_link \<mapsto> (conn_start, mixed_start)], mixed_start)
       ([mixed_link \<mapsto> (t, mixed_start)], w) \<and> conn_finished net_ghost mixed_link (t, w)
     \<and> ct_uni t = U_Stopped \<and> ct_bi t = B_Ended \<and> all_received net_env net_ghost 6 mixed_start h (ct_got t)"
  using connection_tasks_terminate [OF net_connection.connection_laws_axioms mixed_made, of mixed_link conn_start mixed_start]
    mixed_open by auto

text \<open>
  C11. Connections do not get into each other's way. In every program, different connections have
  different message channels and no receive stream in common; so whatever a task of one connection
  does, be it to receive, to fail or to lose its connection, every other connection has the same
  items in its channel, of which as many are taken, its streams have the same to deliver and the
  same streams of the peer are waiting to be accepted.
\<close>

theorem connections_do_not_interfere:
  assumes "connection_laws E G" and "program_run E G v (cs, w)"
    and "cs L = Some (t, w0)" and "cs M = Some (u, v0)" and "L \<noteq> M"
    and "conn_step E G L (conn_rx G (lk_conn L) w0) (t, w) a (t', w')" and "a \<noteq> By_Others"
  shows "lk_ch L \<noteq> lk_ch M \<and> conn_rx G (lk_conn L) w0 \<inter> conn_rx G (lk_conn M) v0 = {}
    \<and> g_log G w' (lk_ch M) = g_log G w (lk_ch M) \<and> g_taken G w' (lk_ch M) = g_taken G w (lk_ch M)
    \<and> (\<forall>r \<in> conn_rx G (lk_conn M) v0. g_avail G w' r = g_avail G w r \<and> g_fate G w' r = g_fate G w r)
    \<and> g_uni G w' (lk_conn M) = g_uni G w (lk_conn M) \<and> g_bi G w' (lk_conn M) = g_bi G w (lk_conn M)"
proof -
  from connection_laws.program_run_ok [OF assms(1,2)] have ok: "program_ok E G (cs, w)" .
  with assms(3-5) have "apart G L w0 M v0" "on_its_own E G w M (u, v0)" by (fastforce simp: program_ok_def)+
  moreover from connection_laws.on_its_own_live(1) [OF assms(1) this(2)]
  have "lk_ch M \<in> g_live_ch G w" "conn_rx G (lk_conn M) v0 \<subseteq> g_live_rx G w" by (simp_all add: conn_live_def)
  moreover from connection_laws.task_undisturbed [OF assms(1) ok assms(3,7,6,4,5)]
  have "undisturbed G M (conn_rx G (lk_conn M) v0) w w'" .
  ultimately show ?thesis
    unfolding undisturbed_def apart_def by (auto dest: same_streamsD)
qed

text \<open>A program with two connections, on each of which the peer opens a stream.\<close>

definition twin_streams :: net where
  "twin_streams =
     net_init\<lparr>n_rx := (\<lambda>r. ([[0, 1, 0, 0, 0, 2, 0, 0, 0, 4, 5]], Finished)),
              n_in_uni := (\<lambda>c. [Inr (if c = 6 then 3 else 4), Inl Q_LocallyClosed])\<rparr>"

definition twin_start :: net where
  "twin_start = snd (Connection_new net_env 0 None 6 twin_streams)"

definition twins_start :: net where
  "twins_start = snd (Connection_new net_env 0 None 7 twin_start)"

definition twin_link :: link where
  "twin_link = link_of 0 (V4 (Ipv4 127 0 0 1) 5000) (fst (Connection_new net_env 0 None 6 twin_streams))"

definition other_link :: link where
  "other_link = link_of 0 (V4 (Ipv4 127 0 0 1) 6000) (fst (Connection_new net_env 0 None 7 twin_start))"

lemmas twin_defs = twin_streams_def twin_start_def twins_start_def twin_link_def other_link_def link_of_def
  Connection_new_def ConnectionIncoming_new_def start_message_listeners_def net_fresh_def net_msg_channel_def
  Let_def net_init_def

lemma twin_fields:
  "lk_conn twin_link = 6" "lk_conn other_link = 7" "lk_ch other_link = 13" "n_log twins_start 13 = []"
  "n_next twin_start = 12" "n_next twins_start = 14"
  "n_in_uni twin_start = n_in_uni twin_streams" "n_in_uni twins_start = n_in_uni twin_streams"
  "n_in_bi twin_start = (\<lambda>c. [])" "n_in_bi twins_start = (\<lambda>c. [])"
  by (simp_all add: twin_defs)

lemma twins_run:
  "program_run net_env net_ghost twin_streams
     ([twin_link \<mapsto> (conn_start, twin_start), other_link \<mapsto> (conn_start, twins_start)], twins_start)"
proof -
  let ?made = "Connection_new net_env 0 None 6 twin_streams" and ?made2 = "Connection_new net_env 0 None 7 twin_start"
  have "new_streams net_ghost Map.empty 6 twin_start"
    by (simp add: new_streams_def conn_rx_def twin_fields) (simp add: twin_streams_def)
  from program_step.accepted [of net_env 0 None 6 twin_streams "fst ?made" twin_start net_ghost Map.empty, OF _ this,
      of "V4 (Ipv4 127 0 0 1) 5000"]
  have 1: "program_step net_env net_ghost (Map.empty, twin_streams) ([twin_link \<mapsto> (conn_start, twin_start)], twin_start)"
    by (simp add: twin_link_def twin_start_def)
  have "new_streams net_ghost [twin_link \<mapsto> (conn_start, twin_start)] 7 twins_start"
    by (simp add: new_streams_def conn_rx_def twin_fields) (simp add: twin_streams_def)
  from program_step.accepted [of net_env 0 None 7 twin_start "fst ?made2" twins_start net_ghost, OF _ this,
      of "V4 (Ipv4 127 0 0 1) 6000"]
  have 2: "program_step net_env net_ghost ([twin_link \<mapsto> (conn_start, twin_start)], twin_start)
      ([twin_link \<mapsto> (conn_start, twin_start), other_link \<mapsto> (conn_start, twins_start)], twins_start)"
    by (simp add: other_link_def twins_start_def)
  have "program_run net_env net_ghost twin_streams ([twin_link \<mapsto> (conn_start, twin_start)], twin_start)"
    by (rule r_into_rtranclp) (rule 1)
  from rtranclp.rtrancl_into_rtrancl [OF this 2] show ?thesis .
qed

theorem connections_do_not_interfere_witness:
  "\<exists>t' w'. conn_step net_env net_ghost twin_link (conn_rx net_ghost 6 twin_start) (conn_start, twins_start) By_Uni (t', w')
     \<and> lk_ch twin_link \<noteq> 13 \<and> n_log w' 13 = [] \<and> n_in_uni w' 7 = [Inr 4, Inl Q_LocallyClosed]"
proof -
  obtain u' w' where "uni_step net_env 6 (lk_alive twin_link) (lk_ch twin_link) (ct_uni conn_start) twins_start = (u', w')"
    by (metis prod.exhaust)
  then have step: "conn_step net_env net_ghost twin_link (conn_rx net_ghost (lk_conn twin_link) twin_start)
      (conn_start, twins_start) By_Uni (conn_start\<lparr>ct_uni := u'\<rparr>, w')"
    by (intro conn_step.uni) (simp_all add: twin_fields conn_start_def)
  have "twin_link \<noteq> other_link" using twin_fields(1,2) by auto
  with connections_do_not_interfere [OF net_connection.connection_laws_axioms twins_run _ _ _ step, of other_link]
  have "lk_ch twin_link \<noteq> 13 \<and> n_log w' 13 = [] \<and> n_in_uni w' 7 = [Inr 4, Inl Q_LocallyClosed]"
    by (simp add: twin_fields) (simp add: twin_streams_def)
  with step show ?thesis by (auto simp: twin_fields)
qed

text \<open>
  C20. The listener for unidirectional streams polls a future that may already have resolved, which
  would panic. In no program does it come to that as long as nobody sends a value over the \<open>alive\<close>
  channel, and the crate never does: when the last handle is dropped, the listener just stops.
\<close>

theorem no_panic_without_signal:
  assumes "connection_laws E G" and "program_run E G v (cs, w)" and "cs L = Some (t, w0)"
    and "never_signalled E (lk_alive L)"
  shows "ct_uni t \<noteq> U_Panicked
    \<and> (t_select E (lk_alive L) w = RightErr \<and> \<not> uni_done (ct_uni t) \<longrightarrow>
        program_step E G (cs, w) (cs(L \<mapsto> (t\<lparr>ct_uni := U_Stopped\<rparr>, w0)), w))"
proof -
  have laws: "runtime_laws E G" using assms(1) by (simp add: connection_laws_def)
  obtain as where run: "conn_run E G L (conn_rx G (lk_conn L) w0) (conn_start, w0) as (t, w)" "conn_ready G L w0"
    by (rule connection_laws.program_run_connection [OF assms(1-3)])
  from runtime_laws.conn_run_ok(1) [OF laws run] obtain h results where
    "conn_inv E G L w0 h results t w" by (auto simp: conn_ok_def)
  with assms(4) have u: "uni_unresolved (ct_uni t)" by (auto simp: conn_inv_def uni_inv_def)
  moreover have "uni_step E (lk_conn L) (lk_alive L) (lk_ch L) (ct_uni t) w = (U_Stopped, w)"
    if "t_select E (lk_alive L) w = RightErr" "\<not> uni_done (ct_uni t)"
    using that u by (cases "ct_uni t") auto
  ultimately show ?thesis by (auto intro!: program_step.task [of cs, OF assms(3)] intro: conn_step.uni)
qed

theorem no_panic_without_signal_witness:
  "\<exists>t w. program_run net_env net_ghost mixed_streams ([mixed_link \<mapsto> (t, mixed_start)], w)
     \<and> conn_finished net_ghost mixed_link (t, w) \<and> ct_uni t \<noteq> U_Panicked"
proof -
  obtain t w where run: "program_run net_env net_ghost mixed_streams ([mixed_link \<mapsto> (t, mixed_start)], w)"
    "conn_finished net_ghost mixed_link (t, w)"
    by (rule mixed_finishes)
  have "never_signalled net_env (lk_alive mixed_link)"
    using handles_held_never_signalled [OF mixed_open(1)] .
  from no_panic_without_signal [OF net_connection.connection_laws_axioms run(1) _ this] run show ?thesis by auto
qed

end
