(* ===== verification/Config_Props.thy ===== *)
theory Config_Props
  imports Listeners Loopback
begin

text \<open>
  Configuration and errors: what validation keeps of a configuration, how durations are read
  from the command line, and which errors of a connection are not reported.
\<close>

text \<open>
  C32. A configuration that passes validation is kept: the transport settings, which client
  and server share, have the configured idle timeout and keep-alive interval or the default,
  every other field is copied or filled with its default, and the client is set up to accept
  any certificate.
\<close>

theorem validated_config:
  assumes "try_from_config T cfg = Some (Inr ic)"
  shows "\<exists>idle roots transport.
           idle_timeout_try_from T (case cfg_idle_timeout cfg of None \<Rightarrow> DEFAULT_IDLE_TIMEOUT | Some d \<Rightarrow> d)
             = Inr idle
         \<and> transport = (transport_default T)\<lparr>tc_max_idle_timeout := Some idle,
                         tc_keep_alive_interval := cfg_keep_alive_interval cfg\<rparr>
         \<and> sc_transport (ic_server ic) = transport
         \<and> ic_client ic = (client_new T \<lparr>rc_roots = roots, rc_verifier = SkipCertificateVerification\<rparr>)
                            \<lparr>cc_transport := transport\<rparr>
         \<and> ic_forward_port ic = cfg_forward_port cfg
         \<and> ic_external_port ic = cfg_external_port cfg \<and> ic_external_ip ic = cfg_external_ip cfg
         \<and> ic_upnp_lease_duration ic =
             (case cfg_upnp_lease_duration cfg of None \<Rightarrow> DEFAULT_UPNP_LEASE_DURATION | Some d \<Rightarrow> d)
         \<and> ic_retry_config ic = cfg_retry_config cfg"
  using assms
  by (auto simp: try_from_config_def new_transport_config_def Let_def
      split: sum.splits option.splits prod.splits)

theorem validated_config_witness:
  "\<exists>ic. try_from_config net_tls (Config_default\<lparr>cfg_keep_alive_interval := Some (from_secs 5)\<rparr>) = Some (Inr ic)
     \<and> tc_max_idle_timeout (sc_transport (ic_server ic)) = Some 18000
     \<and> tc_keep_alive_interval (sc_transport (ic_server ic)) = Some (from_secs 5)
     \<and> ic_upnp_lease_duration ic = from_secs 120"
proof -
  let ?cfg = "Config_default\<lparr>cfg_keep_alive_interval := Some (from_secs 5)\<rparr>"
  have "\<exists>ic. try_from_config net_tls ?cfg = Some (Inr ic)"
    by (simp add: try_from_config_def net_tls_def generate_cert_def Config_default_def Let_def)
  then obtain ic where ic: "try_from_config net_tls ?cfg = Some (Inr ic)" by blast
  from validated_config [OF this] ic show ?thesis
    by (auto simp: Config_default_def net_tls_def DEFAULT_IDLE_TIMEOUT_def DEFAULT_UPNP_LEASE_DURATION_def
        from_secs_def)
qed

text \<open>
  C33. Waiting for streams ends quietly on a connection that was closed by this side, by the
  peer with the code 0, or by a timeout; on every other error of the connection the error is
  passed on, translated.
\<close>

theorem benign_close_ends_quietly:
  assumes "poll_next w = (Some (Inl e), w')"
  shows "filter_benign_close poll_next w =
    (if e = Q_TimedOut \<or> e = Q_LocallyClosed
        \<or> (\<exists>close. e = Q_ApplicationClosed close \<and> app_error_code close = 0)
     then None else Some (Inl (ConnectionError_from_quinn e)), w')"
  using assms is_benign_from_quinn [of e] by (simp add: filter_benign_close_def Let_def)

theorem benign_close_ends_quietly_witness:
  "fst (filter_benign_close (q_next_uni net_env 1)
      (net_init\<lparr>n_in_uni := (\<lambda>c. [Inl (Q_ApplicationClosed \<lparr>app_error_code = 7, app_reason = []\<rparr>)])\<rparr>))
     = Some (Inl (ConnectionError.Closed (Application 7 [])))"
  by (subst benign_close_ends_quietly
      [where e = "Q_ApplicationClosed \<lparr>app_error_code = 7, app_reason = []\<rparr>"]) (auto simp: pop_def)

text \<open>
  C36. A duration on the command line is a number of milliseconds: the decimal numeral of
  any 64-bit number gives that many, a larger one is refused as an overflow. So the defaults
  \<open>15\<close> and \<open>30\<close> given to the command line for the largest retry interval and for the time
  spent on retries are a thousandth of the 15 and 30 seconds that are the defaults of the
  library, while the default \<open>500\<close> of the initial interval agrees.
\<close>

theorem command_line_durations:
  "parse_millis (show_nat n) = (if n < 2 ^ 64 then Inr (n * 10 ^ 6) else Inl PosOverflow)
   \<and> parse_millis DEFAULT_INITIAL_RETRY_INTERVAL_STR = Inr (initial_retry_interval RetryConfig_default)
   \<and> map_sum id (\<lambda>d. 1000 * d) (parse_millis DEFAULT_MAX_RETRY_INTERVAL_STR)
       = Inr (max_retry_interval RetryConfig_default)
   \<and> map_sum id (\<lambda>d. 1000 * d) (parse_millis DEFAULT_RETRYING_MAX_ELAPSED_TIME_STR)
       = Inr (retrying_max_elapsed_time RetryConfig_default)"
proof -
  have parse: "parse_millis (show_nat k) = (if k < 2 ^ 64 then Inr (k * 10 ^ 6) else Inl PosOverflow)" for k
  proof -
    have "unat (of_nat k :: u64) = k" if "k < 2 ^ 64"
      using that by (simp add: unat_of_nat take_bit_eq_mod)
    then show ?thesis by (simp add: parse_millis_def parse_u64_show_nat from_millis_def)
  qed
  have "''500'' = show_nat 500" "''15'' = show_nat 15" "''30'' = show_nat 30" by code_simp+
  then have "parse_millis ''500'' = Inr 500000000" "parse_millis ''15'' = Inr 15000000"
    "parse_millis ''30'' = Inr 30000000"
    by (simp_all only: parse) simp_all
  with parse show ?thesis
    by (simp add: DEFAULT_INITIAL_RETRY_INTERVAL_STR_def DEFAULT_MAX_RETRY_INTERVAL_STR_def
        DEFAULT_RETRYING_MAX_ELAPSED_TIME_STR_def RetryConfig_default_def
        DEFAULT_INITIAL_RETRY_INTERVAL_def DEFAULT_MAX_RETRY_INTERVAL_def
        DEFAULT_RETRYING_MAX_ELAPSED_TIME_def from_secs_def from_millis_def)
qed

end
