(* ===== verification/Debug_Text.thy ===== *)
theory Debug_Text
  imports Endpoint Addr_Parse
begin

text \<open>
  The \<open>Debug\<close> implementations of the crate, as the text of the format \<open>:?\<close> without the flag for
  pretty printing, and what can be told from it.
\<close>

section \<open>The standard library's \<open>DebugStruct\<close>\<close>

text \<open>A field is its name and its value's text; the first one opens the brace.\<close>

fun debug_fields :: "bool \<Rightarrow> (string \<times> string) list \<Rightarrow> string" where
  "debug_fields has_fields [] = ''''"
| "debug_fields has_fields ((name, value) # entries) =
     (if has_fields then '', '' else '' { '') @ name @ '': '' @ value @ debug_fields True entries"

definition debug_struct_finish :: "string \<Rightarrow> (string \<times> string) list \<Rightarrow> string" where
  "debug_struct_finish name entries =
     name @ debug_fields False entries @ (if entries = [] then '''' else '' }'')"

definition debug_struct_finish_non_exhaustive :: "string \<Rightarrow> (string \<times> string) list \<Rightarrow> string" where
  "debug_struct_finish_non_exhaustive name entries =
     name @ debug_fields False entries @ (if entries = [] then '' { .. }'' else '', .. }'')"

section \<open>The implementations\<close>

definition debug_Connection :: "'w env \<Rightarrow> Connection \<Rightarrow> 'w \<Rightarrow> string" where
  "debug_Connection E self w =
     debug_struct_finish_non_exhaustive ''Connection''
       [(''id'', show_nat (Connection_id E self w)),
        (''remote_address'', show_addr (remote_address E self w))]"

definition debug_SendStream :: "SendStream \<Rightarrow> string" where
  "debug_SendStream self = debug_struct_finish_non_exhaustive ''SendStream'' []"

definition debug_RecvStream :: "RecvStream \<Rightarrow> string" where
  "debug_RecvStream self = debug_struct_finish_non_exhaustive ''RecvStream'' []"

text \<open>The derived text of the retry settings is a parameter, as is the one of a transport error code.\<close>

definition debug_Endpoint :: "(RetryConfig \<Rightarrow> string) \<Rightarrow> Endpoint \<Rightarrow> string" where
  "debug_Endpoint debug_retry self =
     debug_struct_finish ''Endpoint''
       [(''local_addr'', show_addr (ep_local_addr self)),
        (''quinn_endpoint'', [CHR 0x22] @ ''<endpoint omitted>'' @ [CHR 0x22]),
        (''retry_config'', debug_retry (ep_retry_config self))]"

fun debug_TransportErrorCode :: "(quinn_TransportErrorCode \<Rightarrow> string) \<Rightarrow> TransportErrorCode \<Rightarrow> string" where
  "debug_TransportErrorCode debug_code (TransportErrorCode code) = debug_code code"

fun display_TransportErrorCode :: "(quinn_TransportErrorCode \<Rightarrow> string) \<Rightarrow> TransportErrorCode \<Rightarrow> string" where
  "display_TransportErrorCode show_code (TransportErrorCode code) = show_code code"

section \<open>What the text tells\<close>

text \<open>A number that ends at a comma can be read off a text.\<close>

lemma show_nat_comma:
  assumes "show_nat m @ CHR '','' # x = show_nat n @ CHR '','' # y"
  shows "m = n \<and> x = y"
proof -
  have read: "read_number 10 (Suc (max m n)) None True (show_nat k @ CHR '','' # z) = Some (k, CHR '','' # z)"
    if "k \<le> max m n" for k z
    using that by (intro read_number_show_nat) (simp_all add: no_digit_def to_digit_def)
  have "Some (m, CHR '','' # x) = Some (n, CHR '','' # y)"
    using read [of m x] read [of n y] unfolding assms by simp
  then show ?thesis by simp
qed

lemma debug_Connection_identifies:
  assumes "debug_Connection E a w = debug_Connection E b w"
  shows "Connection_id E a w = Connection_id E b w"
    and "show_addr (remote_address E a w) = show_addr (remote_address E b w)"
proof -
  let ?tail = "\<lambda>c. '' remote_address: '' @ show_addr (remote_address E c w) @ '', .. }''"
  have "show_nat (Connection_id E a w) @ CHR '','' # ?tail a = show_nat (Connection_id E b w) @ CHR '','' # ?tail b"
    using assms by (simp add: debug_Connection_def debug_struct_finish_non_exhaustive_def)
  from show_nat_comma [OF this] show "Connection_id E a w = Connection_id E b w"
    and "show_addr (remote_address E a w) = show_addr (remote_address E b w)" by simp_all
qed

lemma debug_Endpoint_omits:
  "debug_Endpoint show_retry (self\<lparr>ep_public_addr := pa, quinn_endpoint := q, termination_tx := t\<rparr>) =
   debug_Endpoint show_retry self"
  by (simp add: debug_Endpoint_def)

end
