(* ===== verification/Spec2Isabelle.thy ===== *)
theory Spec2Isabelle
  imports Node_Props Test_Props System_Props Config_Props Debug_Text
begin

text \<open>
  A verification development for \<open>qp2p\<close>, a Rust crate for messages between peers over QUIC.

  \<^bold>\<open>The program.\<close> An endpoint (\<open>src/endpoint.rs\<close>) is bound to a socket. As a peer it may first
  connect to a contact, learn from it the address it is seen at, forward a port at the gateway
  (\<open>src/igd.rs\<close>) and have the contact verify that its public address can be reached; from then
  on a task accepts connections. A connection (\<open>src/connection.rs\<close>) has a sending half, which
  opens a new unidirectional stream for every message and retries unless the connection is
  lost, and a receiving half, a channel that two listener tasks feed: one reads the peer's
  unidirectional streams one after the other, the other serves its bidirectional streams
  concurrently and answers the echo and the verification RPC on them. Messages travel in frames
  (\<open>src/wire_msg.rs\<close>): a header of 9 bytes, then a user message as it is or a message of the
  RPCs in the \<open>bincode\<close> format. \<open>src/config.rs\<close> validates the configuration and holds the
  retry settings; \<open>src/error.rs\<close> has the errors and the conversions that \<open>?\<close> applies. The
  example \<open>examples/p2p_node.rs\<close> is a node on the command line that answers \<open>marco\<close> with \<open>polo\<close>.

  \<^bold>\<open>What models what.\<close> Definitions carry the source's names, with the type in front where a
  method name is not unique (\<open>Endpoint::close\<close> is \<open>Endpoint_close\<close>).
  \<^item> \<open>Prelude\<close>: words, byte strings, operations that may fail over an explicit state
    (\<open>('w, 'e, 'a) io\<close>) with their combinators and the rules to run and to invert them.
  \<^item> \<open>Sock_Addr\<close>, \<open>Addr_Parse\<close>, \<open>Std_Utf8\<close>: what the crate and its example use of the standard
    library, socket addresses with their text form, parsing them, the lossy decoding of UTF-8.
  \<^item> \<open>Wire_Types\<close>, \<open>Wire_Msg\<close>: \<open>WireMsg\<close> and \<open>MsgHeader\<close>, reading and writing frames
    (\<open>src/wire_msg.rs\<close>, \<open>src/utils.rs\<close>).
  \<^item> \<open>Errors\<close>: the error enums, their conversions, \<open>is_benign\<close> (\<open>src/error.rs\<close>).
  \<^item> \<open>Config\<close>: defaults, \<open>RetryConfig\<close>, \<open>parse_millis\<close>, \<open>try_from_config\<close> (\<open>src/config.rs\<close>).
  \<^item> \<open>Runtime\<close>: the parameters. Every function of \<open>quinn\<close>, \<open>tokio\<close>, \<open>backoff\<close>, \<open>futures\<close>,
    \<open>bincode\<close> and \<open>igd\<close> that the crate calls is a field of the record \<open>env\<close>, over an unknown
    state \<open>'w\<close>; those of the TLS libraries are fields of \<open>tls\<close>.
  \<^item> \<open>Connection\<close>: both halves of a connection, \<open>send\<close>, \<open>send_with\<close>, \<open>next\<close>, the stream types.
  \<^item> \<open>Listeners\<close>: the bodies of the two listener tasks. The unidirectional one is a loop over
    explicit states, where each step is one resolution of the \<open>select\<close> with the \<open>alive\<close>
    channel; the bidirectional one, whose streams are served concurrently, is the step relation
    \<open>bi_step\<close> over the list of the streams being served, any of which may go on next.
  \<^item> \<open>Igd\<close>: \<open>forward_port\<close>, \<open>add_port\<close>, \<open>renew_port\<close> and the renewal task.
  \<^item> \<open>Endpoint\<close>: creating peers and clients, connecting, the RPCs, the public address, the
    accept loop, closing.
  \<^item> \<open>Node\<close>: \<open>main\<close> of the example, over the state of the environment and the lines printed;
    \<open>serve_message\<close> is one round of the inner loop, \<open>serve_connection\<close> and \<open>serve_node\<close> the loops.
  \<^item> \<open>Endpoint_Tests\<close>, \<open>Connection_Tests\<close>: the unit tests of \<open>src/endpoint.rs\<close> and those of
    \<open>src/connection.rs\<close>, as programs. What only the tests call (sleeping, waiting for an endpoint to
    become idle) and the effect of dropping a value are fields of the record \<open>test_env\<close>.
  \<^item> \<open>Debug_Text\<close>: the \<open>Debug\<close> implementations.
  \<^item> \<open>Connection_System\<close>, \<open>Program\<close>: the tasks running together. \<open>conn_step\<close> is a step of one of the
    two listeners of a connection, of the application that receives from it, or of anything else;
    \<open>program_step\<close> is a step of a task of any connection, or \<open>connect_to\<close>, \<open>Connection::new\<close> as the
    accept loop calls it, \<open>send_with\<close>, a reply on a stream, or one of the RPCs. A program starts
    without connections; each one it makes starts its tasks in the states that
    \<open>start_message_listeners\<close> spawns them in.

  \<^bold>\<open>What the crate relies on.\<close> The laws of the parameters are locales over an \<open>env\<close> and ghost
  functions: \<open>recv_stream_laws\<close>, \<open>send_stream_laws\<close> and \<open>transport_laws\<close> for streams (bytes
  arrive in order in chunks of any size, operations touch only their own stream, opened
  streams are new), \<open>channel_laws\<close> for the message channel, \<open>backoff_laws\<close> for retries,
  \<open>select_laws\<close> and \<open>select_run_laws\<close> for \<open>select_ok\<close> (the first for its outcome, the second also for
  the states in which the futures complete), \<open>bincode_laws\<close>, \<open>termination_laws\<close> for the broadcast
  channel and \<open>incoming_laws\<close> for the accept loop. They state documented behaviour. What a stream
  gives after an error is not documented: the ghost \<open>fate\<close> of a stream is any finite sequence of
  errors before its end, so the theorems that the tasks of a connection come to an end are about
  streams that fail a finite number of times, and \<open>failing_stream_never_left\<close> shows what happens on
  one that does not. An operation that is dropped at its deadline may have done a part of what it
  does, and has changed nothing that the whole operation leaves alone. \<open>Loopback\<close> gives a
  network held in memory and the \<open>bincode\<close> format itself; every locale is interpreted on it,
  so the laws can hold together, and the witnesses run the model on it.

  \<^bold>\<open>What is shown.\<close>
  \<^item> \<open>Wire_Props\<close>: \<open>read_from_stream\<close> is the function \<open>decode_frame\<close> of the bytes on the stream,
    for every way they are cut into chunks; writing then reading is the identity; errors and
    boundaries of frames. \<open>User_Streams\<close>: a stream of user messages is delivered as these messages
    by either listener, and a unidirectional one loses what is behind an empty message.
  \<^item> \<open>Uni_Listener\<close>, \<open>Bi_Listener\<close>, \<open>Uni_Steps\<close>, \<open>Connection_Props\<close>: sending, receiving, the two
    RPC services, and for each listener an invariant and a measure of the work that is left,
    with what its steps rely on and what they guarantee to leave alone.
  \<^item> \<open>Mailbox\<close>: the contract of a connection as an abstract machine (streams, a queue, what was
    received), and that every step of a program is at most one step of the machine of each of its
    connections. It says nothing of listeners, channels or frames.
  \<^item> \<open>Connection_System\<close>, \<open>Program\<close>, \<open>System_Props\<close>: that the listeners do not disturb each
    other and connections do not interfere, so that in every program and every interleaving each
    connection hands over what its streams carry as the listeners read them, each stream in order;
    that all of it is received when the connection is closed in an ordinary way; that its tasks
    come to an end; and that no listener panics.
  \<^item> \<open>Connecting\<close>: the halves of a connection belong together, what bootstrapping returns, and that
    the RPCs leave what was there alone.
  \<^item> \<open>Accepting\<close>, \<open>Endpoint_Props\<close>, \<open>Peer_Props\<close>: accepted connections, connecting, the public
    address, and what a peer that was created has had verified.
  \<^item> \<open>Igd_Props\<close>, \<open>Config_Props\<close>: leases and their renewal; configuration and errors.
  \<^item> \<open>Node_Props\<close>, \<open>Endpoint_Tests\<close>: the calls the example makes and what it prints, how it ends, and that
    the address it prints can be read back; that the assertions of the endpoint's tests hold.
  \<^item> \<open>Delivery\<close>, \<open>Test_Props\<close>: what one side writes is what the other side reads, request by request
    and message by message; and with it that the tests of the connection pass when the set-up
    succeeds, the transport delivers in time and the endpoints become idle in time.
  \<^item> This theory: a message from \<open>send\<close> to \<open>next\<close>, the two RPCs from client to server and back,
    and closing an endpoint.

  \<^bold>\<open>Loops.\<close> No fuel is used. The loops of the listeners, of accepting, of renewing and of the
  example are \<open>partial_function (option)\<close>, where \<open>None\<close> is to run forever. That the listeners and the
  accept loop return, and serving a connection that is over, is proved, and for the renewal loop
  exactly when it does; for the loop on a bidirectional stream also when it does not. Reading a frame is a bounded sequence of reads. Durations are natural
  numbers of nanoseconds; lengths on the wire are 32-bit words, \<open>u64\<close> counters 64-bit words.

  \<^bold>\<open>Not modelled.\<close> Log output; the texts of errors that \<open>thiserror\<close> derives, apart from \<open>Close\<close>, which has
  its own; capacities of channels (a full channel only delays a sender); the mutex around a reply
  stream, which the application is given with each message and may hold for as long as it likes, so
  that an iteration of the loop on a bidirectional stream is one step here and may wait there; reference counting, so a
  handle is a number and that all handles of a connection are dropped is seen only through the
  \<open>alive\<close> channel, and in the tests through the parameter for drops; the derived \<open>serde\<close>, \<open>structopt\<close>
  and \<open>Debug\<close> code. The integration tests of \<open>src/tests\<close> spawn tasks of their own and run many
  endpoints against each other over real sockets, so their outcome is one of the scheduler, the
  network and of timing; the theorems on connecting, sending, receiving and the RPCs cover what they
  assert. \<open>src/lib.rs\<close> has only declarations. The features \<open>igd\<close> and \<open>structopt\<close> are on. The
  floating-point factors of the retry settings are passed on only, and are rationals. That a
  connection the transport hands over is a new one with streams of its own is a condition on the
  steps of \<open>Program\<close> that make one. These programs do nothing but the steps named above: they do not
  open streams of their own, finish them, or close connections and endpoints; how a connection ends
  is part of what its streams carry, and the drop of its handles is an outcome of the \<open>select\<close>.
\<close>

section \<open>Messages end to end\<close>

text \<open>
  The peer's unidirectional stream \<open>r\<close> carries what a successful \<open>send\<close> of the message put
  on its new stream, and is finished after it.
\<close>

definition delivered ::
  "'w env \<Rightarrow> 'w ghost \<Rightarrow> Connection \<Rightarrow> 'w \<Rightarrow> bytes \<Rightarrow> recv_id \<Rightarrow> bool" where
  "delivered E G conn w m r \<longleftrightarrow>
     (\<exists>v v'. send E conn m v = (Inr (), v')
        \<and> (\<forall>s. s \<notin> g_live_tx G v \<longrightarrow> encode_frame E (UserMsg m) = Inr (g_sent G v' s) \<longrightarrow>
               g_avail G w r = g_sent G v' s))
     \<and> g_fate G w r = Finished"

lemma delivered_items:
  assumes "sending_laws E G" and "bincode_laws E" and "delivered E G conn w m r" and "m \<noteq> []"
  shows "uni_items E (g_avail G w r) (g_fate G w r) = [Inr m]"
proof -
  from assms(3) obtain v v' where send: "send_with E conn m 0 None v = (Inr (), v')"
    and net: "\<And>s. s \<notin> g_live_tx G v \<Longrightarrow> encode_frame E (UserMsg m) = Inr (g_sent G v' s) \<Longrightarrow>
               g_avail G w r = g_sent G v' s"
    and fin: "g_fate G w r = Finished"
    by (auto simp: delivered_def send_def)
  from sending_laws.send_with_frame(1) [OF assms(1) send] net
  have "encode_frame E (UserMsg m) = Inr (g_avail G w r)" by fastforce
  from uni_items_frame [OF assms(2) this assms(4)] fin show ?thesis by simp
qed

lemma delivered_results:
  assumes "sending_laws E G" and "bincode_laws E" and "list_all2 (delivered E G conn w) ms rs"
    and "\<forall>m \<in> set ms. m \<noteq> []"
  shows "uni_results E (g_avail G w) (g_fate G w) (map Inr rs) = map Inr ms"
  using assms(3,4)
  by (induction ms rs) (simp_all add: delivered_items [OF assms(1,2)])

lemma rights_map_Inr [simp]: "rights (map Inr xs) = xs"
  by (induction xs) simp_all

text \<open>
  C1. Messages arrive as they were sent. Let the peer send non-empty messages one after the
  other, and let the transport deliver the streams that this opened, in that order. Then the
  listener on the receiving side ends when the connection does, and the application, reading
  the channel from where the listener started to fill it, gets exactly these messages in
  exactly this order.
\<close>

theorem sent_messages_received:
  assumes "connection_laws E G" and "bincode_laws E" and "handles_held E alive"
    and "message_rx inc \<in> g_live_ch G w" and "g_rx_open G w (message_rx inc)"
    and "c \<in> g_live_conn G w" and "g_uni G w c = map Inr rs" and "distinct rs"
    and "set rs \<subseteq> g_live_rx G w"
    and "list_all2 (delivered E G conn w) ms rs" and "\<forall>m \<in> set ms. m \<noteq> []"
  shows "\<exists>w'. listen_on_uni_streams E peer c alive (message_rx inc) w = Some (U_Stopped, w')
           \<and> (\<forall>w2. g_log G w2 (message_rx inc) = g_log G w' (message_rx inc)
                \<and> g_taken G w2 (message_rx inc) = length (g_log G w (message_rx inc)) \<longrightarrow>
                fst (receive_n E inc (length ms) w2) = map (\<lambda>m. Inr (Some (m, None))) ms)"
proof -
  have laws: "runtime_laws E G" "sending_laws E G" "channel_laws E G"
    using assms(1) by (simp_all add: connection_laws_def runtime_laws_def)
  let ?ch = "message_rx inc"
  obtain w' where w': "uni_loop E c alive ?ch (U_Select None False) w = Some (U_Stopped, w')"
    "g_log G w' ?ch = g_log G w ?ch @ map uni_item (map Inr ms)"
    using runtime_laws.uni_connection [OF laws(1) assms(3-6)] assms(7-9)
      delivered_results [OF laws(2) assms(2,10,11)] by auto
  have "fst (receive_n E inc (length ms) w2) = map (\<lambda>m. Inr (Some (m, None))) ms"
    if "g_log G w2 ?ch = g_log G w' ?ch" "g_taken G w2 ?ch = length (g_log G w ?ch)" for w2
    using channel_laws.receive_n_items [OF laws(3), of w2 inc "length ms"] that w'(2)
    by (simp add: uni_item_def)
  with w'(1) show ?thesis unfolding listen_on_uni_streams_def by blast
qed

text \<open>Two messages sent over \<open>some_connection\<close>, as the receiving side sees their streams.\<close>

definition arriving :: net where
  "arriving = net_init\<lparr>n_rx := (\<lambda>r. if r = 3 then ([[0, 1, 0, 0, 0, 2], [0, 0, 0, 4, 5]], Finished)
                                  else ([[0, 1, 0, 0, 0, 1, 0, 0, 0, 6]], Finished)),
                       n_in_uni := (\<lambda>c. [Inr 3, Inr 4])\<rparr>"

lemma send_net:
  assumes "length m < 2 ^ 32"
  obtains v' where "send net_env some_connection m net_init = (Inr (), v')"
proof -
  from assms obtain v' where "send_uni net_env some_connection m 0 net_init = (Inr (), v')"
    by (simp add: send_uni_net)
  then have "send net_env some_connection m net_init = (Inr (), v')"
    by (simp add: send_def send_with_def some_connection_def RetryConfig_retry_def retry_upto_success)
  with that show thesis .
qed

lemma delivered_net:
  assumes "length m < 2 ^ 32" "encode_frame net_env (UserMsg m) = Inr (g_avail net_ghost w r)"
    "g_fate net_ghost w r = Finished"
  shows "delivered net_env net_ghost some_connection w m r"
proof -
  obtain v' where "send net_env some_connection m net_init = (Inr (), v')"
    by (rule send_net [OF assms(1)])
  with assms(2,3) show ?thesis
    unfolding delivered_def by (intro conjI exI [of _ net_init] exI [of _ v']) auto
qed

theorem sent_messages_received_witness:
  "\<exists>w'. listen_on_uni_streams net_env peer_a 1 2 5 arriving = Some (U_Stopped, w')
     \<and> fst (receive_n net_env \<lparr>message_rx = 5, incoming_alive_tx = 2\<rparr> 2 (w'\<lparr>n_taken := (\<lambda>c. 0)\<rparr>))
         = [Inr (Some ([4, 5], None)), Inr (Some ([6], None))]"
proof -
  have enc: "encode_frame net_env (UserMsg [4, 5]) = Inr [0, 1, 0, 0, 0, 2, 0, 0, 0, 4, 5]"
    "encode_frame net_env (UserMsg [6]) = Inr [0, 1, 0, 0, 0, 1, 0, 0, 0, 6]"
    by (simp_all add: encode_frame_def MsgHeader_new_def MsgHeader_to_bytes_def u16_to_be_bytes_def
        u32_to_be_bytes_def MSG_PROTOCOL_VERSION_def USER_MSG_FLAG_def)
  have "delivered net_env net_ghost some_connection arriving [4, 5] 3"
    "delivered net_env net_ghost some_connection arriving [6] 4"
    by (rule delivered_net; simp add: arriving_def enc)+
  then have del: "list_all2 (delivered net_env net_ghost some_connection arriving) [[4, 5], [6]] [3, 4]"
    by simp
  have "handles_held net_env 2" "n_next arriving = 10" "n_rx_open arriving 5"
    "n_in_uni arriving 1 = map Inr [3, 4]" "n_log arriving 5 = []"
    by (simp_all add: handles_held_def arriving_def net_init_def)
  note facts = this
  have "\<exists>w'. listen_on_uni_streams net_env peer_a 1 2 (message_rx \<lparr>message_rx = 5, incoming_alive_tx = 2\<rparr>) arriving
        = Some (U_Stopped, w')
      \<and> (\<forall>w2. g_log net_ghost w2 (message_rx \<lparr>message_rx = 5, incoming_alive_tx = 2\<rparr>) =
               g_log net_ghost w' (message_rx \<lparr>message_rx = 5, incoming_alive_tx = 2\<rparr>)
            \<and> g_taken net_ghost w2 (message_rx \<lparr>message_rx = 5, incoming_alive_tx = 2\<rparr>) =
               length (g_log net_ghost arriving (message_rx \<lparr>message_rx = 5, incoming_alive_tx = 2\<rparr>)) \<longrightarrow>
            fst (receive_n net_env \<lparr>message_rx = 5, incoming_alive_tx = 2\<rparr> (length [[4, 5], [6 :: u8]]) w2)
              = map (\<lambda>m. Inr (Some (m, None))) [[4, 5], [6]])"
    by (rule sent_messages_received [OF net_connection.connection_laws_axioms net_bincode.bincode_laws_axioms
          facts(1) _ _ _ _ _ _ del]) (use facts in simp_all)
  then obtain w' where w': "listen_on_uni_streams net_env peer_a 1 2 5 arriving = Some (U_Stopped, w')"
    "\<And>w2. n_log w2 5 = n_log w' 5 \<and> n_taken w2 5 = 0 \<Longrightarrow>
       fst (receive_n net_env \<lparr>message_rx = 5, incoming_alive_tx = 2\<rparr> 2 w2)
         = [Inr (Some ([4, 5], None)), Inr (Some ([6], None))]"
    using facts(5) by (auto simp: numeral_2_eq_2)
  with w'(2) [of "w'\<lparr>n_taken := (\<lambda>c. 0)\<rparr>"] show ?thesis by (intro exI [of _ w']) simp
qed

section \<open>The RPCs end to end\<close>

text \<open>
  C10. The echo RPC tells an endpoint the address it is seen at. Let the client's request be
  delivered to the server, let the server's task serve the stream with a write that succeeds,
  and let its bytes be delivered back in time. Then the RPC returns the address that the
  server has for the connection.
\<close>

theorem echo_rpc_end_to_end:
  assumes "runtime_laws E G" and "bincode_laws E"
    and "open_bi E contact w = (Inr (cs, cr), w1)"
    and "send_wire_msg E cs EndpointEchoReq w1 = (Inr (), w2)"
    and "\<not> t_expired E ECHO_SERVICE_QUERY_TIMEOUT w2"
    and "g_avail G v sr = g_sent G w2 cs" and "g_sent G v ss = []" and "ss \<in> g_live_tx G v"
    and "bi_iteration E endpoint peer ch ss sr v = (go, v')"
    and "fst (write_to_stream E (EndpointEchoResp peer) ss (snd (read_from_stream E sr v))) = Inr ()"
    and "g_avail G w2 cr = g_sent G v' ss" and "canonical_addr peer"
  shows "\<exists>w3. endpoint_echo E self contact w = (Inr peer, w3)"
proof -
  obtain v1 where v1: "read_from_stream E sr v = (Inr (Some EndpointEchoReq), v1)" "g_sent G v1 ss = []"
    by (rule rpc_request_read [OF assms(1-4,6-8)]) (simp add: sendable_def)
  with assms(9,10) have "write_to_stream E (EndpointEchoResp peer) ss v1 = (Inr (), v')"
    by (auto simp: bi_iteration_def handle_endpoint_echo_def prod_eq_iff)
  then obtain w3 where "exchange E contact EndpointEchoReq w (Some (EndpointEchoResp peer)) w3"
    by (rule rpc_reply_read [OF assms(1-5) _ v1(2) assms(11)]) (use assms(12) in \<open>simp add: sendable_def\<close>)
  from endpoint_echo_exchange [OF this, of self] show ?thesis by simp
qed

definition asking :: net where
  "asking = net_init\<lparr>n_reply := (\<lambda>c r. ([echo_reply], Finished))\<rparr>"

theorem echo_rpc_end_to_end_witness:
  "\<exists>w3. endpoint_echo net_env some_endpoint some_connection asking = (Inr (V4 (Ipv4 10 0 0 2) 7000), w3)"
proof -
  let ?peer = "V4 (Ipv4 10 0 0 2) 7000"
  obtain w1 where w1: "open_bi net_env some_connection asking = (Inr (10, 10), w1)" "n_tx w1 10 = []"
    "concat (fst (n_rx w1 10)) = echo_reply" "n_tx_limit w1 10 = None" "\<not> n_slow w1"
    by (simp add: open_bi_def net_open_bi_def some_connection_def asking_def net_init_def)
  have w2: "write_to_stream net_env EndpointEchoReq 10 w1 =
      (Inr (), w1\<lparr>n_tx := (n_tx w1)(10 := [0, 1, 0, 0, 0, 4, 1, 0, 0, 0, 0, 0, 0])\<rparr>)"
    using w1(2,4) by (simp add: write_to_stream_def MsgHeader_new_def net_write_all_def Let_def le_bytes_4_small
      MsgHeader_to_bytes_def u16_to_be_bytes_def u32_to_be_bytes_def MSG_PROTOCOL_VERSION_def
      ECHO_SRVC_MSG_FLAG_def)
  have v: "n_tx echo_world 8 = []" "n_next echo_world = 10"
    "concat (fst (n_rx echo_world 3)) = [0, 1, 0, 0, 0, 4, 1, 0, 0, 0, 0, 0, 0]"
    by (simp_all add: echo_world_def net_init_def)
  obtain v' where v': "write_to_stream net_env (EndpointEchoResp ?peer) 8
      (echo_world\<lparr>n_rx := (n_rx echo_world)(3 := ([[]], Finished))\<rparr>) = (Inr (), v')" "n_tx v' 8 = echo_reply"
    using echo_served(2) by blast
  then have served: "bi_iteration net_env 0 ?peer 5 8 3 echo_world = (True, v')"
    by (simp add: bi_iteration_def handle_endpoint_echo_def echo_served(1))
  show ?thesis
    by (rule echo_rpc_end_to_end [OF net_runtime.runtime_laws_axioms net_bincode.bincode_laws_axioms
          w1(1) w2 [folded send_wire_msg_def] _ _ _ _ served])
      (simp_all add: w1(3,5) v v' echo_served(1))
qed

text \<open>
  C9. The verification RPC reports what the server has found out. Let the client's request be
  delivered to the server, let the server's task serve the stream, checking the address with
  the outcome \<open>out\<close> and writing its answer successfully, and let the answer be delivered back in
  time. Then the RPC returns \<open>true\<close> if the check of exactly the address in question was a success
  within its time limit, and \<open>false\<close> otherwise.
\<close>

theorem verification_rpc_end_to_end:
  assumes "runtime_laws E G" and "bincode_laws E"
    and "open_bi E contact w = (Inr (cs, cr), w1)"
    and "send_wire_msg E cs (EndpointVerificationReq addr) w1 = (Inr (), w2)"
    and "\<not> t_expired E ECHO_SERVICE_QUERY_TIMEOUT w2"
    and "g_avail G v sr = g_sent G w2 cs" and "g_sent G v ss = []" and "ss \<in> g_live_tx G v"
    and "bi_iteration E endpoint peer ch ss sr v = (go, v')"
    and "with_timeout E ENDPOINT_VERIFICATION_TIMEOUT (verify_endpoint E endpoint addr)
           (snd (read_from_stream E sr v)) = (out, v2)"
    and "fst (write_to_stream E (EndpointVerificationResp (out = Inr (Inr ()))) ss v2) = Inr ()"
    and "g_avail G w2 cr = g_sent G v' ss" and "canonical_addr addr"
  shows "\<exists>w3. endpoint_verification E self contact addr w = (Inr (out = Inr (Inr ())), w3)"
proof -
  let ?req = "EndpointVerificationReq addr" and ?resp = "EndpointVerificationResp (out = Inr (Inr ()))"
  obtain v1 where v1: "read_from_stream E sr v = (Inr (Some ?req), v1)" "g_sent G v1 ss = []" "ss \<in> g_live_tx G v1"
    by (rule rpc_request_read [OF assms(1-4,6-8)]) (use assms(13) in \<open>simp_all add: sendable_def\<close>)
  with assms(10) have ver: "with_timeout E ENDPOINT_VERIFICATION_TIMEOUT (verify_endpoint E endpoint addr) v1 = (out, v2)"
    by simp
  have "transport_laws E G" using assms(1) by (simp add: runtime_laws_def)
  from keepsD [OF transport_laws.with_timeout_keeps [OF this runtime_laws.verify_endpoint_keeps [OF assms(1)]] ver]
  have "g_sent G v2 ss = []" using v1(2,3) by (simp add: unchangedD)
  from assms(9,11) v1(1) ver have "write_to_stream E ?resp ss v2 = (Inr (), v')"
    by (auto simp: bi_iteration_def handle_endpoint_verification_def Let_def prod_eq_iff verified_is_ok)
  then obtain w3 where "exchange E contact ?req w (Some ?resp) w3"
    by (rule rpc_reply_read [OF assms(1-5) _ \<open>g_sent G v2 ss = []\<close> assms(12)]) (simp_all add: sendable_def)
  from endpoint_verification_exchange [OF this, of self] show ?thesis by simp
qed

theorem verification_rpc_end_to_end_witness:
  "\<exists>w3. endpoint_verification net_env some_endpoint some_connection (V4 (Ipv4 10 0 0 2) 7000)
     (net_init\<lparr>n_reply := (\<lambda>c r. ([verdict_reply True], Finished))\<rparr>) = (Inr True, w3)"
proof -
  let ?addr = "V4 (Ipv4 10 0 0 2) 7000" and ?w = "net_init\<lparr>n_reply := (\<lambda>c r. ([verdict_reply True], Finished))\<rparr>"
  let ?req = "[0, 1, 0, 0, 0, 14, 1, 0, 0, 2, 0, 0, 0, 0, 0, 0, 0, 10, 0, 0, 2, 88, 27]"
  obtain w1 where w1: "open_bi net_env some_connection ?w = (Inr (10, 10), w1)" "n_tx w1 10 = []"
    "concat (fst (n_rx w1 10)) = verdict_reply True" "n_tx_limit w1 10 = None" "\<not> n_slow w1"
    by (simp add: open_bi_def net_open_bi_def some_connection_def net_init_def)
  have w2: "write_to_stream net_env (EndpointVerificationReq ?addr) 10 w1 = (Inr (), w1\<lparr>n_tx := (n_tx w1)(10 := ?req)\<rparr>)"
    using w1(2,4) by (simp add: write_to_stream_def MsgHeader_new_def net_write_all_def Let_def le_bytes_4_small
      le_bytes_2 MsgHeader_to_bytes_def u16_to_be_bytes_def u32_to_be_bytes_def MSG_PROTOCOL_VERSION_def
      ECHO_SRVC_MSG_FLAG_def)
  have v: "n_tx verifying 8 = []" "n_next verifying = 10" "concat (fst (n_rx verifying 3)) = ?req" "\<not> n_slow verifying_read"
    by (simp_all add: verifying_def verification_world_def net_init_def)
  obtain v2 where v2: "verify_endpoint net_env 0 ?addr verifying_read = (Inr (), v2)" "n_tx v2 8 = []" "n_tx_limit v2 8 = None"
    using verifying_verifies by blast
  then have timed: "with_timeout net_env ENDPOINT_VERIFICATION_TIMEOUT (verify_endpoint net_env 0 ?addr)
      (snd (read_from_stream net_env 3 verifying)) = (Inr (Inr ()), v2)"
    using v(4) by (simp add: with_timeout_def verifying_reads)
  note answer = net_write_verdict [OF v2(2,3)]
  have served: "bi_iteration net_env 0 peer_a 5 8 3 verifying = (True, v2\<lparr>n_tx := (n_tx v2)(8 := verdict_reply True)\<rparr>)"
    using timed by (simp add: bi_iteration_def handle_endpoint_verification_def verifying_reads answer)
  have "\<exists>w3. endpoint_verification net_env some_endpoint some_connection ?addr ?w =
      (Inr (Inr (Inr ()) = (Inr (Inr ()) :: unit + RpcError + unit)), w3)"
    by (rule verification_rpc_end_to_end [OF net_runtime.runtime_laws_axioms net_bincode.bincode_laws_axioms
          w1(1) w2 [folded send_wire_msg_def] _ _ _ _ served timed])
      (simp_all add: w1(3,5) v answer)
  then show ?thesis by simp
qed

section \<open>Closing an endpoint\<close>

text \<open>
  C25. Closing an endpoint ends the renewal of its port mapping: from then on the renewal
  task stops at its next tick, without asking the gateway again.
\<close>

theorem close_stops_renewal:
  assumes "termination_laws E sig"
  shows "renew_loop E ext_port addr lease (termination_tx self) timer (Endpoint_close E self w) =
    Some (snd (t_broadcast_try_recv E (termination_tx self) (t_tick E timer (Endpoint_close E self w))))"
proof (rule termination_laws.renew_loop_signalled [OF assms])
  show "sig (Endpoint_close E self w) (termination_tx self)"
    unfolding Endpoint_close_def
    by (intro termination_laws.close_signal [OF assms] termination_laws.send_signals [OF assms])
qed

theorem close_stops_renewal_witness:
  "renew_loop net_env 4001 peer_a 60 (termination_tx some_endpoint) 9 (Endpoint_close net_env some_endpoint net_init) =
     Some (Endpoint_close net_env some_endpoint net_init)"
  by (simp add: close_stops_renewal [OF net_termination.termination_laws_axioms])

end
